(* ===== verification/Prelude.thy ===== *)
theory Prelude
  imports Main "HOL-Library.Word"
begin

text \<open>
  Shared vocabulary of the development: machine integers, the faults an execution of
  the C code can run into, results, and the list and word facts that the components
  share.

  A C function whose execution can go wrong returns a result \<open>fault + 'a\<close>: \<open>Inl f\<close> is
  an execution that reads an uninitialised or released object, dereferences a null pointer, leaves an
  array, overflows a fixed buffer, or blocks for ever in a system call.
  Errors that the code itself reports (messages, \<open>NULL\<close>, \<open>-1\<close>) are ordinary values.
\<close>

unbundle bit_operations_syntax

type_synonym u8 = "8 word"
type_synonym u16 = "16 word"
type_synonym u32 = "32 word"
type_synonym u64 = "64 word"

datatype fault =
    Uninit_Read      \<comment> \<open>an object that was never assigned is read\<close>
  | Null_Deref       \<comment> \<open>a null pointer is dereferenced\<close>
  | Out_Of_Bounds    \<comment> \<open>an array is indexed outside its extent\<close>
  | Buffer_Overflow  \<comment> \<open>a string is written past the end of a fixed buffer\<close>
  | Use_After_Free   \<comment> \<open>an object is read after it was released\<close>
  | Bad_Shift        \<comment> \<open>a shift by a negative or too large amount\<close>
  | Int_Overflow     \<comment> \<open>a signed counter passes its largest value\<close>
  | Blocked          \<comment> \<open>a system call that never returns\<close>

type_synonym 'a res = "fault + 'a"

subsection \<open>Sequencing of results\<close>

definition thenR :: "'a res \<Rightarrow> ('a \<Rightarrow> 'b res) \<Rightarrow> 'b res" where
  "thenR r f = (case r of Inl e \<Rightarrow> Inl e | Inr x \<Rightarrow> f x)"

lemma thenR_simps [simp]:
  "thenR (Inl e) f = Inl e"
  "thenR (Inr x) f = f x"
  by (simp_all add: thenR_def)

lemma thenR_eq_Inr: "thenR r f = Inr y \<longleftrightarrow> (\<exists>x. r = Inr x \<and> f x = Inr y)"
  by (cases r) auto

lemma thenR_eq_Inl:
  "thenR r f = Inl e \<longleftrightarrow> r = Inl e \<or> (\<exists>x. r = Inr x \<and> f x = Inl e)"
  by (cases r) auto

text \<open>An optional object: reading it when it is absent is the given fault.\<close>

definition need :: "fault \<Rightarrow> 'a option \<Rightarrow> 'a res" where
  "need e m = (case m of None \<Rightarrow> Inl e | Some x \<Rightarrow> Inr x)"

lemma need_simps [simp]:
  "need e None = Inl e"
  "need e (Some x) = Inr x"
  by (simp_all add: need_def)

lemma need_eq_Inr [simp]: "need e m = Inr x \<longleftrightarrow> m = Some x"
  by (cases m) auto

text \<open>Array access with its bounds check.\<close>

definition index_at :: "'a list \<Rightarrow> nat \<Rightarrow> 'a res" where
  "index_at xs i = (if i < length xs then Inr (xs ! i) else Inl Out_Of_Bounds)"

lemma index_at_in [simp]: "i < length xs \<Longrightarrow> index_at xs i = Inr (xs ! i)"
  by (simp add: index_at_def)

lemma index_at_out [simp]: "length xs \<le> i \<Longrightarrow> index_at xs i = Inl Out_Of_Bounds"
  by (simp add: index_at_def)

lemma index_at_eq_Inr: "index_at xs i = Inr x \<longleftrightarrow> i < length xs \<and> x = xs ! i"
  by (auto simp: index_at_def)

subsection \<open>Loops over an index range\<close>

text \<open>
  \<open>for_upto f i n s\<close> runs the body \<open>f i\<close>, \<open>f (i+1)\<close>, \dots for \<open>n\<close> iterations.
  The body says whether the loop goes on (\<open>Next\<close>) or the function returns from
  inside the loop (\<open>Return\<close>).
\<close>

datatype 's flow = Next 's | Return 's

primrec flow_state :: "'s flow \<Rightarrow> 's" where
  "flow_state (Next s) = s"
| "flow_state (Return s) = s"

fun for_upto :: "(nat \<Rightarrow> 's \<Rightarrow> 's flow res) \<Rightarrow> nat \<Rightarrow> nat \<Rightarrow> 's \<Rightarrow> 's flow res" where
  "for_upto f i 0 s = Inr (Next s)"
| "for_upto f i (Suc n) s =
     (case f i s of
        Inl e \<Rightarrow> Inl e
      | Inr (Return s') \<Rightarrow> Inr (Return s')
      | Inr (Next s') \<Rightarrow> for_upto f (Suc i) n s')"

text \<open>An invariant of the body is an invariant of the loop.\<close>

lemma for_upto_invariant:
  assumes "for_upto f i n s = Inr r" and "P s"
    and "\<And>j s r. i \<le> j \<Longrightarrow> j < i + n \<Longrightarrow> P s \<Longrightarrow> f j s = Inr r \<Longrightarrow> P (flow_state r)"
  shows "P (flow_state r)"
  using assms
proof (induction n arbitrary: i s)
  case 0
  then show ?case by auto
next
  case (Suc n)
  obtain r1 where r1: "f i s = Inr r1"
    using Suc.prems(1) by (cases "f i s") auto
  with Suc.prems(2) Suc.prems(3) [of i s r1] have P1: "P (flow_state r1)" by simp
  show ?case
  proof (cases r1)
    case (Return t)
    with r1 Suc.prems(1) P1 show ?thesis by auto
  next
    case (Next t)
    show ?thesis
    proof (rule Suc.IH)
      show "for_upto f (Suc i) n t = Inr r" using Suc.prems(1) r1 Next by simp
      show "P t" using P1 Next by simp
      show "P (flow_state r')" if "Suc i \<le> j" "j < Suc i + n" "P s'" "f j s' = Inr r'" for j s' r'
        using Suc.prems(3) [of j s' r'] that by simp
    qed
  qed
qed

text \<open>
  Partial correctness with an indexed invariant: leaving the loop early must establish what
  its end would.
\<close>

lemma for_upto_indexed:
  assumes "for_upto f i n s = Inr r" and "P i s"
    and "\<And>j s t. i \<le> j \<Longrightarrow> j < i + n \<Longrightarrow> P j s \<Longrightarrow> f j s = Inr (Next t) \<Longrightarrow> P (Suc j) t"
    and "\<And>j s t. i \<le> j \<Longrightarrow> j < i + n \<Longrightarrow> P j s \<Longrightarrow> f j s = Inr (Return t) \<Longrightarrow> P (i + n) t"
  shows "P (i + n) (flow_state r)"
  using assms
proof (induction n arbitrary: i s)
  case 0
  then show ?case by auto
next
  case (Suc n)
  obtain r1 where r1: "f i s = Inr r1" using Suc.prems(1) by (cases "f i s") auto
  show ?case
  proof (cases r1)
    case (Return t)
    with r1 Suc.prems(1) have "r = Return t" by simp
    with Return r1 Suc.prems(2) Suc.prems(4) [of i s t] show ?thesis by simp
  next
    case (Next t)
    have "P (Suc i + n) (flow_state r)"
    proof (rule Suc.IH)
      show "for_upto f (Suc i) n t = Inr r" using Suc.prems(1) r1 Next by simp
      show "P (Suc i) t" using Suc.prems(3) [of i s t] Suc.prems(2) r1 Next by simp
      show "P (Suc j) u" if "Suc i \<le> j" "j < Suc i + n" "P j v" "f j v = Inr (Next u)" for j v u
        using Suc.prems(3) [of j v u] that by simp
      show "P (Suc i + n) u" if "Suc i \<le> j" "j < Suc i + n" "P j v" "f j v = Inr (Return u)" for j v u
        using Suc.prems(4) [of j v u] that by simp
    qed
    then show ?thesis by simp
  qed
qed

text \<open>
  Total correctness of a counting loop whose body always goes on: an indexed invariant
  that every iteration establishes for the next index holds at the end, and the loop
  does reach its end.
\<close>

lemma for_upto_total:
  assumes "P i s"
    and "\<And>j s. i \<le> j \<Longrightarrow> j < i + n \<Longrightarrow> P j s \<Longrightarrow> \<exists>s'. f j s = Inr (Next s') \<and> P (Suc j) s'"
  shows "\<exists>s'. for_upto f i n s = Inr (Next s') \<and> P (i + n) s'"
  using assms
proof (induction n arbitrary: i s)
  case 0
  then show ?case by simp
next
  case (Suc n)
  obtain s1 where s1: "f i s = Inr (Next s1)" and P1: "P (Suc i) s1"
    using Suc.prems(1) Suc.prems(2) [of i s] by auto
  have "\<exists>s'. for_upto f (Suc i) n s1 = Inr (Next s') \<and> P (Suc i + n) s'"
    by (rule Suc.IH [OF P1]) (use Suc.prems(2) in simp)
  with s1 show ?case by simp
qed

lemma for_upto_skip:
  assumes "\<And>j. i \<le> j \<Longrightarrow> j < i + n \<Longrightarrow> f j s = Inr (Next s)"
  shows "for_upto f i n s = Inr (Next s)"
  using for_upto_total [of "\<lambda>_ t. t = s" i s n f] assms by auto

lemma for_upto_Next_same:
  assumes "\<And>j t t'. f j t = Inr (Next t') \<Longrightarrow> t' = t" and "for_upto f i n s = Inr (Next s')"
  shows "s' = s"
  using assms(2)
proof (induction n arbitrary: i s)
  case 0
  then show ?case by simp
next
  case (Suc n)
  then show ?case by (auto split: sum.splits flow.splits dest: assms(1))
qed

lemma for_upto_first:
  assumes "\<And>j. j < k \<Longrightarrow> f (i + j) s = Inr (Next s)" "f (i + k) s = Inr (Return s')" "k < n"
  shows "for_upto f i n s = Inr (Return s')"
  using assms
proof (induction k arbitrary: i n)
  case 0
  then show ?case by (cases n) simp_all
next
  case (Suc k)
  obtain m where n: "n = Suc m" "k < m" using Suc.prems(3) by (cases n) auto
  have "f i s = Inr (Next s)" using Suc.prems(1) [of 0] by simp
  moreover have "for_upto f (Suc i) m s = Inr (Return s')"
    using Suc.prems(1) [of "Suc _"] Suc.prems(2) n by (intro Suc.IH) simp_all
  ultimately show ?case by (simp add: n)
qed

lemma for_upto_split:
  "for_upto f i (m + n) s =
     (case for_upto f i m s of
        Inl e \<Rightarrow> Inl e
      | Inr (Return s') \<Rightarrow> Inr (Return s')
      | Inr (Next s') \<Rightarrow> for_upto f (i + m) n s')"
  by (induction m arbitrary: i s) (auto split: sum.splits flow.splits)

subsection \<open>Words\<close>

lemma unat_u64_less: "unat (w :: u64) < 18446744073709551616"
  using unsigned_less [of w, where 'a = nat] by simp

lemma unat_u8_less: "unat (b :: u8) < 256"
  using unsigned_less [of b, where 'a = nat] by simp

lemma sint_nonneg: "0 \<le> sint (w :: 'a::len word) \<Longrightarrow> sint w = int (unat w)"
proof -
  assume "0 \<le> sint w"
  moreover have "sint w < 2 ^ LENGTH('a)"
    using sint_less [of w] by (rule less_le_trans) simp
  ultimately have "take_bit LENGTH('a) (sint w) = sint w" by (rule take_bit_int_eq_self)
  then show ?thesis by (simp flip: uint_sint)
qed

lemma sint_le_unat: "sint (w :: 'a::len word) \<le> int (unat w)"
proof (cases "0 \<le> sint w")
  case False
  then have "sint w \<le> 0" by simp
  also have "0 \<le> int (unat w)" by (rule of_nat_0_le_iff)
  finally show ?thesis .
qed (simp add: sint_nonneg)

lemma low_byte_mask: "(w :: u64) AND 0xff = take_bit 8 w"
proof -
  have "(0xff :: u64) = mask 8" by (simp add: mask_eq_exp_minus_1)
  then show ?thesis by (simp add: take_bit_eq_mask)
qed

subsection \<open>Bytes of a 64-bit word, little endian\<close>

definition byte_at :: "u64 \<Rightarrow> nat \<Rightarrow> u8" where
  "byte_at w i = ucast (drop_bit (8 * i) w)"

definition word_of_bytes :: "(nat \<Rightarrow> u8) \<Rightarrow> u64" where
  "word_of_bytes f = foldr (\<lambda>i acc. push_bit (8 * i) (ucast (f i)) OR acc) [0..<8] 0"

lemma bit_byte_at: "bit (byte_at w i) n \<longleftrightarrow> n < 8 \<and> bit w (8 * i + n)"
  by (auto simp: byte_at_def bit_simps dest: bit_imp_le_length)

lemma bit_foldr_push:
  "bit (foldr (\<lambda>i acc. push_bit (8 * i) (ucast (f i :: u8)) OR acc) is (0 :: u64)) n \<longleftrightarrow>
     n < 64 \<and> (\<exists>i \<in> set is. 8 * i \<le> n \<and> n < 8 * i + 8 \<and> bit (f i) (n - 8 * i))"
proof (induction "is")
  case Nil
  show ?case by simp
next
  case (Cons i "is")
  have "bit (push_bit (8 * i) (ucast (f i) :: u64)) n \<longleftrightarrow>
      n < 64 \<and> 8 * i \<le> n \<and> n < 8 * i + 8 \<and> bit (f i) (n - 8 * i)"
    by (auto simp: bit_simps dest: bit_imp_le_length)
  with Cons show ?case by (auto simp: bit_or_iff)
qed

lemma bit_word_of_bytes:
  "bit (word_of_bytes f) n \<longleftrightarrow> n < 64 \<and> bit (f (n div 8)) (n mod 8)"
proof -
  have "(\<exists>i \<in> {0..<8}. 8 * i \<le> n \<and> n < 8 * i + 8 \<and> bit (f i) (n - 8 * i)) \<longleftrightarrow>
      bit (f (n div 8)) (n mod 8)" if "n < 64"
  proof
    assume "\<exists>i \<in> {0..<8}. 8 * i \<le> n \<and> n < 8 * i + 8 \<and> bit (f i) (n - 8 * i)"
    then obtain i where i: "8 * i \<le> n" "n < 8 * i + 8" "bit (f i) (n - 8 * i)" by auto
    from i(1,2) have d: "n div 8 = i" by (intro div_nat_eqI) simp_all
    then have "n - 8 * i = n mod 8" by (simp add: minus_mult_div_eq_mod flip: d)
    with i d show "bit (f (n div 8)) (n mod 8)" by simp
  next
    assume "bit (f (n div 8)) (n mod 8)"
    moreover have "n - 8 * (n div 8) = n mod 8" by (simp add: minus_mult_div_eq_mod)
    moreover have "n div 8 \<in> {0..<8}" using that by auto
    moreover have "8 * (n div 8) \<le> n" "n < 8 * (n div 8) + 8"
      using dividend_less_times_div [of 8 n] by simp_all
    ultimately show "\<exists>i \<in> {0..<8}. 8 * i \<le> n \<and> n < 8 * i + 8 \<and> bit (f i) (n - 8 * i)"
      by metis
  qed
  then show ?thesis
    unfolding word_of_bytes_def bit_foldr_push set_upt by blast
qed

lemma byte_at_word_of_bytes: "i < 8 \<Longrightarrow> byte_at (word_of_bytes f) i = f i"
  by (rule bit_word_eqI) (auto simp: bit_byte_at bit_word_of_bytes)

lemma word_of_bytes_byte_at: "word_of_bytes (byte_at w) = w"
  by (rule bit_word_eqI) (auto simp: bit_byte_at bit_word_of_bytes)

lemma word_of_bytes_cong: "(\<And>i. i < 8 \<Longrightarrow> f i = g i) \<Longrightarrow> word_of_bytes f = word_of_bytes g"
  by (rule bit_word_eqI) (simp add: bit_word_of_bytes)

text \<open>The low byte, as the code tests it, and replacing it, as the code patches it.\<close>

lemma ucast_cc: "(0xcc :: u64) = ucast (0xcc :: u8)"
  by simp

lemma ucast_u8_inj: "(ucast (b :: u8) :: u64) = ucast c \<longleftrightarrow> b = (c :: u8)"
proof
  assume "(ucast b :: u64) = ucast c"
  then have "unat (ucast b :: u64) = unat (ucast c :: u64)" by (rule arg_cong)
  then show "b = c"
    using unat_u8_less [of b] unat_u8_less [of c]
    by (simp add: unsigned_ucast_eq take_bit_nat_eq_self word_unat_eq_iff)
qed simp

lemma ucast_cc_eq: "(ucast (b :: u8) :: u64) = 0xcc \<longleftrightarrow> b = 0xcc"
  unfolding ucast_cc by (rule ucast_u8_inj)

lemma bit_cc_high: "8 \<le> n \<Longrightarrow> \<not> bit (0xcc :: u64) n"
proof -
  assume "8 \<le> n"
  then have "\<not> bit (ucast (0xcc :: u8) :: u64) n"
    by (subst bit_ucast_iff) (auto dest: bit_imp_le_length)
  then show ?thesis by (subst ucast_cc)
qed

lemma low_byte_eq: "w AND 0xff = 0xcc \<longleftrightarrow> byte_at w 0 = 0xcc"
proof -
  have "w AND 0xff = ucast (byte_at w 0)"
    by (rule bit_word_eqI) (auto simp: low_byte_mask bit_simps bit_byte_at)
  then show ?thesis by (simp add: ucast_cc_eq)
qed

definition set_low_byte :: "u64 \<Rightarrow> u64" where
  "set_low_byte w = (w AND 0xffffffffffffff00) OR 0xcc"

lemma byte_at_set_low: "i < 8 \<Longrightarrow> byte_at (set_low_byte w) i = (if i = 0 then 0xcc else byte_at w i)"
proof -
  have m: "(0xffffffffffffff00 :: u64) = NOT (mask 8)" by (simp add: mask_eq_exp_minus_1)
  assume "i < 8"
  show ?thesis
  proof (cases "i = 0")
    case True
    have "byte_at (set_low_byte w) 0 = 0xcc"
    proof (rule bit_word_eqI)
      fix n assume n: "n < LENGTH(8)"
      then have "bit (0xcc :: u64) n = bit (0xcc :: u8) n" by (simp add: bit_numeral_word_iff)
      with n show "bit (byte_at (set_low_byte w) 0) n = bit (0xcc :: u8) n"
        by (simp add: set_low_byte_def bit_byte_at m bit_simps)
    qed
    with True show ?thesis by simp
  next
    case False
    have "byte_at (set_low_byte w) i = byte_at w i"
      by (rule bit_word_eqI) (use False \<open>i < 8\<close> bit_cc_high in
        \<open>auto simp: set_low_byte_def bit_byte_at m bit_simps\<close>)
    with False show ?thesis by simp
  qed
qed

end
