(* ===== verification/C_Text.thy ===== *)
theory C_Text
  imports Prelude
begin

text \<open>
  What the code uses of C's string and formatted input/output functions:
  \<open>strcmp\<close>, \<open>strchr\<close>, \<open>strtok\<close>, POSIX \<open>basename\<close>, the \<open>scanf\<close> conversions
  \<open>%s\<close>, \<open>%x\<close>, \<open>%llx\<close>, \<open>%llu\<close>, \<open>%d\<close>, the \<open>printf\<close> conversions for numbers and
  padded fields, and \<open>isprint\<close>.  A C string is the list of its characters before
  the terminating NUL.  The main facts are the round trips between the printed and
  the scanned form of a number.
\<close>

subsection \<open>Character classes, comparison, tokens\<close>

definition c_space :: "char \<Rightarrow> bool" where
  "c_space c \<longleftrightarrow> (let n = (of_char c :: nat) in n = 32 \<or> 9 \<le> n \<and> n \<le> 13)"

definition c_print :: "char \<Rightarrow> bool" where
  "c_print c \<longleftrightarrow> (let n = (of_char c :: nat) in 32 \<le> n \<and> n \<le> 126)"

abbreviation NUL :: char where "NUL \<equiv> CHR 0x00"
abbreviation newline :: string where "newline \<equiv> [CHR 0x0A]"

text \<open>The C string at the beginning of an array: it ends before the first zero.\<close>

definition c_string :: "string \<Rightarrow> string" where
  "c_string s = takeWhile (\<lambda>c. c \<noteq> NUL) s"

lemma c_string_snoc [simp]: "c_string (s @ [NUL]) = c_string s"
  unfolding c_string_def by (induction s) simp_all

text \<open>
  \<open>strcmp(p, lit) == 0\<close> for a pointer \<open>p\<close> into an array: \<open>buf\<close> is the array from
  \<open>p\<close> on.  The comparison stops at the first difference; running off the array
  before that is a fault.
\<close>

fun c_streq :: "char list \<Rightarrow> string \<Rightarrow> bool res" where
  "c_streq [] lit = Inl Out_Of_Bounds"
| "c_streq (c # cs) [] = Inr (c = NUL)"
| "c_streq (c # cs) (x # xs) = (if c = x then c_streq cs xs else Inr False)"

text \<open>The tokens that repeated \<open>strtok\<close> calls return: maximal runs of non-delimiters.\<close>

function strtok_all :: "(char \<Rightarrow> bool) \<Rightarrow> string \<Rightarrow> string list" where
  "strtok_all del s =
     (let s' = dropWhile del s in
      if s' = [] then []
      else takeWhile (\<lambda>c. \<not> del c) s' # strtok_all del (dropWhile (\<lambda>c. \<not> del c) s'))"
  by pat_completeness auto
termination
proof (relation "measure (\<lambda>(del, s). length s)", goal_cases)
  case (2 del s s')
  then obtain c t where ct: "s' = c # t" and "\<not> del c"
    by (metis hd_dropWhile list.collapse)
  have "length (dropWhile (\<lambda>c. \<not> del c) s') \<le> length t"
    using ct \<open>\<not> del c\<close> by (simp add: length_dropWhile_le)
  also have "length t < length s'" using ct by simp
  also have "length s' \<le> length s" using 2 by (simp add: length_dropWhile_le)
  finally show ?case by simp
qed simp

declare strtok_all.simps [simp del]

text \<open>\<open>strchr(s, '-')\<close> followed by splitting there, as the code does with a range.\<close>

fun split_at_char :: "char \<Rightarrow> string \<Rightarrow> (string \<times> string) option" where
  "split_at_char d [] = None"
| "split_at_char d (c # cs) =
     (if c = d then Some ([], cs)
      else map_option (\<lambda>(a, b). (c # a, b)) (split_at_char d cs))"

text \<open>\<open>basename\<close> of \<^verbatim>\<open>libgen.h\<close>.\<close>

definition basename :: "string \<Rightarrow> string" where
  "basename p =
     (if p = [] then ''.''
      else let q = rev (dropWhile (\<lambda>c. c = CHR ''/'') (rev p)) in
        if q = [] then ''/'' else rev (takeWhile (\<lambda>c. c \<noteq> CHR ''/'') (rev q)))"

text \<open>\<open>%s\<close>: skip white space, then the longest run of other characters.\<close>

definition scan_s :: "string \<Rightarrow> (string \<times> string) option" where
  "scan_s s =
     (let s' = dropWhile c_space s; t = takeWhile (\<lambda>c. \<not> c_space c) s'
      in if t = [] then None else Some (t, dropWhile (\<lambda>c. \<not> c_space c) s'))"

text \<open>Storing a scanned string in \<open>char buf[n]\<close>: the NUL must fit too.\<close>

definition store_s :: "nat \<Rightarrow> string \<Rightarrow> string res" where
  "store_s n s = (if length s < n then Inr s else Inl Buffer_Overflow)"

subsection \<open>Printing numbers\<close>

definition digit_char :: "nat \<Rightarrow> char" where
  "digit_char d = (if d < 10 then char_of (48 + d) else char_of (87 + d))"

fun show_base :: "nat \<Rightarrow> nat \<Rightarrow> string" where
  "show_base b n =
     (if b < 2 \<or> n < b then [digit_char n] else show_base b (n div b) @ [digit_char (n mod b)])"

declare show_base.simps [simp del]

definition show_llx :: "'a::len word \<Rightarrow> string" where  \<comment> \<open>\<open>%llx\<close>, \<open>%lx\<close>, \<open>%x\<close>\<close>
  "show_llx w = show_base 16 (unat w)"

definition show_llu :: "'a::len word \<Rightarrow> string" where  \<comment> \<open>\<open>%llu\<close>\<close>
  "show_llu w = show_base 10 (unat w)"

definition show_d :: "int \<Rightarrow> string" where  \<comment> \<open>\<open>%d\<close>\<close>
  "show_d i = (if i < 0 then CHR ''-'' # show_base 10 (nat (- i)) else show_base 10 (nat i))"

definition pad_left :: "char \<Rightarrow> nat \<Rightarrow> string \<Rightarrow> string" where
  "pad_left c n s = replicate (n - length s) c @ s"

definition pad_right :: "nat \<Rightarrow> string \<Rightarrow> string" where
  "pad_right n s = s @ replicate (n - length s) (CHR '' '')"

abbreviation show_02x :: "u8 \<Rightarrow> string" where
  "show_02x b \<equiv> pad_left (CHR ''0'') 2 (show_llx b)"

abbreviation show_016llx :: "u64 \<Rightarrow> string" where
  "show_016llx w \<equiv> pad_left (CHR ''0'') 16 (show_llx w)"

subsection \<open>Scanning numbers\<close>

definition digit_val :: "char \<Rightarrow> nat option" where
  "digit_val c =
     (let n = (of_char c :: nat) in
      if 48 \<le> n \<and> n \<le> 57 then Some (n - 48)
      else if 97 \<le> n \<and> n \<le> 102 then Some (n - 87)
      else if 65 \<le> n \<and> n \<le> 70 then Some (n - 55)
      else None)"

definition is_digit_of :: "nat \<Rightarrow> char \<Rightarrow> bool" where
  "is_digit_of b c \<longleftrightarrow> (case digit_val c of None \<Rightarrow> False | Some d \<Rightarrow> d < b)"

definition digits_value :: "nat \<Rightarrow> string \<Rightarrow> nat" where
  "digits_value b cs = foldl (\<lambda>a c. a * b + the (digit_val c)) 0 cs"

definition scan_sign :: "string \<Rightarrow> bool \<times> string" where
  "scan_sign s =
     (case s of
        c # cs \<Rightarrow> if c = CHR ''-'' then (True, cs) else if c = CHR ''+'' then (False, cs) else (False, s)
      | [] \<Rightarrow> (False, s))"

text \<open>The digits after an optional \<open>0x\<close>; \<open>None\<close> is a matching failure.\<close>

definition scan_hex_digits :: "string \<Rightarrow> nat option" where
  "scan_hex_digits s =
     (case s of
        a # x # cs \<Rightarrow>
          if a = CHR ''0'' \<and> (x = CHR ''x'' \<or> x = CHR ''X'')
          then Some (digits_value 16 (takeWhile (is_digit_of 16) cs))
          else let ds = takeWhile (is_digit_of 16) s in if ds = [] then None else Some (digits_value 16 ds)
      | _ \<Rightarrow> let ds = takeWhile (is_digit_of 16) s in if ds = [] then None else Some (digits_value 16 ds))"

definition scan_dec_digits :: "string \<Rightarrow> nat option" where
  "scan_dec_digits s =
     (let ds = takeWhile (is_digit_of 10) s in if ds = [] then None else Some (digits_value 10 ds))"

text \<open>\<open>strtoull\<close> saturates at the largest value and negates modulo \<open>2 ^ 64\<close>.\<close>

definition to_ull :: "bool \<Rightarrow> nat \<Rightarrow> u64" where
  "to_ull neg n = (if 2 ^ 64 \<le> n then - 1 else if neg then - of_nat n else of_nat n)"

text \<open>\<open>sscanf(s, "%llx", &x)\<close>: \<open>None\<close> leaves \<open>x\<close> unassigned.\<close>

definition scan_llx :: "string \<Rightarrow> u64 option" where
  "scan_llx s =
     (let (neg, s') = scan_sign (dropWhile c_space s)
      in map_option (to_ull neg) (scan_hex_digits s'))"

definition scan_llu :: "string \<Rightarrow> u64 option" where
  "scan_llu s =
     (let (neg, s') = scan_sign (dropWhile c_space s)
      in map_option (to_ull neg) (scan_dec_digits s'))"

text \<open>\<open>%x\<close> into an \<open>unsigned int\<close>: the 64-bit value is truncated.\<close>

definition scan_x :: "string \<Rightarrow> u32 option" where
  "scan_x s = map_option ucast (scan_llx s)"

text \<open>\<open>%d\<close> into an \<open>int\<close>: \<open>strtol\<close> saturates to \<open>long\<close>, the assignment truncates.\<close>

definition to_int32 :: "bool \<Rightarrow> nat \<Rightarrow> int" where
  "to_int32 neg n =
     signed_take_bit 31 (if neg then max (- (2 ^ 63)) (- int n) else min (2 ^ 63 - 1) (int n))"

definition scan_d :: "string \<Rightarrow> int option" where
  "scan_d s =
     (let (neg, s') = scan_sign (dropWhile c_space s)
      in map_option (to_int32 neg) (scan_dec_digits s'))"

subsection \<open>Round trips\<close>

lemma digit_val_char: "d < 16 \<Longrightarrow> digit_val (digit_char d) = Some d"
  by (auto simp: digit_val_def digit_char_def Let_def)

lemma is_digit_of_char: "d < b \<Longrightarrow> b \<le> 16 \<Longrightarrow> is_digit_of b (digit_char d)"
  by (simp add: is_digit_of_def digit_val_char)

lemma digits_value_snoc: "digits_value b (cs @ [c]) = digits_value b cs * b + the (digit_val c)"
  by (simp add: digits_value_def)

lemma show_base_nonempty: "show_base b n \<noteq> []"
  by (subst show_base.simps) simp

lemma show_base_digits:
  "2 \<le> b \<Longrightarrow> b \<le> 16 \<Longrightarrow> c \<in> set (show_base b n) \<Longrightarrow> is_digit_of b c"
proof (induction b n rule: show_base.induct)
  case (1 b n)
  then show ?case
    by (cases "n < b") (auto simp: show_base.simps [of b n] is_digit_of_char)
qed

lemma digits_value_show_base: "2 \<le> b \<Longrightarrow> b \<le> 16 \<Longrightarrow> digits_value b (show_base b n) = n"
proof (induction b n rule: show_base.induct)
  case (1 b n)
  show ?case
  proof (cases "n < b")
    case True
    with "1.prems" show ?thesis
      by (simp add: show_base.simps [of b n] digits_value_def digit_val_char)
  next
    case False
    with 1 have IH: "digits_value b (show_base b (n div b)) = n div b" by simp
    have "n mod b < 16" using "1.prems" by (meson less_le_trans mod_less_divisor zero_less_numeral)
    with False "1.prems" show ?thesis
      by (simp add: show_base.simps [of b n] digits_value_snoc IH digit_val_char)
  qed
qed

lemma takeWhile_show_base:
  "2 \<le> b \<Longrightarrow> b \<le> 16 \<Longrightarrow> takeWhile (is_digit_of b) (show_base b n) = show_base b n"
  by (simp add: show_base_digits)

lemma digit_not_special:
  assumes "is_digit_of 16 c"
  shows "\<not> c_space c" "c \<noteq> CHR ''-''" "c \<noteq> CHR ''+''" "c \<noteq> CHR ''x''" "c \<noteq> CHR ''X''"
  using assms by (auto simp: is_digit_of_def digit_val_def c_space_def Let_def split: if_splits)

lemma is_digit_of_mono: "is_digit_of b c \<Longrightarrow> b \<le> b' \<Longrightarrow> is_digit_of b' c"
  by (auto simp: is_digit_of_def split: option.splits)

lemma scan_prefix_show_base:
  assumes "2 \<le> b" "b \<le> 16"
  shows "scan_sign (dropWhile c_space (show_base b n)) = (False, show_base b n)"
proof -
  obtain c cs where c: "show_base b n = c # cs"
    by (meson neq_Nil_conv show_base_nonempty)
  have "is_digit_of b c"
    by (rule show_base_digits [OF assms, of c n]) (simp add: c)
  then have "is_digit_of 16 c" using assms(2) by (rule is_digit_of_mono)
  from digit_not_special [OF this] show ?thesis by (simp add: c scan_sign_def)
qed

lemma scan_hex_show_base: "scan_hex_digits (show_base 16 n) = Some n"
proof -
  have tw: "takeWhile (is_digit_of 16) (show_base 16 n) = show_base 16 n"
    by (rule takeWhile_show_base) simp_all
  have val: "digits_value 16 (show_base 16 n) = n" by (rule digits_value_show_base) simp_all
  show ?thesis
  proof (cases "show_base 16 n")
    case Nil
    then show ?thesis using show_base_nonempty by blast
  next
    case (Cons a t)
    show ?thesis
    proof (cases t)
      case Nil
      with Cons tw val show ?thesis by (simp add: scan_hex_digits_def)
    next
      case (Cons x u)
      have "is_digit_of 16 x"
        by (rule show_base_digits [of 16 x n]) (simp_all add: Cons \<open>show_base 16 n = a # t\<close>)
      from digit_not_special [OF this] have "x \<noteq> CHR ''x''" "x \<noteq> CHR ''X''" by simp_all
      then have "scan_hex_digits (a # x # u) =
          (let ds = takeWhile (is_digit_of 16) (a # x # u)
           in if ds = [] then None else Some (digits_value 16 ds))"
        by (simp add: scan_hex_digits_def)
      moreover have "takeWhile (is_digit_of 16) (a # x # u) = a # x # u"
        using tw Cons \<open>show_base 16 n = a # t\<close> by simp
      ultimately show ?thesis
        using val Cons \<open>show_base 16 n = a # t\<close> by (simp only: Let_def if_False list.distinct(2))
    qed
  qed
qed

lemma to_ull_unat [simp]: "to_ull False (unat (w :: u64)) = w"
  using unat_u64_less [of w] by (simp add: to_ull_def)

lemma scan_llx_show_llx [simp]: "scan_llx (show_llx (w :: u64)) = Some w"
  by (simp add: scan_llx_def show_llx_def scan_prefix_show_base scan_hex_show_base)

lemma scan_llx_0x_show_llx [simp]:
  "scan_llx (CHR ''0'' # CHR ''x'' # show_llx (w :: u64)) = Some w"
proof -
  have sp: "dropWhile c_space (CHR ''0'' # CHR ''x'' # show_llx w) = CHR ''0'' # CHR ''x'' # show_llx w"
    by (simp add: c_space_def)
  have "scan_hex_digits (CHR ''0'' # CHR ''x'' # show_llx w) = Some (unat w)"
    by (simp add: scan_hex_digits_def show_llx_def digits_value_show_base takeWhile_show_base)
  then show ?thesis unfolding scan_llx_def sp by (simp add: scan_sign_def)
qed

lemma scan_llu_show_llu [simp]: "scan_llu (show_llu (w :: u64)) = Some w"
proof -
  have "scan_dec_digits (show_base 10 (unat w)) = Some (unat w)"
    by (simp add: scan_dec_digits_def takeWhile_show_base show_base_nonempty digits_value_show_base)
  then show ?thesis by (simp add: scan_llu_def show_llu_def scan_prefix_show_base)
qed

lemma scan_d_blank: "scan_d (CHR '' '' # s) = scan_d s"
  by (simp add: scan_d_def c_space_def)

lemma scan_d_show_d:
  assumes "i < 2 ^ 31" "t = [] \<or> \<not> is_digit_of 10 (hd t)"
  shows "scan_d (show_d (int i) @ t) = Some (int i)"
proof -
  obtain c u where c: "show_base 10 i = c # u" by (meson neq_Nil_conv show_base_nonempty)
  have digits: "\<forall>c \<in> set (show_base 10 i). is_digit_of 10 c" using show_base_digits [of 10 _ i] by simp
  then have "is_digit_of 16 c" using is_digit_of_mono [of 10 c 16] by (simp add: c)
  note d = digit_not_special [OF this]
  have "takeWhile (is_digit_of 10) (show_base 10 i @ t) = show_base 10 i"
    using digits assms(2) by (auto simp: takeWhile_append takeWhile_eq_Nil_iff)
  then have "scan_dec_digits (show_base 10 i @ t) = Some i"
    by (simp add: scan_dec_digits_def show_base_nonempty digits_value_show_base)
  moreover have "scan_sign (dropWhile c_space (show_d (int i) @ t)) = (False, show_base 10 i @ t)"
    using d by (simp add: show_d_def c scan_sign_def)
  moreover have "to_int32 False i = int i" using assms(1) by (simp add: to_int32_def signed_take_bit_int_eq_self)
  ultimately show ?thesis by (simp add: scan_d_def)
qed

subsection \<open>Shapes of padded fields\<close>

lemma length_pad_left [simp]: "length (pad_left c n s) = max n (length s)"
  by (simp add: pad_left_def)

lemma length_pad_right [simp]: "length (pad_right n s) = max n (length s)"
  by (simp add: pad_right_def)

lemma length_show_base_le:
  "2 \<le> b \<Longrightarrow> n < b ^ k \<Longrightarrow> 0 < k \<Longrightarrow> length (show_base b n) \<le> k"
proof (induction b n arbitrary: k rule: show_base.induct)
  case (1 b n)
  show ?case
  proof (cases "n < b")
    case True
    with "1.prems" show ?thesis by (simp add: show_base.simps [of b n])
  next
    case False
    with "1.prems" obtain j where k: "k = Suc j" and "0 < j"
      by (cases k) (auto, metis gr0I power_0 mult.right_neutral)
    have "n div b < b ^ j"
      using "1.prems"(1,2) k by (simp add: less_mult_imp_div_less mult.commute)
    with 1 False \<open>0 < j\<close> have "length (show_base b (n div b)) \<le> j" by simp
    with False "1.prems"(1) k show ?thesis by (simp add: show_base.simps [of b n])
  qed
qed

lemma length_show_02x [simp]: "length (show_02x b) = 2"
proof -
  have "unat b < 16 ^ 2" using unat_u8_less [of b] by simp
  then have "length (show_base 16 (unat b)) \<le> 2" by (intro length_show_base_le) simp_all
  then show ?thesis by (simp add: show_llx_def)
qed

lemma max_show_u8 [simp]: "max 2 (length (show_llx (b :: u8))) = 2"
  using length_show_02x [of b] by simp

lemma length_show_llx_u64: "length (show_llx (w :: u64)) \<le> 16"
proof -
  have "unat w < 16 ^ 16" using unat_u64_less [of w] by simp
  then show ?thesis unfolding show_llx_def by (intro length_show_base_le) simp_all
qed

lemma length_show_016llx [simp]: "length (show_016llx w) = 16"
  using length_show_llx_u64 [of w] by simp

end
