(* ===== verification/Ptrace.thy ===== *)
theory Ptrace
  imports C_Text
begin

text \<open>
  The debugger's view of the system below it.  What \<open>fork\<close>, \<open>waitpid\<close>, \<open>ptrace\<close>,
  \<^verbatim>\<open>/proc\<close>, files and the Capstone disassembler do is not code of the program: it is
  the parameter \<open>host\<close>, a record of functions over an unspecified system state \<open>'k\<close>.
  The locale \<open>ptrace_host\<close> states the documented behaviour of the memory and register
  requests that the theorems rely on, with the memory of a process observed byte by
  byte.  \<open>Tiny_Machine\<close> gives a concrete host that satisfies it.
\<close>

subsection \<open>Registers, wait status, instructions\<close>

text \<open>
  \<open>struct user_regs_struct\<close>: the eighteen registers that the debugger names, and the
  remaining fields, which it only passes through.
\<close>

record user_regs =
  rax :: u64
  rbx :: u64
  rcx :: u64
  rdx :: u64
  r8 :: u64
  r9 :: u64
  r10 :: u64
  r11 :: u64
  r12 :: u64
  r13 :: u64
  r14 :: u64
  r15 :: u64
  rdi :: u64
  rsi :: u64
  rbp :: u64
  rsp :: u64
  rip :: u64
  eflags :: u64
  other_regs :: "u64 list"

datatype wait_result =
    Waited u32       \<comment> \<open>the process id is returned and the status stored\<close>
  | Wait_Error       \<comment> \<open>\<open>-1\<close>: nothing stored\<close>
  | Wait_Blocks      \<comment> \<open>the call does not return\<close>

definition WIFSTOPPED :: "u32 \<Rightarrow> bool" where
  "WIFSTOPPED st \<longleftrightarrow> st AND 0xff = 0x7f"

record cs_insn =
  insn_address :: u64
  insn_bytes :: "u8 list"
  mnemonic :: string
  op_str :: string

text \<open>How the forked child's own code ends: in the new program or in \<open>exit(-1)\<close>.\<close>

datatype out_event =
    Stdout string
  | Stderr string
  | Perror string    \<comment> \<open>\<open>perror(s)\<close>, without the system's error text\<close>

datatype child_end = Exec string | Child_Exit "out_event list"

record 'k host =
  h_fork :: "(bool \<Rightarrow> bool \<Rightarrow> child_end) \<Rightarrow> 'k \<Rightarrow> int \<times> 'k"
  h_waitpid :: "int \<Rightarrow> 'k \<Rightarrow> wait_result \<times> 'k"
  h_setoptions :: "int \<Rightarrow> 'k \<Rightarrow> 'k"
  h_getregs :: "int \<Rightarrow> 'k \<Rightarrow> user_regs option"
  h_setregs :: "int \<Rightarrow> user_regs \<Rightarrow> 'k \<Rightarrow> bool \<times> 'k"
  h_peek :: "int \<Rightarrow> u64 \<Rightarrow> 'k \<Rightarrow> u64 option"
  h_poke :: "int \<Rightarrow> u64 \<Rightarrow> u64 \<Rightarrow> 'k \<Rightarrow> bool \<times> 'k"
  h_singlestep :: "int \<Rightarrow> 'k \<Rightarrow> bool \<times> 'k"
  h_cont :: "int \<Rightarrow> 'k \<Rightarrow> 'k"
  h_maps :: "int \<Rightarrow> 'k \<Rightarrow> string list option"
  h_file :: "string \<Rightarrow> 'k \<Rightarrow> u8 list option"
  h_disasm :: "u8 list \<Rightarrow> u64 \<Rightarrow> cs_insn list"

text \<open>\<open>ptrace(PTRACE_PEEKTEXT, ...)\<close> as an expression: \<open>-1\<close> when the request fails.\<close>

definition peek_value :: "'k host \<Rightarrow> int \<Rightarrow> u64 \<Rightarrow> 'k \<Rightarrow> u64" where
  "peek_value H p a k = (case h_peek H p a k of None \<Rightarrow> - 1 | Some w \<Rightarrow> w)"

subsection \<open>Words in a byte memory\<close>

type_synonym mem = "u64 \<Rightarrow> u8 option"

definition mapped_word :: "mem \<Rightarrow> u64 \<Rightarrow> bool" where
  "mapped_word m a \<longleftrightarrow> list_all (\<lambda>i. m (a + of_nat i) \<noteq> None) [0..<8]"

definition read_word :: "mem \<Rightarrow> u64 \<Rightarrow> u64 option" where
  "read_word m a =
     (if mapped_word m a then Some (word_of_bytes (\<lambda>i. the (m (a + of_nat i)))) else None)"

definition write_word :: "mem \<Rightarrow> u64 \<Rightarrow> u64 \<Rightarrow> mem" where
  "write_word m a w = (\<lambda>x. if x - a < 8 then Some (byte_at w (unat (x - a))) else m x)"

lemma mapped_word_iff: "mapped_word m a \<longleftrightarrow> (\<forall>i<8. m (a + of_nat i) \<noteq> None)"
  by (auto simp: mapped_word_def list_all_iff)

lemma offset_lt8_iff: "(x :: u64) - a < 8 \<longleftrightarrow> (\<exists>i<8. x = a + of_nat i)"
proof
  assume "x - a < 8"
  then have "unat (x - a) < 8" by (simp add: word_less_nat_alt)
  moreover have "x = a + of_nat (unat (x - a))" by simp
  ultimately show "\<exists>i<8. x = a + of_nat i" by blast
next
  assume "\<exists>i<8. x = a + of_nat i"
  then obtain i where "i < 8" "x = a + of_nat i" by blast
  then show "x - a < 8" by (simp add: word_less_nat_alt take_bit_nat_eq_self unat_of_nat)
qed

lemma unat_of_nat_small: "i < 8 \<Longrightarrow> unat (of_nat i :: u64) = i"
  by (simp add: unat_of_nat)

lemma read_word_eq_Some:
  "read_word m a = Some w \<longleftrightarrow> (\<forall>i<8. m (a + of_nat i) = Some (byte_at w i))"
proof
  assume r: "read_word m a = Some w"
  then have w: "w = word_of_bytes (\<lambda>i. the (m (a + of_nat i)))" and "mapped_word m a"
    by (auto simp: read_word_def split: if_splits)
  then show "\<forall>i<8. m (a + of_nat i) = Some (byte_at w i)"
    by (auto simp: byte_at_word_of_bytes mapped_word_iff)
next
  assume b: "\<forall>i<8. m (a + of_nat i) = Some (byte_at w i)"
  then have "word_of_bytes (\<lambda>i. the (m (a + of_nat i))) = word_of_bytes (byte_at w)"
    by (intro word_of_bytes_cong) simp
  with b show "read_word m a = Some w"
    by (simp add: read_word_def mapped_word_iff word_of_bytes_byte_at)
qed

lemma read_word_eq_None: "read_word m a = None \<longleftrightarrow> \<not> mapped_word m a"
  by (simp add: read_word_def)

lemma read_word_byte: "read_word m a = Some w \<Longrightarrow> m a = Some (byte_at w 0)"
  by (auto simp: read_word_eq_Some dest: spec [of _ 0])

lemma read_word_cong:
  "(\<And>i. i < 8 \<Longrightarrow> m (a + of_nat i) = m' (a + of_nat i)) \<Longrightarrow> read_word m a = read_word m' a"
  by (auto simp: read_word_def mapped_word_iff intro!: word_of_bytes_cong)

lemma read_write_word: "read_word (write_word m a w) a = Some w"
  by (auto simp: read_word_eq_Some write_word_def word_less_nat_alt unat_of_nat_small)

text \<open>Writing a word back where only that word changed since restores the memory.\<close>

lemma write_word_restore:
  assumes "read_word m a = Some w" and "\<And>x. \<not> x - a < 8 \<Longrightarrow> m' x = m x"
  shows "write_word m' a w = m"
proof
  fix x
  show "write_word m' a w x = m x"
    using assms by (auto simp: write_word_def read_word_eq_Some offset_lt8_iff unat_of_nat_small)
qed

text \<open>The code's patch of a breakpoint changes exactly one byte.\<close>

lemma write_set_low:
  assumes "read_word m a = Some w"
  shows "write_word m a (set_low_byte w) = m(a \<mapsto> 0xcc)"
proof
  fix x
  show "write_word m a (set_low_byte w) x = (m(a \<mapsto> 0xcc)) x"
  proof (cases "x - a < 8")
    case True
    then obtain i where i: "i < 8" "x = a + of_nat i" by (auto simp: offset_lt8_iff)
    have "x = a \<longleftrightarrow> i = 0"
      using i unat_of_nat_small [OF i(1)] by (auto simp: unat_eq_zero)
    with i True assms show ?thesis
      by (auto simp: write_word_def read_word_eq_Some unat_of_nat_small byte_at_set_low)
  next
    case False
    then show ?thesis by (auto simp: write_word_def)
  qed
qed

text \<open>The memory with breakpoint instructions at a set of addresses.\<close>

definition with_int3 :: "u64 set \<Rightarrow> mem \<Rightarrow> mem" where
  "with_int3 A m = (\<lambda>x. if x \<in> A then Some 0xcc else m x)"

lemma with_int3_empty [simp]: "with_int3 {} m = m"
  by (simp add: with_int3_def)

lemma with_int3_insert: "with_int3 (insert a A) m = (with_int3 A m)(a \<mapsto> 0xcc)"
  by (auto simp: with_int3_def)

lemma with_int3_same:
  assumes "with_int3 A m a = Some 0xcc"
  shows "with_int3 (insert a A) m = with_int3 A m"
  unfolding with_int3_insert using assms by (simp add: fun_upd_idem)

lemma mapped_with_int3: "mapped_word m a \<Longrightarrow> mapped_word (with_int3 A m) a"
  by (auto simp: mapped_word_iff with_int3_def)

lemma mapped_write_word: "mapped_word m a \<Longrightarrow> mapped_word (write_word m b w) a"
  by (auto simp: mapped_word_iff write_word_def)

subsection \<open>What the debugger relies on\<close>

text \<open>
  The kernel may refuse or alter what \<open>PTRACE_SETREGS\<close> asks for in the flags and the segment
  registers.  The contract speaks only of requests that leave these as they are and change
  general registers or the instruction pointer.
\<close>

definition same_control :: "user_regs \<Rightarrow> user_regs \<Rightarrow> bool" where
  "same_control r r' \<longleftrightarrow> eflags r' = eflags r \<and> other_regs r' = other_regs r"

locale ptrace_host =
  fixes H :: "'k host" and mem_of :: "int \<Rightarrow> 'k \<Rightarrow> mem"
  assumes peek_word: "h_peek H p a k = read_word (mem_of p k) a"
    and poke_ok: "fst (h_poke H p a w k) \<longleftrightarrow> mapped_word (mem_of p k) a"
    and poke_mem: "mem_of p (snd (h_poke H p a w k)) =
      (if mapped_word (mem_of p k) a then write_word (mem_of p k) a w else mem_of p k)"
    and poke_regs: "h_getregs H q (snd (h_poke H p a w k)) = h_getregs H q k"
    and poke_maps: "h_maps H q (snd (h_poke H p a w k)) = h_maps H q k"
    and setregs_regs: "h_getregs H p k = Some r0 \<Longrightarrow> same_control r0 r \<Longrightarrow>
      fst (h_setregs H p r k) \<and> h_getregs H p (snd (h_setregs H p r k)) = Some r"
    and setregs_maps: "h_maps H q (snd (h_setregs H p r k)) = h_maps H q k"
    and setregs_mem: "mem_of q (snd (h_setregs H p r k)) = mem_of q k"
begin

lemma peek_after_poke:
  "mapped_word (mem_of p k) a \<Longrightarrow> h_peek H p a (snd (h_poke H p a w k)) = Some w"
  by (simp add: peek_word poke_mem read_write_word)

lemma peek_value_mapped:
  "mapped_word (mem_of p k) a \<Longrightarrow> read_word (mem_of p k) a = Some (peek_value H p a k)"
  by (auto simp: peek_value_def peek_word read_word_def)

lemma poke_int3:
  assumes "mapped_word (mem_of p k) a"
  shows "mem_of p (snd (h_poke H p a (set_low_byte (peek_value H p a k)) k)) =
           (mem_of p k)(a \<mapsto> 0xcc)"
  using assms by (simp add: poke_mem write_set_low peek_value_mapped)

lemma poke_restore:
  assumes "read_word m a = Some w" and "\<And>x. \<not> x - a < 8 \<Longrightarrow> mem_of p k x = m x"
    and "mapped_word (mem_of p k) a"
  shows "mem_of p (snd (h_poke H p a w k)) = m"
  using assms by (simp add: poke_mem write_word_restore)

end

end
