(* ===== verification/Elf_Tool.thy ===== *)
theory Elf_Tool
  imports C_Text
begin

text \<open>
  \<^verbatim>\<open>hw4/elftool.c\<close> and \<^verbatim>\<open>hw4/elftool.h\<close>: reading the headers, string tables and symbol
  tables of an ELF file.  libelf is not part of the program: what it reports about a
  file is the parameter record \<open>elf_image\<close>, and \<open>elf_host\<close> collects the outside world
  of this component (opening files, whether an allocation succeeds, and what a fresh
  block from \<open>malloc\<close> contains).

  A \<open>long long\<close> field is kept as its 64-bit pattern; a signed reading is written \<open>sint\<close>.
\<close>

subsection \<open>The structures of libelf, for both ELF classes\<close>

record 'w Elf_Ehdr =
  e_type :: u16
  e_phnum :: u16
  e_shnum :: u16
  e_shstrndx :: u16
  e_entry :: 'w

record 'w Elf_Phdr =
  p_type :: u32
  p_offset :: 'w
  p_vaddr :: 'w
  p_paddr :: 'w
  p_filesz :: 'w
  p_memsz :: 'w
  p_flags :: u32
  p_align :: 'w

record 'w Elf_Shdr =
  s_name :: u32
  s_type :: u32
  s_flags :: 'w
  s_addr :: 'w
  s_offset :: 'w
  s_size :: 'w
  s_link :: u32
  s_info :: u32
  s_addralign :: 'w
  s_entsize :: 'w

record elf_image =
  img_begin :: bool                        \<comment> \<open>\<open>elf_begin\<close> succeeds\<close>
  img_ident :: "u8 list option"            \<comment> \<open>\<open>elf_getident\<close>\<close>
  img_ehdr32 :: "u32 Elf_Ehdr option"       \<comment> \<open>\<open>elf32_getehdr\<close>, \<open>None\<close> for \<open>NULL\<close>\<close>
  img_ehdr64 :: "u64 Elf_Ehdr option"
  img_phdr32 :: "u32 Elf_Phdr list option"
  img_phdr64 :: "u64 Elf_Phdr list option"
  img_scns :: "(nat \<times> u32 Elf_Shdr option \<times> u64 Elf_Shdr option) list"
    \<comment> \<open>the sections in the order of \<open>elf_nextscn\<close>: index and section header\<close>
  img_bytes :: "u8 list"                   \<comment> \<open>the file's contents\<close>

subsection \<open>The structures of the program\<close>

record elf_phdr_t =
  ph_type :: u64
  ph_offset :: u64
  ph_vaddr :: u64
  ph_paddr :: u64
  ph_filesz :: u64
  ph_memsz :: u64
  ph_flags :: u64
  ph_align :: u64

record elf_shdr_t =
  sh_name :: u64
  sh_type :: u64
  sh_flags :: u64
  sh_addr :: u64
  sh_offset :: u64
  sh_size :: u64
  sh_link :: u64
  sh_info :: u64
  sh_addralign :: u64
  sh_entsize :: u64

record elf_strtab_t =     \<comment> \<open>the \<open>next\<close> pointer is the position in the list\<close>
  tab_id :: nat
  datasize :: int
  tab_data :: "char list"

record elf_symbol_t =
  sym_name :: int
  sym_info :: u8
  sym_other :: u8
  shndx :: int
  sym_value :: u64
  sym_size :: u64
  sym_bind :: u8
  sym_type :: u8
  visibility :: u8

record elf_symtab_t =
  sym_count :: int
  sym_strtab :: elf_strtab_t
  sym_symbol :: "elf_symbol_t list"

record elf_handle_t =
  eh_fd :: int
  eh_elf :: elf_image
  clazz :: nat
  phnum :: nat
  shnum :: nat
  shstrndx :: nat
  entrypoint :: u64
  eh_phdr :: "elf_phdr_t list option"
  eh_shdr :: "elf_shdr_t list option"
  eh_strtab :: "elf_strtab_t list"      \<comment> \<open>\<open>[]\<close> for \<open>NULL\<close>\<close>
  eh_sym :: "elf_symtab_t option"
  eh_dsym :: "elf_symtab_t option"
  eh_type :: nat

definition ELFCLASS32 :: nat where "ELFCLASS32 = 1"
definition ELFCLASS64 :: nat where "ELFCLASS64 = 2"
definition SHT_SYMTAB :: u64 where "SHT_SYMTAB = 2"
definition SHT_STRTAB :: u64 where "SHT_STRTAB = 3"
definition SHT_DYNSYM :: u64 where "SHT_DYNSYM = 11"

text \<open>
  \<open>raw_shdr i\<close> is what entry \<open>i\<close> of a fresh section header array contains before the
  program stores into it; \<open>malloc_ok n\<close> says whether \<open>malloc(n)\<close> succeeds.
\<close>

record elf_host =
  lib_open :: "string \<Rightarrow> (int \<times> elf_image) option"
  malloc_ok :: "nat \<Rightarrow> bool"
  raw_shdr :: "nat \<Rightarrow> elf_shdr_t"

subsection \<open>\<open>elf_init\<close> and \<open>elf_perror\<close>\<close>

text \<open>
  The static variable \<open>_elf_tool_initialized\<close>, \<open>errno\<close> and the state of libelf; \<open>elf_version\<close>,
  \<open>elf_errno\<close> and \<open>elf_errmsg\<close> are functions of libelf.
\<close>

record 'k elf_tool =
  tool_initialized :: u32
  tool_errno :: u32
  libelf :: 'k

definition elf_init :: "(u32 \<Rightarrow> 'k \<Rightarrow> u32 \<times> 'k) \<Rightarrow> 'k elf_tool \<Rightarrow> u32 \<times> 'k elf_tool" where
  "elf_init elf_version t =
     (let t = t\<lparr>tool_errno := 0\<rparr>;
          t = (if sint (tool_initialized t) \<le> 0 then t\<lparr>libelf := snd (elf_version 1 (libelf t))\<rparr> else t)
      in (0, t\<lparr>tool_initialized := 1\<rparr>))"

definition elf_perror ::
  "('k \<Rightarrow> u32 \<times> 'k) \<Rightarrow> (u32 \<Rightarrow> 'k \<Rightarrow> string option) \<Rightarrow> string \<Rightarrow> 'k elf_tool \<Rightarrow> (string \<times> 'k elf_tool) res" where
  "elf_perror elf_errno elf_errmsg prefix t =
     (let (e, k) = elf_errno (libelf t) in
      thenR (need Null_Deref (elf_errmsg e k)) (\<lambda>msg.
        Inr (prefix @ '': '' @ msg @ newline, t\<lparr>libelf := k\<rparr>)))"

text \<open>However often \<open>elf_init\<close> is called, libelf is told the version once.\<close>

lemma elf_init_once:
  assumes "tool_initialized t = 0"
  shows "((\<lambda>t. snd (elf_init V t)) ^^ Suc n) t = t\<lparr>tool_initialized := 1, tool_errno := 0, libelf := snd (V 1 (libelf t))\<rparr>"
  using assms by (induction n) (simp_all add: elf_init_def)

subsection \<open>\<open>elf_open\<close>\<close>

definition open_handle :: "int \<Rightarrow> elf_image \<Rightarrow> nat \<Rightarrow> ('a::len) word Elf_Ehdr \<Rightarrow> elf_handle_t" where
  "open_handle fd img c h =
     \<lparr>eh_fd = fd, eh_elf = img, clazz = c, phnum = unat (e_phnum h), shnum = unat (e_shnum h),
      shstrndx = unat (e_shstrndx h), entrypoint = ucast (e_entry h), eh_phdr = None,
      eh_shdr = None, eh_strtab = [], eh_sym = None, eh_dsym = None, eh_type = unat (e_type h)\<rparr>"

definition elf_open :: "elf_host \<Rightarrow> string \<Rightarrow> elf_handle_t option res" where
  "elf_open E filename =
     (case lib_open E filename of
        None \<Rightarrow> Inr None
      | Some (fd, img) \<Rightarrow>
          if \<not> img_begin img then Inr None
          else (case img_ident img of
            None \<Rightarrow> Inr None
          | Some ident \<Rightarrow>
              if \<not> malloc_ok E 96 then Inr None
              else thenR (index_at ident 4) (\<lambda>cl.
                if cl = 0x01 then
                  thenR (need Null_Deref (img_ehdr32 img)) (\<lambda>h.
                    Inr (Some (open_handle fd img ELFCLASS32 h)))
                else if cl = 0x02 then
                  thenR (need Null_Deref (img_ehdr64 img)) (\<lambda>h.
                    Inr (Some (open_handle fd img ELFCLASS64 h)))
                else Inr None)))"

subsection \<open>Program and section headers\<close>

definition assign_phdr :: "('a::len) word Elf_Phdr \<Rightarrow> elf_phdr_t" where
  "assign_phdr p =
     \<lparr>ph_type = ucast (p_type p), ph_offset = ucast (p_offset p), ph_vaddr = ucast (p_vaddr p),
      ph_paddr = ucast (p_paddr p), ph_filesz = ucast (p_filesz p), ph_memsz = ucast (p_memsz p),
      ph_flags = ucast (p_flags p), ph_align = ucast (p_align p)\<rparr>"

text \<open>The loop of \<open>ITER_PHDR\<close> over \<open>p[0]\<close>, \dots, \<open>p[n-1]\<close>.\<close>

definition iter_phdr :: "nat \<Rightarrow> ('a::len) word Elf_Phdr list option \<Rightarrow> elf_phdr_t list res" where
  "iter_phdr n p =
     (if n = 0 then Inr []
      else thenR (need Null_Deref p) (\<lambda>ps.
        if n \<le> length ps then Inr (map assign_phdr (take n ps)) else Inl Out_Of_Bounds))"

definition elf_load_phdr ::
  "elf_host \<Rightarrow> elf_handle_t \<Rightarrow> (elf_phdr_t list option \<times> elf_handle_t) res" where
  "elf_load_phdr E e =
     (case eh_phdr e of
        Some ph \<Rightarrow> Inr (Some ph, e)
      | None \<Rightarrow>
          if phnum e = 0 then Inr (None, e)
          else if clazz e \<noteq> ELFCLASS32 \<and> clazz e \<noteq> ELFCLASS64 then Inr (None, e)
          else if \<not> malloc_ok E (64 * phnum e) then Inr (None, e)
          else thenR (if clazz e = ELFCLASS32 then iter_phdr (phnum e) (img_phdr32 (eh_elf e))
                      else iter_phdr (phnum e) (img_phdr64 (eh_elf e)))
                 (\<lambda>phdr. Inr (Some phdr, e\<lparr>eh_phdr := Some phdr\<rparr>)))"

definition assign_shdr :: "('a::len) word Elf_Shdr \<Rightarrow> elf_shdr_t" where
  "assign_shdr s =
     \<lparr>sh_name = ucast (s_name s), sh_type = ucast (s_type s), sh_flags = ucast (s_flags s),
      sh_addr = ucast (s_addr s), sh_offset = ucast (s_offset s), sh_size = ucast (s_size s),
      sh_link = ucast (s_link s), sh_info = ucast (s_info s),
      sh_addralign = ucast (s_addralign s), sh_entsize = ucast (s_entsize s)\<rparr>"

text \<open>
  The \<open>while\<close> loop over \<open>elf_nextscn\<close>, storing each header at its index modulo the
  number of sections; entries that no section reaches keep the raw contents.
\<close>

fun iter_shdr ::
  "nat \<Rightarrow> nat \<Rightarrow> (nat \<times> u32 Elf_Shdr option \<times> u64 Elf_Shdr option) list \<Rightarrow>
     elf_shdr_t list \<Rightarrow> elf_shdr_t list res" where
  "iter_shdr c n [] arr = Inr arr"
| "iter_shdr c n ((ndx, s32, s64) # scns) arr =
     thenR (if c = ELFCLASS32 then thenR (need Null_Deref s32) (\<lambda>s. Inr (assign_shdr s))
            else thenR (need Null_Deref s64) (\<lambda>s. Inr (assign_shdr s)))
       (\<lambda>s. iter_shdr c n scns (arr[ndx mod n := s]))"

definition elf_load_shdr ::
  "elf_host \<Rightarrow> elf_handle_t \<Rightarrow> (elf_shdr_t list option \<times> elf_handle_t) res" where
  "elf_load_shdr E e =
     (case eh_shdr e of
        Some sh \<Rightarrow> Inr (Some sh, e)
      | None \<Rightarrow>
          if shnum e = 0 then Inr (None, e)
          else if clazz e \<noteq> ELFCLASS32 \<and> clazz e \<noteq> ELFCLASS64 then Inr (None, e)
          else if \<not> malloc_ok E (80 * shnum e) then Inr (None, e)
          else thenR (iter_shdr (clazz e) (shnum e) (img_scns (eh_elf e)) (map (raw_shdr E) [0..<shnum e]))
                 (\<lambda>shdr. Inr (Some shdr, e\<lparr>eh_shdr := Some shdr\<rparr>)))"

subsection \<open>String tables\<close>

text \<open>
  \<open>pread(fd, buf, size, off)\<close>: the bytes delivered; \<open>None\<close> for the error return of a
  negative offset.
\<close>

definition pread_file :: "u8 list \<Rightarrow> u64 \<Rightarrow> u64 \<Rightarrow> u8 list option" where
  "pread_file bs sz off =
     (if sint off < 0 then None else Some (take (unat sz) (drop (unat off) bs)))"

text \<open>\<open>pread(...) != sz\<close> compares two signed 64-bit values.\<close>

definition pread_exact :: "u8 list \<Rightarrow> u64 \<Rightarrow> u64 \<Rightarrow> u8 list option" where
  "pread_exact bs sz off =
     (case pread_file bs sz off of
        None \<Rightarrow> None
      | Some got \<Rightarrow> if int (length got) = sint sz then Some got else None)"

definition chars_of :: "u8 list \<Rightarrow> char list" where
  "chars_of bs = map (\<lambda>b. char_of (unat b)) bs"

text \<open>
  The loop of \<open>elf_load_strtab\<close> from section \<open>i\<close> on: \<open>None\<close> is the jump to
  \<open>err_quit\<close>.
\<close>

fun strtab_loop ::
  "elf_host \<Rightarrow> u8 list \<Rightarrow> nat \<Rightarrow> elf_shdr_t list \<Rightarrow> elf_strtab_t list \<Rightarrow> elf_strtab_t list option" where
  "strtab_loop E bs i [] strtab = Some strtab"
| "strtab_loop E bs i (sh # shs) strtab =
     (if sh_type sh \<noteq> SHT_STRTAB then strtab_loop E bs (Suc i) shs strtab
      else if \<not> malloc_ok E 24 then None
      else if \<not> malloc_ok E (unat (sh_size sh)) then None
      else (case pread_exact bs (sh_size sh) (sh_offset sh) of
              None \<Rightarrow> None
            | Some got \<Rightarrow> strtab_loop E bs (Suc i) shs
                (\<lparr>tab_id = i, datasize = sint (ucast (sh_size sh) :: u32),
                  tab_data = chars_of got\<rparr> # strtab)))"

definition elf_load_strtab ::
  "elf_host \<Rightarrow> elf_handle_t \<Rightarrow> (elf_strtab_t list \<times> elf_handle_t) res" where
  "elf_load_strtab E e =
     (if eh_strtab e \<noteq> [] then Inr (eh_strtab e, e)
      else thenR (elf_load_shdr E e) (\<lambda>(sh, e).
        case sh of
          None \<Rightarrow> Inr ([], e)
        | Some shs \<Rightarrow>
            (case strtab_loop E (img_bytes (eh_elf e)) 0 shs [] of
               None \<Rightarrow> Inr ([], e)
             | Some tabs \<Rightarrow> Inr (tabs, e\<lparr>eh_strtab := tabs\<rparr>))))"

subsection \<open>Symbol tables\<close>

text \<open>Little-endian fields of the symbol entries in the file.\<close>

definition le_field :: "u8 list \<Rightarrow> nat \<Rightarrow> nat \<Rightarrow> nat" where
  "le_field bs off n = foldr (\<lambda>b acc. unat b + 256 * acc) (take n (drop off bs)) 0"

text \<open>\<open>ASSIGN_SYM\<close>: the fields of entry \<open>i\<close> of the raw table, for the given class.\<close>

definition assign_sym :: "nat \<Rightarrow> u8 list \<Rightarrow> nat \<Rightarrow> elf_symbol_t" where
  "assign_sym c raw i =
     (let base = (if c = ELFCLASS32 then 16 * i else 24 * i);
          nm = le_field raw base 4;
          inf = of_nat (le_field raw (base + (if c = ELFCLASS32 then 12 else 4)) 1) :: u8;
          oth = of_nat (le_field raw (base + (if c = ELFCLASS32 then 13 else 5)) 1) :: u8;
          ndx = le_field raw (base + (if c = ELFCLASS32 then 14 else 6)) 2;
          val = (if c = ELFCLASS32 then le_field raw (base + 4) 4 else le_field raw (base + 8) 8);
          siz = (if c = ELFCLASS32 then le_field raw (base + 8) 4 else le_field raw (base + 16) 8)
      in \<lparr>sym_name = sint (of_nat nm :: u32), sym_info = inf, sym_other = oth, shndx = int ndx,
          sym_value = of_nat val, sym_size = of_nat siz,
          sym_bind = drop_bit 4 inf, sym_type = inf AND 0xf, visibility = oth AND 0x3\<rparr>)"

definition elf_load_symtab_internal ::
  "elf_host \<Rightarrow> elf_handle_t \<Rightarrow> elf_shdr_t \<Rightarrow> (elf_symtab_t option \<times> elf_handle_t) res" where
  "elf_load_symtab_internal E e shdr =
     thenR (elf_load_shdr E e) (\<lambda>(sh, e). if sh = None then Inr (None, e) else
     thenR (elf_load_strtab E e) (\<lambda>(st, e). if st = [] then Inr (None, e) else
       if \<not> malloc_ok E 24 then Inr (None, e)
       else if clazz e \<noteq> ELFCLASS32 \<and> clazz e \<noteq> ELFCLASS64 then Inr (None, e)
       else thenR (need Uninit_Read (find (\<lambda>tab. sh_link shdr = of_nat (tab_id tab)) (eh_strtab e))) (\<lambda>tab.
         let entsz = (if clazz e = ELFCLASS32 then 16 else 24);
             count = sint (ucast (sh_size shdr div entsz) :: u32)
         in if \<not> malloc_ok E (unat (40 * word_of_int count + sh_size shdr)) then Inr (None, e)
            else if count < 0 then Inl Out_Of_Bounds
            else (case pread_exact (img_bytes (eh_elf e)) (sh_size shdr) (sh_offset shdr) of
                    None \<Rightarrow> Inr (None, e)
                  | Some raw \<Rightarrow>
                      Inr (Some \<lparr>sym_count = count, sym_strtab = tab,
                                 sym_symbol = map (assign_sym (clazz e) raw) [0..<nat count]\<rparr>, e)))))"

definition elf_load_symtab ::
  "elf_host \<Rightarrow> elf_handle_t \<Rightarrow> (elf_symtab_t option \<times> elf_handle_t) res" where
  "elf_load_symtab E e =
     (case eh_sym e of
        Some t \<Rightarrow> Inr (Some t, e)
      | None \<Rightarrow> thenR (elf_load_shdr E e) (\<lambda>(sh, e).
          case sh of
            None \<Rightarrow> Inr (None, e)
          | Some shs \<Rightarrow>
              (case find (\<lambda>h. sh_type h = SHT_SYMTAB) shs of
                 None \<Rightarrow> Inr (None, e)
               | Some h \<Rightarrow> thenR (elf_load_symtab_internal E e h) (\<lambda>(t, e).
                   Inr (t, e\<lparr>eh_sym := t\<rparr>)))))"

definition elf_load_dsymtab ::
  "elf_host \<Rightarrow> elf_handle_t \<Rightarrow> (elf_symtab_t option \<times> elf_handle_t) res" where
  "elf_load_dsymtab E e =
     (case eh_dsym e of
        Some t \<Rightarrow> Inr (Some t, e)
      | None \<Rightarrow> thenR (elf_load_shdr E e) (\<lambda>(sh, e).
          case sh of
            None \<Rightarrow> Inr (None, e)
          | Some shs \<Rightarrow>
              (case find (\<lambda>h. sh_type h = SHT_DYNSYM) shs of
                 None \<Rightarrow> Inr (None, e)
               | Some h \<Rightarrow> thenR (elf_load_symtab_internal E e h) (\<lambda>(t, e).
                   Inr (t, e\<lparr>eh_dsym := t\<rparr>)))))"

subsection \<open>Loading everything, and releasing it\<close>

text \<open>What the release paths give back, in the order of the code.\<close>

datatype release =
    Free_Dsym
  | Free_Sym
  | Free_Strtab_Data nat     \<comment> \<open>the data block of the table with this section index\<close>
  | Free_Strtab nat
  | Free_Shdr
  | Free_Phdr
  | Elf_End
  | Close_Fd int
  | Free_Handle

fun elf_free_strtab :: "elf_strtab_t list \<Rightarrow> release list" where
  "elf_free_strtab [] = []"
| "elf_free_strtab (cur # nextab) =
     Free_Strtab_Data (tab_id cur) # Free_Strtab (tab_id cur) # elf_free_strtab nextab"

definition release_tables :: "elf_handle_t \<Rightarrow> release list \<times> elf_handle_t" where
  "release_tables e =
     ((if eh_dsym e \<noteq> None then [Free_Dsym] else []) @
      (if eh_sym e \<noteq> None then [Free_Sym] else []) @
      elf_free_strtab (eh_strtab e) @
      (if eh_shdr e \<noteq> None then [Free_Shdr] else []) @
      (if eh_phdr e \<noteq> None then [Free_Phdr] else []),
      e\<lparr>eh_dsym := None, eh_sym := None, eh_strtab := [], eh_shdr := None, eh_phdr := None\<rparr>)"

definition elf_close :: "elf_handle_t option \<Rightarrow> release list" where
  "elf_close h =
     (case h of
        None \<Rightarrow> []
      | Some e \<Rightarrow> fst (release_tables e) @ [Elf_End] @
          (if 0 \<le> eh_fd e then [Close_Fd (eh_fd e)] else []) @ [Free_Handle])"

text \<open>The result is C's \<open>0\<close> (\<open>True\<close>) or \<open>-1\<close> (\<open>False\<close>).\<close>

definition elf_load_all :: "elf_host \<Rightarrow> elf_handle_t \<Rightarrow> (bool \<times> elf_handle_t) res" where
  "elf_load_all E e =
     thenR (elf_load_phdr E e) (\<lambda>(ph, e).
       if ph = None then Inr (False, snd (release_tables e))
       else thenR (elf_load_shdr E e) (\<lambda>(sh, e).
         if sh = None then Inr (False, snd (release_tables e))
         else thenR (elf_load_strtab E e) (\<lambda>(st, e).
           if st = [] then Inr (False, snd (release_tables e))
           else thenR (elf_load_symtab E e) (\<lambda>(_, e).
             thenR (elf_load_dsymtab E e) (\<lambda>(_, e). Inr (True, e))))))"

subsection \<open>Well-formed handles\<close>

text \<open>The loaded header arrays have the lengths of the ELF header.\<close>

definition wf_handle :: "elf_handle_t \<Rightarrow> bool" where
  "wf_handle e \<longleftrightarrow>
     (\<forall>ps. eh_phdr e = Some ps \<longrightarrow> length ps = phnum e) \<and>
     (\<forall>shs. eh_shdr e = Some shs \<longrightarrow> length shs = shnum e)"

lemma wf_open_handle: "wf_handle (open_handle fd img c h)"
  by (simp add: wf_handle_def open_handle_def)

lemma length_iter_shdr: "iter_shdr c n scns arr = Inr arr' \<Longrightarrow> length arr' = length arr"
  by (induction c n scns arr arbitrary: arr' rule: iter_shdr.induct)
     (auto simp: thenR_eq_Inr split: if_splits)

lemma length_iter_phdr: "iter_phdr n p = Inr ps \<Longrightarrow> length ps = n"
  by (auto simp: iter_phdr_def thenR_eq_Inr split: if_splits)

text \<open>What a successful call of each loader leaves in the handle.\<close>

lemma elf_load_phdr_cases:
  assumes "elf_load_phdr E e = Inr (r, e')"
  shows "(r = None \<and> e' = e) \<or> (\<exists>ps. r = Some ps \<and> e' = e\<lparr>eh_phdr := Some ps\<rparr> \<and>
           (eh_phdr e = Some ps \<or> eh_phdr e = None \<and> length ps = phnum e))"
  using assms
  by (auto simp: elf_load_phdr_def thenR_eq_Inr split: option.splits if_splits dest: length_iter_phdr)

lemma elf_load_shdr_cases:
  assumes "elf_load_shdr E e = Inr (r, e')"
  shows "(r = None \<and> e' = e \<and> eh_shdr e = None) \<or> (\<exists>shs. r = Some shs \<and> e' = e\<lparr>eh_shdr := Some shs\<rparr> \<and>
           (eh_shdr e = Some shs \<or> eh_shdr e = None \<and> length shs = shnum e))"
  using assms
  by (auto simp: elf_load_shdr_def thenR_eq_Inr split: option.splits if_splits dest: length_iter_shdr)

lemma elf_load_strtab_cases:
  assumes "elf_load_strtab E e = Inr (tabs, e')"
  shows "\<exists>sh. e' = e\<lparr>eh_shdr := sh, eh_strtab := tabs\<rparr> \<and>
           (sh = eh_shdr e \<or> (\<exists>shs. sh = Some shs \<and> eh_shdr e = None \<and> length shs = shnum e))"
proof (cases "eh_strtab e = []")
  case False
  with assms have "e' = e" "tabs = eh_strtab e" by (auto simp: elf_load_strtab_def)
  then show ?thesis by (intro exI [of _ "eh_shdr e"]) simp
next
  case True
  with assms obtain sh e1 where l: "elf_load_shdr E e = Inr (sh, e1)"
    and r: "(case sh of None \<Rightarrow> Inr ([], e1) | Some shs \<Rightarrow>
         (case strtab_loop E (img_bytes (eh_elf e1)) 0 shs [] of
            None \<Rightarrow> Inr ([], e1) | Some tabs \<Rightarrow> Inr (tabs, e1\<lparr>eh_strtab := tabs\<rparr>))) = (Inr (tabs, e') :: _ res)"
    by (auto simp: elf_load_strtab_def thenR_eq_Inr)
  have t: "eh_strtab e1 = []" and "e1 = e\<lparr>eh_shdr := eh_shdr e1\<rparr>"
    using elf_load_shdr_cases [OF l] True by auto
  moreover have "e' = e1\<lparr>eh_strtab := tabs\<rparr>"
    using r t by (auto split: option.splits)
  moreover have "eh_shdr e1 = eh_shdr e \<or> (\<exists>shs. eh_shdr e1 = Some shs \<and> eh_shdr e = None \<and> length shs = shnum e)"
    using elf_load_shdr_cases [OF l] by auto
  ultimately have "e' = e\<lparr>eh_shdr := eh_shdr e1, eh_strtab := tabs\<rparr>" by (metis elf_handle_t.surjective elf_handle_t.update_convs(9,10))
  then show ?thesis using \<open>eh_shdr e1 = eh_shdr e \<or> _\<close> by blast
qed

lemma elf_load_shdr_cached [simp]: "eh_shdr e = Some shs \<Longrightarrow> elf_load_shdr E e = Inr (Some shs, e)"
  by (simp add: elf_load_shdr_def)

lemma elf_load_strtab_cached [simp]: "eh_strtab e \<noteq> [] \<Longrightarrow> elf_load_strtab E e = Inr (eh_strtab e, e)"
  by (simp add: elf_load_strtab_def)

lemma elf_load_symtab_internal_frame:
  assumes "eh_shdr e = Some shs" "eh_strtab e \<noteq> []" "elf_load_symtab_internal E e h = Inr (t, e')"
  shows "e' = e"
  using assms
  by (auto simp: elf_load_symtab_internal_def thenR_eq_Inr Let_def split: if_splits option.splits)

lemma elf_load_symtab_frame:
  assumes "eh_shdr e = Some shs" "eh_strtab e \<noteq> []" "elf_load_symtab E e = Inr (t, e')"
  shows "e' = e\<lparr>eh_sym := t\<rparr>"
  using assms elf_load_symtab_internal_frame [OF assms(1,2)]
  by (auto simp: elf_load_symtab_def thenR_eq_Inr split: option.splits)

lemma elf_load_dsymtab_frame:
  assumes "eh_shdr e = Some shs" "eh_strtab e \<noteq> []" "elf_load_dsymtab E e = Inr (t, e')"
  shows "e' = e\<lparr>eh_dsym := t\<rparr>"
  using assms elf_load_symtab_internal_frame [OF assms(1,2)]
  by (auto simp: elf_load_dsymtab_def thenR_eq_Inr split: option.splits)

subsection \<open>The string tables are the file's string table sections\<close>

definition section_bytes :: "u8 list \<Rightarrow> elf_shdr_t \<Rightarrow> u8 list" where
  "section_bytes bs sh = take (unat (sh_size sh)) (drop (unat (sh_offset sh)) bs)"

definition strtab_of :: "u8 list \<Rightarrow> nat \<times> elf_shdr_t \<Rightarrow> elf_strtab_t" where
  "strtab_of bs = (\<lambda>(i, sh). \<lparr>tab_id = i, datasize = sint (ucast (sh_size sh) :: u32),
     tab_data = chars_of (section_bytes bs sh)\<rparr>)"

abbreviation strtab_sections :: "nat \<Rightarrow> elf_shdr_t list \<Rightarrow> (nat \<times> elf_shdr_t) list" where
  "strtab_sections i shs \<equiv> filter (\<lambda>(j, sh). sh_type sh = SHT_STRTAB) (enumerate i shs)"

lemma pread_exact_Some:
  "pread_exact bs sz off = Some got \<Longrightarrow> got = take (unat sz) (drop (unat off) bs)"
  by (auto simp: pread_exact_def pread_file_def split: option.splits if_splits)

lemma strtab_loop_spec:
  "strtab_loop E bs i shs acc = Some tabs \<Longrightarrow>
     tabs = rev (map (strtab_of bs) (strtab_sections i shs)) @ acc"
proof (induction E bs i shs acc arbitrary: tabs rule: strtab_loop.induct)
  case (1 E bs i strtab)
  then show ?case by simp
next
  case (2 E bs i sh shs strtab)
  show ?case
  proof (cases "sh_type sh = SHT_STRTAB")
    case False
    with 2 show ?thesis by simp
  next
    case True
    with "2.prems" obtain got where got: "pread_exact bs (sh_size sh) (sh_offset sh) = Some got"
      and ok: "malloc_ok E 24" "malloc_ok E (unat (sh_size sh))"
      by (auto split: if_splits option.splits)
    have "tabs = rev (map (strtab_of bs) (strtab_sections (Suc i) shs)) @
        \<lparr>tab_id = i, datasize = sint (ucast (sh_size sh) :: u32), tab_data = chars_of got\<rparr> # strtab"
      using "2.IH"(2) [OF _ _ _ got, of tabs] "2.prems" True got ok by simp
    then show ?thesis
      using True pread_exact_Some [OF got] by (simp add: strtab_of_def section_bytes_def)
  qed
qed

lemma find_strtab_of:
  "find (\<lambda>tab. tab_id tab = j) (map (strtab_of bs) (rev (strtab_sections i shs))) =
     (if i \<le> j \<and> j < i + length shs \<and> sh_type (shs ! (j - i)) = SHT_STRTAB
      then Some (strtab_of bs (j, shs ! (j - i))) else None)"
proof (induction shs arbitrary: i)
  case Nil
  then show ?case by simp
next
  case (Cons sh shs)
  have app: "find P (xs @ [x]) = (case find P xs of None \<Rightarrow> (if P x then Some x else None) | Some y \<Rightarrow> Some y)"
    for P :: "elf_strtab_t \<Rightarrow> bool" and xs x by (induction xs) auto
  have nth: "i < j \<Longrightarrow> (sh # shs) ! (j - i) = shs ! (j - Suc i)" by (simp add: nth_Cons')
  show ?case
    using Cons.IH [of "Suc i"] nth
    by (auto simp: app strtab_of_def Suc_le_eq split: option.splits if_splits)
qed

lemma elf_load_strtab_fresh:
  assumes "eh_strtab e = []" "eh_shdr e = Some shs" "elf_load_strtab E e = Inr (tabs, e')"
  shows "e' = e\<lparr>eh_strtab := tabs\<rparr>"
    and "tabs \<noteq> [] \<Longrightarrow> tabs = map (strtab_of (img_bytes (eh_elf e))) (rev (strtab_sections 0 shs))"
  using assms
  by (auto simp: elf_load_strtab_def rev_map split: option.splits dest: strtab_loop_spec)

subsection \<open>Section headers land at their index\<close>

lemma iter_shdr_nth:
  assumes "iter_shdr c n scns arr = Inr arr'" "length arr = n" "\<forall>x \<in> set scns. fst x < n"
    and "distinct (map fst scns)" "j < n"
  shows "arr' ! j = (case find (\<lambda>x. fst x = j) scns of
           None \<Rightarrow> arr ! j
         | Some (_, s32, s64) \<Rightarrow> if c = ELFCLASS32 then assign_shdr (the s32) else assign_shdr (the s64))"
  using assms
proof (induction scns arbitrary: arr)
  case Nil
  then show ?case by simp
next
  case (Cons x scns)
  obtain ndx s32 s64 where x: "x = (ndx, s32, s64)" by (cases x)
  let ?h = "if c = ELFCLASS32 then assign_shdr (the s32) else assign_shdr (the s64)"
  have rest: "iter_shdr c n scns (arr[ndx := ?h]) = Inr arr'"
    using Cons.prems(1,3) x by (auto simp: thenR_eq_Inr split: if_splits)
  have "arr' ! j = (case find (\<lambda>x. fst x = j) scns of
           None \<Rightarrow> arr[ndx := ?h] ! j
         | Some (_, s32, s64) \<Rightarrow> if c = ELFCLASS32 then assign_shdr (the s32) else assign_shdr (the s64))"
    using Cons.prems by (intro Cons.IH [OF rest]) simp_all
  moreover have "find (\<lambda>x. fst x = j) scns = None" if "ndx = j"
    using Cons.prems(4) x that by (auto simp: find_None_iff image_iff)
  ultimately show ?case
    using Cons.prems(2,5) x by (cases "ndx = j") (auto simp: nth_list_update split: option.splits)
qed

text \<open>
  the section header array of \<open>elf_load_shdr\<close>.  For a handle that has no section
  headers yet, every header that libelf reports for an index below \<open>shnum\<close> is stored,
  field by field, at that index; an entry for which libelf reports no section (index 0,
  which \<open>elf_nextscn\<close> never delivers) keeps whatever the fresh block contained.
\<close>

theorem elf_load_shdr_faithful:
  assumes "eh_shdr e = None" "elf_load_shdr E e = Inr (Some shs, e')"
    and "\<forall>x \<in> set (img_scns (eh_elf e)). fst x < shnum e" "distinct (map fst (img_scns (eh_elf e)))"
    and "j < shnum e"
  shows "length shs = shnum e \<and> eh_shdr e' = Some shs \<and>
     shs ! j = (case find (\<lambda>x. fst x = j) (img_scns (eh_elf e)) of
        None \<Rightarrow> raw_shdr E j
      | Some (_, s32, s64) \<Rightarrow>
          if clazz e = ELFCLASS32 then assign_shdr (the s32) else assign_shdr (the s64))"
proof -
  have it: "iter_shdr (clazz e) (shnum e) (img_scns (eh_elf e)) (map (raw_shdr E) [0..<shnum e]) = Inr shs"
    and e': "e' = e\<lparr>eh_shdr := Some shs\<rparr>"
    using assms(1,2) by (auto simp: elf_load_shdr_def thenR_eq_Inr split: if_splits)
  from length_iter_shdr [OF it] have "length shs = shnum e" by simp
  moreover from iter_shdr_nth [OF it _ assms(3-5)] assms(5)
  have "shs ! j = (case find (\<lambda>x. fst x = j) (img_scns (eh_elf e)) of
        None \<Rightarrow> raw_shdr E j
      | Some (_, s32, s64) \<Rightarrow>
          if clazz e = ELFCLASS32 then assign_shdr (the s32) else assign_shdr (the s64))"
    by (simp split: option.splits)
  ultimately show ?thesis by (simp add: e')
qed

text \<open>
  C37: what \<open>elf_load_all\<close> guarantees for a freshly opened handle.  Success means that
  program headers, section headers and string tables are present and that the table
  found by section index \<open>j\<close> is exactly the bytes of section \<open>j\<close> in the file, for every
  section of type \<open>SHT_STRTAB\<close> and for no other.  Failure leaves no table behind.
\<close>

theorem elf_load_all_tables:
  assumes "eh_phdr e = None" "eh_shdr e = None" "eh_strtab e = []"
    and "elf_load_all E e = Inr (ok, e')"
  shows "if ok then wf_handle e' \<and> eh_phdr e' \<noteq> None \<and> eh_strtab e' \<noteq> [] \<and>
       (\<exists>shs. eh_shdr e' = Some shs \<and>
          (\<forall>j. find (\<lambda>tab. tab_id tab = j) (eh_strtab e') =
             (if j < length shs \<and> sh_type (shs ! j) = SHT_STRTAB
              then Some (strtab_of (img_bytes (eh_elf e)) (j, shs ! j)) else None)))
     else eh_phdr e' = None \<and> eh_shdr e' = None \<and> eh_strtab e' = [] \<and> eh_sym e' = None \<and> eh_dsym e' = None"
proof -
  obtain ph e1 where ph: "elf_load_phdr E e = Inr (ph, e1)"
    using assms(4) by (auto simp: elf_load_all_def thenR_eq_Inr)
  show ?thesis
  proof (cases "ph = None")
    case True
    with assms ph show ?thesis by (auto simp: elf_load_all_def release_tables_def)
  next
    case False
    then obtain ps where ps: "ph = Some ps" "e1 = e\<lparr>eh_phdr := Some ps\<rparr>" "length ps = phnum e"
      using elf_load_phdr_cases [OF ph] assms(1) by auto
    obtain sh e2 where sh: "elf_load_shdr E e1 = Inr (sh, e2)"
      using assms(4) ph ps by (auto simp: elf_load_all_def thenR_eq_Inr)
    show ?thesis
    proof (cases "sh = None")
      case True
      with assms ph ps sh show ?thesis by (auto simp: elf_load_all_def release_tables_def)
    next
      case False
      then obtain shs where shs: "sh = Some shs" "e2 = e1\<lparr>eh_shdr := Some shs\<rparr>" "length shs = shnum e"
        using elf_load_shdr_cases [OF sh] assms(2) ps by auto
      obtain st e3 where st: "elf_load_strtab E e2 = Inr (st, e3)"
        using assms(4) ph ps sh shs by (auto simp: elf_load_all_def thenR_eq_Inr)
      have e3: "e3 = e2\<lparr>eh_strtab := st\<rparr>"
        and tabs: "st \<noteq> [] \<Longrightarrow> st = map (strtab_of (img_bytes (eh_elf e))) (rev (strtab_sections 0 shs))"
        using elf_load_strtab_fresh [of e2 shs E st e3] assms(3) ps shs st by simp_all
      show ?thesis
      proof (cases "st = []")
        case True
        with assms ph ps sh shs st show ?thesis by (auto simp: elf_load_all_def release_tables_def)
      next
        case False
        have sh3: "eh_shdr e3 = Some shs" "eh_strtab e3 \<noteq> []" using e3 shs False by simp_all
        obtain t e4 d where t: "elf_load_symtab E e3 = Inr (t, e4)"
          and d: "elf_load_dsymtab E e4 = Inr (d, e')" and ok: "ok"
          using assms(4) ph ps sh shs st False by (auto simp: elf_load_all_def thenR_eq_Inr)
        have e4: "e4 = e3\<lparr>eh_sym := t\<rparr>" by (rule elf_load_symtab_frame [OF sh3 t])
        have e': "e' = e4\<lparr>eh_dsym := d\<rparr>"
          by (rule elf_load_dsymtab_frame [OF _ _ d]) (use sh3 e4 in simp_all)
        show ?thesis
          using ok tabs [OF False] find_strtab_of [of _ "img_bytes (eh_elf e)" 0 shs] ps shs e3 False
          by (simp add: e' e4 wf_handle_def)
      qed
    qed
  qed
qed

subsection \<open>The entries of a symbol table\<close>

text \<open>
  A symbol as the ELF specification has it, and its bytes in the file: \<open>Elf32_Sym\<close> and
  \<open>Elf64_Sym\<close>, little endian.
\<close>

record elf_sym =
  st_name :: u32
  st_info :: u8
  st_other :: u8
  st_shndx :: u16
  st_value :: u64
  st_size :: u64

definition le_bytes :: "nat \<Rightarrow> u64 \<Rightarrow> u8 list" where
  "le_bytes n w = map (byte_at w) [0..<n]"

definition entry_size :: "nat \<Rightarrow> nat" where
  "entry_size c = (if c = ELFCLASS32 then 16 else 24)"

definition sym_bytes :: "nat \<Rightarrow> elf_sym \<Rightarrow> u8 list" where
  "sym_bytes c s =
     (if c = ELFCLASS32
      then le_bytes 4 (ucast (st_name s)) @ le_bytes 4 (st_value s) @ le_bytes 4 (st_size s) @
           [st_info s, st_other s] @ le_bytes 2 (ucast (st_shndx s))
      else le_bytes 4 (ucast (st_name s)) @ [st_info s, st_other s] @ le_bytes 2 (ucast (st_shndx s)) @
           le_bytes 8 (st_value s) @ le_bytes 8 (st_size s))"

text \<open>The entry for it; a 32-bit file holds the low halves of value and size.\<close>

definition entry_of :: "nat \<Rightarrow> elf_sym \<Rightarrow> elf_symbol_t" where
  "entry_of c s =
     (let cut = (\<lambda>w :: u64. if c = ELFCLASS32 then ucast (ucast w :: u32) else w) in
      \<lparr>sym_name = sint (st_name s), sym_info = st_info s, sym_other = st_other s, shndx = int (unat (st_shndx s)),
       sym_value = cut (st_value s), sym_size = cut (st_size s),
       sym_bind = drop_bit 4 (st_info s), sym_type = st_info s AND 0xf, visibility = st_other s AND 0x3\<rparr>)"

lemma length_le_bytes [simp]: "length (le_bytes n w) = n"
  by (simp add: le_bytes_def)

lemma length_sym_bytes [simp]: "length (sym_bytes c s) = entry_size c"
  by (simp add: sym_bytes_def entry_size_def)

lemma le_field_drop: "le_field (drop b bs) off n = le_field bs (b + off) n"
  by (simp add: le_field_def add.commute)

lemma le_field_parts:
  "length pre = off \<Longrightarrow> length mid = n \<Longrightarrow> le_field (pre @ mid @ post) off n = le_field mid 0 n"
  by (simp add: le_field_def)

lemma le_field_byte: "le_field [b] 0 (Suc 0) = unat b"
  by (simp add: le_field_def)

lemma unat_below:
  "unat (w :: u64) < 18446744073709551616" "unat (x :: u32) < 4294967296" "unat (y :: u16) < 65536"
  using unsigned_less [of w, where 'a = nat] unsigned_less [of x, where 'a = nat] unsigned_less [of y, where 'a = nat]
  by simp_all

lemma unat_widen: "unat (ucast (x :: u32) :: u64) = unat x" "unat (ucast (y :: u16) :: u64) = unat y"
  using unat_below(2) [of x] unat_below(3) [of y] by (simp_all add: unsigned_ucast_eq take_bit_nat_eq_self)

lemma foldr_le_bytes:
  "foldr (\<lambda>b acc. unat b + 256 * acc) (map (byte_at w) [k..<k + n]) 0 = unat (drop_bit (8 * k) w) mod 256 ^ n"
proof (induction n arbitrary: k)
  case (Suc n)
  let ?x = "unat (drop_bit (8 * k) w)"
  have "[k..<k + Suc n] = k # [Suc k..<Suc k + n]" by (simp add: upt_rec)
  moreover have "unat (byte_at w k) = ?x mod 256"
    by (simp add: byte_at_def unsigned_ucast_eq take_bit_eq_mod)
  moreover have "unat (drop_bit (8 * Suc k) w) = ?x div 256"
  proof -
    have "drop_bit (8 * Suc k) w = drop_bit 8 (drop_bit (8 * k) w)" by simp
    also have "unat \<dots> = drop_bit 8 ?x" by (rule unat_drop_bit_eq)
    finally show ?thesis by (simp only: drop_bit_eq_div) simp
  qed
  ultimately show ?case using Suc.IH [of "Suc k"] by (simp add: mod_mult2_eq)
qed simp

lemma le_field_bytes: "le_field (le_bytes n w) 0 n = unat w mod 256 ^ n"
  using foldr_le_bytes [of w 0 n] by (simp add: le_field_def le_bytes_def)


lemma field_32:
  assumes "c = ELFCLASS32"
  shows "le_field (sym_bytes c s @ post) 0 4 = unat (st_name s)"
    "le_field (sym_bytes c s @ post) 12 1 = unat (st_info s)"
    "le_field (sym_bytes c s @ post) 13 1 = unat (st_other s)"
    "le_field (sym_bytes c s @ post) 14 2 = unat (st_shndx s)"
    "le_field (sym_bytes c s @ post) 4 4 = unat (st_value s) mod 256 ^ 4"
    "le_field (sym_bytes c s @ post) 8 4 = unat (st_size s) mod 256 ^ 4"
proof -
  let ?n = "le_bytes 4 (ucast (st_name s))" and ?v = "le_bytes 4 (st_value s)" and ?z = "le_bytes 4 (st_size s)"
    and ?x = "le_bytes 2 (ucast (st_shndx s))" and ?i = "[st_info s]" and ?o = "[st_other s]"
  have all: "sym_bytes c s = ?n @ ?v @ ?z @ ?i @ ?o @ ?x" using assms by (simp add: sym_bytes_def)
  show "le_field (sym_bytes c s @ post) 0 4 = unat (st_name s)"
    using le_field_parts [of "[]" 0 ?n 4 "?v @ ?z @ ?i @ ?o @ ?x @ post"]
    by (simp add: all le_field_bytes unat_widen unat_below)
  show "le_field (sym_bytes c s @ post) 12 1 = unat (st_info s)"
    using le_field_parts [of "?n @ ?v @ ?z" 12 ?i 1 "?o @ ?x @ post"] by (simp add: all le_field_byte)
  show "le_field (sym_bytes c s @ post) 13 1 = unat (st_other s)"
    using le_field_parts [of "?n @ ?v @ ?z @ ?i" 13 ?o 1 "?x @ post"] by (simp add: all le_field_byte)
  show "le_field (sym_bytes c s @ post) 14 2 = unat (st_shndx s)"
    using le_field_parts [of "?n @ ?v @ ?z @ ?i @ ?o" 14 ?x 2 post]
    by (simp add: all le_field_bytes unat_widen unat_below)
  show "le_field (sym_bytes c s @ post) 4 4 = unat (st_value s) mod 256 ^ 4"
    using le_field_parts [of ?n 4 ?v 4 "?z @ ?i @ ?o @ ?x @ post"] by (simp add: all le_field_bytes)
  show "le_field (sym_bytes c s @ post) 8 4 = unat (st_size s) mod 256 ^ 4"
    using le_field_parts [of "?n @ ?v" 8 ?z 4 "?i @ ?o @ ?x @ post"] by (simp add: all le_field_bytes)
qed

lemma field_64:
  assumes "c \<noteq> ELFCLASS32"
  shows "le_field (sym_bytes c s @ post) 0 4 = unat (st_name s)"
    "le_field (sym_bytes c s @ post) 4 1 = unat (st_info s)"
    "le_field (sym_bytes c s @ post) 5 1 = unat (st_other s)"
    "le_field (sym_bytes c s @ post) 6 2 = unat (st_shndx s)"
    "le_field (sym_bytes c s @ post) 8 8 = unat (st_value s)"
    "le_field (sym_bytes c s @ post) 16 8 = unat (st_size s)"
proof -
  let ?n = "le_bytes 4 (ucast (st_name s))" and ?v = "le_bytes 8 (st_value s)" and ?z = "le_bytes 8 (st_size s)"
    and ?x = "le_bytes 2 (ucast (st_shndx s))" and ?i = "[st_info s]" and ?o = "[st_other s]"
  have all: "sym_bytes c s = ?n @ ?i @ ?o @ ?x @ ?v @ ?z" using assms by (simp add: sym_bytes_def)
  show "le_field (sym_bytes c s @ post) 0 4 = unat (st_name s)"
    using le_field_parts [of "[]" 0 ?n 4 "?i @ ?o @ ?x @ ?v @ ?z @ post"]
    by (simp add: all le_field_bytes unat_widen unat_below)
  show "le_field (sym_bytes c s @ post) 4 1 = unat (st_info s)"
    using le_field_parts [of ?n 4 ?i 1 "?o @ ?x @ ?v @ ?z @ post"] by (simp add: all le_field_byte)
  show "le_field (sym_bytes c s @ post) 5 1 = unat (st_other s)"
    using le_field_parts [of "?n @ ?i" 5 ?o 1 "?x @ ?v @ ?z @ post"] by (simp add: all le_field_byte)
  show "le_field (sym_bytes c s @ post) 6 2 = unat (st_shndx s)"
    using le_field_parts [of "?n @ ?i @ ?o" 6 ?x 2 "?v @ ?z @ post"]
    by (simp add: all le_field_bytes unat_widen unat_below)
  show "le_field (sym_bytes c s @ post) 8 8 = unat (st_value s)"
    using le_field_parts [of "?n @ ?i @ ?o @ ?x" 8 ?v 8 "?z @ post"] by (simp add: all le_field_bytes unat_below)
  show "le_field (sym_bytes c s @ post) 16 8 = unat (st_size s)"
    using le_field_parts [of "?n @ ?i @ ?o @ ?x @ ?v" 16 ?z 8 post] by (simp add: all le_field_bytes unat_below)
qed

lemma entry_start:
  "i < length syms \<Longrightarrow> \<exists>post. drop (entry_size c * i) (concat (map (sym_bytes c) syms) @ rest) = sym_bytes c (syms ! i) @ post"
proof (induction syms arbitrary: i)
  case (Cons s syms)
  show ?case
  proof (cases i)
    case (Suc j)
    then have "drop (entry_size c * i) (concat (map (sym_bytes c) (s # syms)) @ rest) =
        drop (entry_size c * j) (concat (map (sym_bytes c) syms) @ rest)" by simp
    with Cons.IH [of j] Cons.prems Suc show ?thesis by simp
  qed simp
qed simp

lemma of_nat_low: "of_nat (unat v mod 256 ^ 4) = (ucast (ucast v :: u32) :: u64)" for v :: u64
  by (rule word_unat_eq_iff [THEN iffD2]) (simp add: unsigned_ucast_eq unat_of_nat take_bit_eq_mod mod_mod_cancel unat_mod_distrib)

lemma assign_sym_entry:
  assumes "i < length syms"
  shows "assign_sym c (concat (map (sym_bytes c) syms) @ rest) i = entry_of c (syms ! i)"
proof -
  let ?raw = "concat (map (sym_bytes c) syms) @ rest"
  obtain post where post: "drop (entry_size c * i) ?raw = sym_bytes c (syms ! i) @ post"
    using entry_start [OF assms] by blast
  have f: "le_field ?raw (entry_size c * i + off) n = le_field (sym_bytes c (syms ! i) @ post) off n" for off n
    by (simp only: le_field_drop [symmetric] post)
  note at = f [of 0, simplified] f
  show ?thesis
  proof (cases "c = ELFCLASS32")
    case True
    note fields = field_32 [OF True, of "syms ! i" post, unfolded One_nat_def]
    have "entry_size c = 16" using True by (simp add: entry_size_def)
    note at' = at [unfolded this]
    show ?thesis by (simp add: assign_sym_def entry_of_def Let_def True)
      (simp add: at' fields of_nat_low [simplified] flip: True)
  next
    case False
    note fields = field_64 [OF False, of "syms ! i" post, unfolded One_nat_def]
    have "entry_size c = 24" using False by (simp add: entry_size_def)
    note at' = at [unfolded this]
    show ?thesis by (simp add: assign_sym_def entry_of_def Let_def False at' fields)
  qed
qed

text \<open>
  C40: the symbol table.  Where the section holds the bytes of the symbols \<open>syms\<close>, as the ELF
  specification lays them out for the class of the file, and less than one more entry behind
  them, the table that is loaded has exactly their entries: every field is the one of the
  symbol, \<open>bind\<close> and \<open>type\<close> are the halves of its \<open>info\<close>, \<open>visibility\<close> is in the low bits of its
  \<open>other\<close>; and its names are in the string table that the section links to.
\<close>

theorem elf_load_symtab_entries:
  assumes "elf_load_symtab_internal E e shdr = Inr (Some tab, e')"
    and "take (unat (sh_size shdr)) (drop (unat (sh_offset shdr)) (img_bytes (eh_elf e'))) =
      concat (map (sym_bytes (clazz e')) syms) @ rest"
    and "length rest < entry_size (clazz e')" "length syms < 2 ^ 31"
  shows "sym_symbol tab = map (entry_of (clazz e')) syms \<and> sym_count tab = int (length syms) \<and>
    sym_strtab tab \<in> set (eh_strtab e') \<and> of_nat (tab_id (sym_strtab tab)) = sh_link shdr"
proof -
  let ?n = "entry_size (clazz e')"
  obtain raw tb count where raw: "pread_exact (img_bytes (eh_elf e')) (sh_size shdr) (sh_offset shdr) = Some raw"
    and tb: "find (\<lambda>tab. sh_link shdr = of_nat (tab_id tab)) (eh_strtab e') = Some tb"
    and count: "count = sint (ucast (sh_size shdr div of_nat ?n) :: u32)"
    and tab: "tab = \<lparr>sym_count = count, sym_strtab = tb, sym_symbol = map (assign_sym (clazz e') raw) [0..<nat count]\<rparr>"
    using assms(1) unfolding entry_size_def
    by (auto simp: elf_load_symtab_internal_def thenR_eq_Inr Let_def split: if_splits option.splits)
  have bytes: "raw = concat (map (sym_bytes (clazz e')) syms) @ rest"
    using pread_exact_Some [OF raw] assms(2) by simp
  have "int (length raw) = uint (sh_size shdr)"
    using raw sint_nonneg [of "sh_size shdr"] by (auto simp: pread_exact_def split: option.splits if_splits)
  then have "length raw = unat (sh_size shdr)" by (metis nat_int unat_eq_nat_uint)
  then have "unat (sh_size shdr) = length syms * ?n + length rest"
    by (simp add: bytes length_concat comp_def sum_list_triv)
  moreover have "?n < 2 ^ 64" by (simp add: entry_size_def)
  ultimately have "unat (sh_size shdr div of_nat ?n) = length syms"
    using assms(3) by (simp add: unat_div_distrib unat_of_nat take_bit_nat_eq_self)
  then have "count = int (length syms)"
    using assms(4) unfolding count
    by (simp add: sint_uint uint_nat unsigned_ucast_eq take_bit_nat_eq_self signed_take_bit_int_eq_self)
  moreover have "map (assign_sym (clazz e') raw) [0..<length syms] = map (entry_of (clazz e')) syms"
    by (rule nth_equalityI) (simp_all add: bytes assign_sym_entry)
  ultimately show ?thesis using tab tb by (auto simp: find_Some_iff)
qed

end
