(* ===== verification/Sdb_State.thy ===== *)
theory Sdb_State
  imports Ptrace Elf_Tool
begin

text \<open>
  The state of the debugger of \<^verbatim>\<open>hw4/sdb.h\<close>: its structures, creation, the two state
  predicates, and loading a program.  \<open>'k sys\<close> is the state all commands work on: the
  \<open>SDB\<close> structure, the system below (type \<open>'k\<close>, see \<open>Ptrace\<close>), the output so far and
  the releases made by \<open>elf_close\<close>.
\<close>

definition MAX_BREAK :: nat where "MAX_BREAK = 10"

record bp_t =
  is_used :: bool
  bp_addr :: u64
  original_word :: u64

record SDB =
  eh :: "elf_handle_t option"
  strtab :: "elf_strtab_t option"
  path :: string
  pid :: int
  breaks :: "bp_t list"
  last_disasm_addr :: u64

record 'k sys =
  sdb :: SDB
  os :: 'k
  out :: "out_event list"
  released :: "release list"

definition emit :: "out_event \<Rightarrow> 'k sys \<Rightarrow> 'k sys" where
  "emit ev s = s\<lparr>out := out s @ [ev]\<rparr>"

abbreviation printf :: "string \<Rightarrow> 'k sys \<Rightarrow> 'k sys" where
  "printf t \<equiv> emit (Stdout t)"

abbreviation puts :: "string \<Rightarrow> 'k sys \<Rightarrow> 'k sys" where
  "puts t \<equiv> emit (Stdout (t @ newline))"

abbreviation eprintf :: "string \<Rightarrow> 'k sys \<Rightarrow> 'k sys" where
  "eprintf t \<equiv> emit (Stderr t)"

abbreviation on_sdb :: "(SDB \<Rightarrow> SDB) \<Rightarrow> 'k sys \<Rightarrow> 'k sys" where
  "on_sdb f s \<equiv> s\<lparr>sdb := f (sdb s)\<rparr>"

lemma emit_simps [simp]:
  "sdb (emit ev s) = sdb s" "os (emit ev s) = os s" "released (emit ev s) = released s"
  "out (emit ev s) = out s @ [ev]"
  by (simp_all add: emit_def)

subsection \<open>Creation and predicates\<close>

text \<open>
  \<open>raw i\<close> is what the fresh block contains at breakpoint \<open>i\<close>: only \<open>is_used\<close> is stored.
\<close>

definition sdb_create :: "(nat \<Rightarrow> bp_t) \<Rightarrow> SDB" where
  "sdb_create raw =
     \<lparr>eh = None, strtab = None, path = '''', pid = - 1,
      breaks = map (\<lambda>i. (raw i)\<lparr>is_used := False\<rparr>) [0..<MAX_BREAK],
      last_disasm_addr = 0\<rparr>"

definition sdb_is_loaded :: "SDB \<Rightarrow> bool" where
  "sdb_is_loaded d \<longleftrightarrow> path d \<noteq> ''''"

definition sdb_is_running :: "SDB \<Rightarrow> bool" where
  "sdb_is_running d \<longleftrightarrow> pid d \<noteq> - 1"

definition clear_breaks :: "bp_t list \<Rightarrow> bp_t list" where
  "clear_breaks bs = map (\<lambda>bp. bp\<lparr>is_used := False\<rparr>) bs"

subsection \<open>Loading a program\<close>

text \<open>
  The search for the section named \<^verbatim>\<open>.text\<close>, from section 1 on: \<open>names\<close> is the data of
  the section header string table.
\<close>

fun text_section :: "char list \<Rightarrow> elf_shdr_t list \<Rightarrow> elf_shdr_t option res" where
  "text_section names [] = Inr None"
| "text_section names (sh # shs) =
     thenR (c_streq (drop (unat (sh_name sh)) names) ''.text'') (\<lambda>eq.
       if eq then Inr (Some sh) else text_section names shs)"

definition loaded_msg :: "string \<Rightarrow> elf_handle_t \<Rightarrow> elf_shdr_t \<Rightarrow> string" where
  "loaded_msg fname e sh =
     ''** program '' @ [CHR 0x27] @ fname @ [CHR 0x27] @ '' loaded. entry point 0x'' @ show_llx (entrypoint e) @
     '', vaddr 0x'' @ show_llx (sh_addr sh) @ '', offset 0x'' @ show_llx (sh_offset sh) @
     '', size 0x'' @ show_llx (sh_size sh) @ newline"

text \<open>The part of \<open>sdb_load\<close> after a successful \<open>elf_load_all\<close>.\<close>

definition sdb_load_rest :: "string \<Rightarrow> elf_handle_t \<Rightarrow> 'k sys \<Rightarrow> 'k sys res" where
  "sdb_load_rest new_filename e s2 =
     (let tab = find (\<lambda>t. tab_id t = shstrndx e) (eh_strtab e);
          s3 = on_sdb (\<lambda>d. d\<lparr>strtab := tab\<rparr>) s2
      in case tab of
           None \<Rightarrow> Inr (eprintf (''** section header string table not found.'' @ newline) s3)
         | Some t \<Rightarrow>
             thenR (need Null_Deref (eh_shdr e)) (\<lambda>shs.
             thenR (text_section (tab_data t) (drop 1 shs)) (\<lambda>txt.
               let s4 = (case txt of
                           None \<Rightarrow> s3
                         | Some sh \<Rightarrow> printf (loaded_msg new_filename e sh) s3)
               in thenR (store_s 128 new_filename) (\<lambda>p.
                 Inr (on_sdb (\<lambda>d. d\<lparr>pid := - 1, path := p,
                                    breaks := clear_breaks (breaks d),
                                    last_disasm_addr := 0\<rparr>) s4)))))"

definition sdb_load :: "elf_host \<Rightarrow> string \<Rightarrow> 'k sys \<Rightarrow> 'k sys res" where
  "sdb_load E new_filename s0 =
     (let s1 = (case eh (sdb s0) of
                  None \<Rightarrow> s0
                | Some e \<Rightarrow> on_sdb (\<lambda>d. d\<lparr>eh := None\<rparr>) (s0\<lparr>released := released s0 @ elf_close (Some e)\<rparr>))
      in thenR (elf_open E new_filename) (\<lambda>h.
        case h of
          None \<Rightarrow> Inr (eprintf (''** unabel to open '' @ [CHR 0x27] @ new_filename @ [CHR 0x27] @ ''.'' @ newline) s1)
        | Some e0 \<Rightarrow>
            thenR (elf_load_all E e0) (\<lambda>(ok, e).
              let s2 = on_sdb (\<lambda>d. d\<lparr>eh := Some e\<rparr>) s1 in
              if \<not> ok then
                Inr (eprintf (''** unable to load '' @ [CHR 0x27] @ new_filename @ ''.'' @ newline) s2)
              else sdb_load_rest new_filename e s2)))"

subsection \<open>The breakpoint table\<close>

text \<open>The table has its \<open>MAX_BREAK\<close> entries; this holds from creation on.\<close>

definition wf_sdb :: "SDB \<Rightarrow> bool" where
  "wf_sdb d \<longleftrightarrow> length (breaks d) = MAX_BREAK"

text \<open>The abstract table: which address a breakpoint id stands for.\<close>

definition bp_table :: "SDB \<Rightarrow> nat \<Rightarrow> u64 option" where
  "bp_table d i =
     (if i < length (breaks d) \<and> is_used (breaks d ! i) then Some (bp_addr (breaks d ! i)) else None)"

lemma wf_sdb_create: "wf_sdb (sdb_create raw)"
  by (simp add: wf_sdb_def sdb_create_def)

lemma bp_table_create: "bp_table (sdb_create raw) = Map.empty"
  by (auto simp: bp_table_def sdb_create_def)

lemma length_clear_breaks [simp]: "length (clear_breaks bs) = length bs"
  by (simp add: clear_breaks_def)

lemma bp_table_clear: "bp_table (d\<lparr>breaks := clear_breaks (breaks d)\<rparr>) = Map.empty"
  by (auto simp: bp_table_def clear_breaks_def)

text \<open>
  The two outcomes of loading: either only a message on the error output and no change to
  the path, the process and the table, or the new program with an empty table.
\<close>

definition load_refused :: "'k sys \<Rightarrow> 'k sys \<Rightarrow> bool" where
  "load_refused s s' \<longleftrightarrow> (\<exists>t. out s' = out s @ [Stderr t]) \<and> path (sdb s') = path (sdb s) \<and>
     pid (sdb s') = pid (sdb s) \<and> breaks (sdb s') = breaks (sdb s) \<and>
     last_disasm_addr (sdb s') = last_disasm_addr (sdb s)"

definition load_done :: "string \<Rightarrow> 'k sys \<Rightarrow> 'k sys \<Rightarrow> bool" where
  "load_done fn s s' \<longleftrightarrow> path (sdb s') = fn \<and> length fn < 128 \<and> pid (sdb s') = - 1 \<and>
     breaks (sdb s') = clear_breaks (breaks (sdb s)) \<and> last_disasm_addr (sdb s') = 0 \<and>
     strtab (sdb s') \<noteq> None"

lemma sdb_load_rest_cases:
  assumes "sdb_load_rest fn e s = Inr s'"
  shows "(load_refused s s' \<or> load_done fn s s') \<and> os s' = os s \<and> eh (sdb s') = eh (sdb s)"
  using assms
  by (auto simp: sdb_load_rest_def thenR_eq_Inr Let_def store_s_def load_refused_def load_done_def
        split: option.splits if_splits)

lemma load_cases_pre:
  assumes "load_refused s1 s' \<or> load_done fn s1 s'"
    and "path (sdb s1) = path (sdb s)" "pid (sdb s1) = pid (sdb s)" "breaks (sdb s1) = breaks (sdb s)"
      "last_disasm_addr (sdb s1) = last_disasm_addr (sdb s)" "out s1 = out s"
  shows "load_refused s s' \<or> load_done fn s s'"
  using assms by (auto simp: load_refused_def load_done_def)

lemma sdb_load_cases:
  assumes "sdb_load E fn s = Inr s'"
  shows "(load_refused s s' \<or> load_done fn s s') \<and> os s' = os s"
proof -
  define s1 where "s1 = (case eh (sdb s) of
                  None \<Rightarrow> s
                | Some e \<Rightarrow> on_sdb (\<lambda>d. d\<lparr>eh := None\<rparr>) (s\<lparr>released := released s @ elf_close (Some e)\<rparr>))"
  have s1: "path (sdb s1) = path (sdb s)" "pid (sdb s1) = pid (sdb s)" "breaks (sdb s1) = breaks (sdb s)"
      "last_disasm_addr (sdb s1) = last_disasm_addr (sdb s)" "out s1 = out s" "os s1 = os s"
    by (simp_all add: s1_def split: option.splits)
  obtain h where h: "elf_open E fn = Inr h"
    using assms unfolding sdb_load_def Let_def thenR_eq_Inr by blast
  show ?thesis
  proof (cases h)
    case None
    with assms h s1 show ?thesis
      by (auto simp: sdb_load_def Let_def load_refused_def simp flip: s1_def)
  next
    case (Some e0)
    with assms h obtain ok e where la: "elf_load_all E e0 = Inr (ok, e)"
      by (auto simp: sdb_load_def thenR_eq_Inr Let_def)
    show ?thesis
    proof (cases ok)
      case False
      with assms h Some la s1 show ?thesis
        by (auto simp: sdb_load_def Let_def load_refused_def simp flip: s1_def)
    next
      case True
      with assms h Some la have r: "sdb_load_rest fn e (on_sdb (\<lambda>d. d\<lparr>eh := Some e\<rparr>) s1) = Inr s'"
        by (simp add: sdb_load_def Let_def flip: s1_def)
      show ?thesis
        using sdb_load_rest_cases [OF r] s1
          load_cases_pre [of "on_sdb (\<lambda>d. d\<lparr>eh := Some e\<rparr>) s1" s' fn s] by simp
    qed
  qed
qed

lemma sdb_load_wf: "wf_sdb (sdb s) \<Longrightarrow> sdb_load E fn s = Inr s' \<Longrightarrow> wf_sdb (sdb s')"
  using sdb_load_cases [of E fn s s'] by (auto simp: wf_sdb_def load_refused_def load_done_def)

end
