(* ===== verification/Sdb_Maps.thy ===== *)
theory Sdb_Maps
  imports Sdb_State
begin

text \<open>
  The code of \<^verbatim>\<open>hw4/sdb.h\<close> that reads \<^verbatim>\<open>/proc/<pid>/maps\<close>: the load address of a
  position-independent program (\<open>convert_dynamic_addr\<close>) and the memory map listing
  (\<open>sdb_vmmap\<close>).  A line is the text \<open>getline\<close> delivers; an unreadable file is a null
  \<open>FILE\<close> pointer that the code passes on to \<open>getline\<close>.
\<close>

definition maps_delim :: "char \<Rightarrow> bool" where
  "maps_delim c \<longleftrightarrow> c = CHR '' '' \<or> c = CHR 0x0A"

subsection \<open>Relocating an address\<close>

text \<open>
  The locals of one line: the base address (unassigned before the first line), and the
  two flags.
\<close>

record maps_state =
  base_addr :: "u64 option"
  is_executable :: bool
  is_exe_area :: bool

definition maps_token :: "string \<Rightarrow> nat \<Rightarrow> string \<Rightarrow> maps_state \<Rightarrow> maps_state res" where
  "maps_token exe count token m =
     (if count = 0 then
        (case split_at_char (CHR ''-'') token of
           None \<Rightarrow> Inl Null_Deref
         | Some (first, second) \<Rightarrow>
             thenR (need Uninit_Read (scan_llx first)) (\<lambda>begin.
               Inr (m\<lparr>base_addr := Some begin\<rparr>)))
      else if count = 1 then
        (if length token < 3 then Inl Out_Of_Bounds
         else if take 3 token = ''r-x'' then Inr (m\<lparr>is_executable := True\<rparr>) else Inr m)
      else if count = 5 then
        (if basename token = basename exe then Inr (m\<lparr>is_exe_area := True\<rparr>) else Inr m)
      else Inr m)"

fun maps_tokens :: "string \<Rightarrow> nat \<Rightarrow> string list \<Rightarrow> maps_state \<Rightarrow> maps_state res" where
  "maps_tokens exe count [] m = Inr m"
| "maps_tokens exe count (token # tokens) m =
     thenR (maps_token exe count token m) (\<lambda>m. maps_tokens exe (Suc count) tokens m)"

fun maps_lines :: "string \<Rightarrow> string list \<Rightarrow> u64 option \<Rightarrow> u64 option res" where
  "maps_lines exe [] base = Inr base"
| "maps_lines exe (line # lines) base =
     thenR (maps_tokens exe 0 (strtok_all maps_delim line)
              \<lparr>base_addr = base, is_executable = False, is_exe_area = False\<rparr>)
       (\<lambda>m. if is_executable m \<and> is_exe_area m then Inr (base_addr m)
             else maps_lines exe lines (base_addr m))"

definition convert_dynamic_addr :: "'k host \<Rightarrow> 'k sys \<Rightarrow> u64 \<Rightarrow> u64 res" where
  "convert_dynamic_addr H s addr =
     thenR (need Null_Deref (h_maps H (pid (sdb s)) (os s))) (\<lambda>lines.
     thenR (maps_lines (path (sdb s)) lines None) (\<lambda>base.
     thenR (need Uninit_Read base) (\<lambda>base_addr. Inr (base_addr + addr))))"

text \<open>
  The address a breakpoint entry stands for in the running process: relocated when the
  ELF type is 3 (\<open>ET_DYN\<close>).
\<close>

definition live_addr :: "'k host \<Rightarrow> 'k sys \<Rightarrow> u64 \<Rightarrow> u64 res" where
  "live_addr H s addr =
     thenR (need Null_Deref (eh (sdb s))) (\<lambda>e.
       if eh_type e = 3 then convert_dynamic_addr H s addr else Inr addr)"

subsection \<open>The memory map listing\<close>

definition vm_map_token :: "nat \<Rightarrow> string \<Rightarrow> string res" where
  "vm_map_token count token =
     (if count = 0 then
        (case split_at_char (CHR ''-'') token of
           None \<Rightarrow> Inl Null_Deref
         | Some (first, second) \<Rightarrow>
             thenR (need Uninit_Read (scan_llx first)) (\<lambda>begin.
             thenR (need Uninit_Read (scan_llx second)) (\<lambda>last.
               Inr (show_016llx begin @ ''-'' @ show_016llx last @ '' ''))))
      else if count = 1 then
        (if length token < 3 then Inl Out_Of_Bounds else Inr (take 3 token @ '' ''))
      else if count = 2 then
        thenR (need Uninit_Read (scan_x token)) (\<lambda>offset. Inr (pad_right 8 (show_llx offset) @ '' ''))
      else if count = 5 then Inr (token @ '' '')
      else Inr [])"

fun vm_map_tokens :: "nat \<Rightarrow> string list \<Rightarrow> string res" where
  "vm_map_tokens count [] = Inr newline"
| "vm_map_tokens count (token # tokens) =
     thenR (vm_map_token count token) (\<lambda>t.
     thenR (vm_map_tokens (Suc count) tokens) (\<lambda>rest. Inr (t @ rest)))"

definition print_vm_maps :: "string \<Rightarrow> 'k sys \<Rightarrow> 'k sys res" where
  "print_vm_maps line s =
     thenR (vm_map_tokens 0 (strtok_all maps_delim line)) (\<lambda>t. Inr (printf t s))"

fun print_all_maps :: "string list \<Rightarrow> 'k sys \<Rightarrow> 'k sys res" where
  "print_all_maps [] s = Inr s"
| "print_all_maps (line # lines) s = thenR (print_vm_maps line s) (\<lambda>s. print_all_maps lines s)"

text \<open>The section header array and the string table are dereferenced from section 1 on.\<close>

definition text_of_file :: "SDB \<Rightarrow> elf_handle_t \<Rightarrow> elf_shdr_t option res" where
  "text_of_file d e =
     (if shnum e \<le> 1 then Inr None
      else thenR (need Null_Deref (strtab d)) (\<lambda>tab.
           thenR (need Null_Deref (eh_shdr e)) (\<lambda>shs. text_section (tab_data tab) (drop 1 shs))))"

definition sdb_vmmap :: "'k host \<Rightarrow> 'k sys \<Rightarrow> 'k sys res" where
  "sdb_vmmap H s =
     (if \<not> sdb_is_loaded (sdb s) then Inr (printf (''No program loaded'' @ newline) s)
      else if \<not> sdb_is_running (sdb s) then
        thenR (need Null_Deref (eh (sdb s))) (\<lambda>e.
        thenR (text_of_file (sdb s) e) (\<lambda>txt.
          case txt of
            None \<Rightarrow> Inr s
          | Some sh \<Rightarrow>
              Inr (printf (show_016llx (sh_addr sh) @ ''-'' @ show_016llx (sh_addr sh + sh_size sh) @
                '' r-x '' @ show_llx (sh_offset sh) @ ''       '' @ path (sdb s) @ newline) s)))
      else
        thenR (need Null_Deref (h_maps H (pid (sdb s)) (os s))) (\<lambda>lines. print_all_maps lines s))"

subsection \<open>Tokens of a rendered line\<close>

lemma strtok_all_Nil [simp]: "strtok_all del [] = []"
  by (simp add: strtok_all.simps)

lemma strtok_all_delim: "del d \<Longrightarrow> strtok_all del (d # s) = strtok_all del s"
  by (simp add: strtok_all.simps [of del "d # s"] strtok_all.simps [of del s])

lemma strtok_all_token:
  assumes "t \<noteq> []" "\<forall>c \<in> set t. \<not> del c" "del d"
  shows "strtok_all del (t @ d # s) = t # strtok_all del s"
proof -
  obtain c u where t: "t = c # u" "\<not> del c" using assms(1,2) by (cases t) auto
  then have dw: "dropWhile del (t @ d # s) = t @ d # s" by simp
  have "takeWhile (\<lambda>c. \<not> del c) (t @ d # s) = t" "dropWhile (\<lambda>c. \<not> del c) (t @ d # s) = d # s"
    using assms(2,3) by (simp_all add: takeWhile_append dropWhile_append)
  then show ?thesis
    using assms t by (subst strtok_all.simps) (simp only: dw Let_def, simp add: strtok_all_delim)
qed

text \<open>
  A mapping, and the line the kernel prints for it: the path, absent for an anonymous
  mapping, comes after any number of further blanks.
\<close>

record mapping_entry =
  map_begin :: u64
  map_end :: u64
  map_perms :: string
  map_offset :: string
  map_dev :: string
  map_inode :: string
  map_blanks :: nat
  map_path :: "string option"

definition plain_token :: "string \<Rightarrow> bool" where
  "plain_token t \<longleftrightarrow> t \<noteq> [] \<and> (\<forall>c \<in> set t. \<not> maps_delim c)"

definition wf_mapping :: "mapping_entry \<Rightarrow> bool" where
  "wf_mapping m \<longleftrightarrow> length (map_perms m) = 4 \<and> plain_token (map_perms m) \<and> plain_token (map_offset m) \<and>
     plain_token (map_dev m) \<and> plain_token (map_inode m) \<and>
     (case map_path m of None \<Rightarrow> True | Some p \<Rightarrow> plain_token p)"

definition mapping_line :: "mapping_entry \<Rightarrow> string" where
  "mapping_line m =
     (show_llx (map_begin m) @ ''-'' @ show_llx (map_end m)) @ '' '' @ map_perms m @ '' '' @
     map_offset m @ '' '' @ map_dev m @ '' '' @ map_inode m @ '' '' @
     replicate (map_blanks m) (CHR '' '') @
     (case map_path m of None \<Rightarrow> [] | Some p \<Rightarrow> p) @ newline"

lemma show_llx_digits: "c \<in> set (show_llx (w :: u64)) \<Longrightarrow> is_digit_of 16 c"
  unfolding show_llx_def by (rule show_base_digits) simp_all

lemma digit_not_delim: "is_digit_of 16 c \<Longrightarrow> \<not> maps_delim c"
  using digit_not_special [of c] by (auto simp: maps_delim_def c_space_def)

lemma split_at_char_app:
  "d \<notin> set a \<Longrightarrow> split_at_char d (a @ d # b) = Some (a, b)"
  by (induction a) auto

lemma split_range:
  "split_at_char (CHR ''-'') (show_llx (a :: u64) @ CHR ''-'' # show_llx (b :: u64)) = Some (show_llx a, show_llx b)"
  by (rule split_at_char_app) (auto dest: show_llx_digits digit_not_special(2))

lemma plain_range: "plain_token (show_llx (a :: u64) @ CHR ''-'' # show_llx (b :: u64))"
proof -
  have "\<not> maps_delim (CHR ''-'')" by (simp add: maps_delim_def)
  then show ?thesis by (auto simp: plain_token_def dest: show_llx_digits digit_not_delim)
qed

lemma strtok_all_blanks: "strtok_all maps_delim (replicate n (CHR '' '') @ s) = strtok_all maps_delim s"
  by (induction n) (simp_all add: strtok_all_delim maps_delim_def)

lemma mapping_line_tokens:
  assumes "wf_mapping m"
  shows "strtok_all maps_delim (mapping_line m) =
    [show_llx (map_begin m) @ ''-'' @ show_llx (map_end m), map_perms m, map_offset m, map_dev m,
     map_inode m] @ (case map_path m of None \<Rightarrow> [] | Some p \<Rightarrow> [p])"
proof -
  have tok: "strtok_all maps_delim (t @ d # s) = t # strtok_all maps_delim s"
    if "plain_token t" "maps_delim d" for t d s
    using that by (intro strtok_all_token) (auto simp: plain_token_def)
  have del: "maps_delim (CHR '' '')" "maps_delim (CHR 0x0A)" by (simp_all add: maps_delim_def)
  define r where "r = show_llx (map_begin m) @ ''-'' @ show_llx (map_end m)"
  have "plain_token r" using plain_range by (simp add: r_def)
  with assms del show ?thesis
    unfolding mapping_line_def r_def [symmetric]
    by (cases "map_path m") (simp_all add: tok wf_mapping_def strtok_all_blanks strtok_all_delim)
qed

text \<open>Scanning one rendered line, and all of them.\<close>

definition exec_of :: "string \<Rightarrow> mapping_entry \<Rightarrow> bool" where
  "exec_of exe m \<longleftrightarrow> take 3 (map_perms m) = ''r-x'' \<and> map_option basename (map_path m) = Some (basename exe)"

lemma maps_tokens_line:
  assumes "wf_mapping m"
  shows "maps_tokens exe 0 (strtok_all maps_delim (mapping_line m))
           \<lparr>base_addr = b, is_executable = False, is_exe_area = False\<rparr> =
         Inr \<lparr>base_addr = Some (map_begin m), is_executable = (take 3 (map_perms m) = ''r-x''),
               is_exe_area = (map_option basename (map_path m) = Some (basename exe))\<rparr>"
  using assms
  by (cases "map_path m") (simp_all add: mapping_line_tokens maps_token_def split_range wf_mapping_def)

lemma maps_lines_rendered:
  assumes "\<forall>m \<in> set ms. wf_mapping m"
  shows "maps_lines exe (map mapping_line ms) b =
    Inr (case find (exec_of exe) ms of
           Some m \<Rightarrow> Some (map_begin m)
         | None \<Rightarrow> if ms = [] then b else Some (map_begin (last ms)))"
  using assms
proof (induction ms arbitrary: b)
  case Nil
  then show ?case by simp
next
  case (Cons m ms)
  then show ?case
    by (auto simp: maps_tokens_line exec_of_def split: option.splits)
qed

text \<open>
  C36: relocation.  For a maps file made of lines as the kernel prints them,
  \<open>convert_dynamic_addr\<close> adds the address to the start of the first mapping that is
  \<open>r-x\<close> and whose file has the program's base name; when there is no such mapping it
  silently adds it to the start of the last mapping listed.
\<close>

theorem convert_dynamic_addr_rendered:
  assumes "h_maps H (pid (sdb s)) (os s) = Some (map mapping_line ms)"
    and "\<forall>m \<in> set ms. wf_mapping m" "ms \<noteq> []"
  shows "convert_dynamic_addr H s addr =
    Inr ((case find (exec_of (path (sdb s))) ms of
            Some m \<Rightarrow> map_begin m
          | None \<Rightarrow> map_begin (last ms)) + addr)"
  using assms by (simp add: convert_dynamic_addr_def maps_lines_rendered split: option.splits)

text \<open>The relocation reads the state of the process and nothing else.\<close>

lemma convert_dynamic_addr_cong:
  "h_maps H (pid (sdb s)) (os s) = h_maps H (pid (sdb s')) (os s') \<Longrightarrow> path (sdb s) = path (sdb s') \<Longrightarrow>
     convert_dynamic_addr H s a = convert_dynamic_addr H s' a"
  by (simp add: convert_dynamic_addr_def)

lemma live_addr_cong:
  "h_maps H (pid (sdb s)) (os s) = h_maps H (pid (sdb s')) (os s') \<Longrightarrow> path (sdb s) = path (sdb s') \<Longrightarrow>
     eh (sdb s) = eh (sdb s') \<Longrightarrow> live_addr H s a = live_addr H s' a"
  by (cases "eh (sdb s')") (auto simp: live_addr_def convert_dynamic_addr_def)

end
