(* ===== verification/Sdb_Break.thy ===== *)
theory Sdb_Break
  imports Sdb_Maps
begin

text \<open>
  The breakpoint table of \<^verbatim>\<open>hw4/sdb.h\<close>: planting the breakpoint instructions
  (\<open>sdb_patch_all_bp\<close>), and the commands that set, list and delete breakpoints.
  The central facts are what planting does to the memory of the process, byte by byte,
  and how the commands act on the abstract table \<open>bp_table\<close>.
\<close>

subsection \<open>Operations\<close>

definition set_bp :: "nat \<Rightarrow> (bp_t \<Rightarrow> bp_t) \<Rightarrow> 'k sys \<Rightarrow> 'k sys" where
  "set_bp i f s = on_sdb (\<lambda>d. d\<lparr>breaks := (breaks d)[i := f (breaks d ! i)]\<rparr>) s"

text \<open>\<open>PTRACE_SINGLESTEP\<close> followed by \<open>waitpid(pid, 0, 0)\<close>, as planting does it.\<close>

definition step_over :: "'k host \<Rightarrow> 'k sys \<Rightarrow> 'k sys res" where
  "step_over H s =
     (let (ok, k1) = h_singlestep H (pid (sdb s)) (os s);
          (w, k2) = h_waitpid H (pid (sdb s)) k1
      in case w of
           Waited st \<Rightarrow> Inr (s\<lparr>os := k2\<rparr>)
         | Wait_Error \<Rightarrow> Inr (puts ''Failed to wait'' (s\<lparr>os := k2\<rparr>))
         | Wait_Blocks \<Rightarrow> Inl Blocked)"

text \<open>The loop body of \<open>sdb_patch_all_bp\<close>; \<open>plant_word\<close> is its part after the single step.\<close>

definition plant_word :: "'k host \<Rightarrow> nat \<Rightarrow> u64 \<Rightarrow> 'k sys \<Rightarrow> 'k sys flow res" where
  "plant_word H i addr s =
     (let word = peek_value H (pid (sdb s)) addr (os s) in
      if word AND 0xff = 0xcc then Inr (Next s)
      else
        (let s1 = set_bp i (\<lambda>b. b\<lparr>original_word := word\<rparr>) s;
             (ok, k) = h_poke H (pid (sdb s)) addr ((word AND 0xffffffffffffff00) OR 0xcc) (os s1);
             s2 = s1\<lparr>os := k\<rparr>
         in if ok then Inr (Next s2)
            else Inr (Return (puts ''failed to patch the code'' s2))))"

definition patch_bp :: "'k host \<Rightarrow> nat \<Rightarrow> 'k sys \<Rightarrow> 'k sys flow res" where
  "patch_bp H i s =
     thenR (index_at (breaks (sdb s)) i) (\<lambda>bp.
       if \<not> is_used bp then Inr (Next s)
       else thenR (live_addr H s (bp_addr bp)) (\<lambda>addr.
            thenR (need Uninit_Read (h_getregs H (pid (sdb s)) (os s))) (\<lambda>regs.
            thenR (if rip regs = addr then step_over H s else Inr s) (plant_word H i addr))))"

definition sdb_patch_all_bp :: "'k host \<Rightarrow> 'k sys \<Rightarrow> 'k sys res" where
  "sdb_patch_all_bp H s =
     thenR (for_upto (patch_bp H) 0 MAX_BREAK s) (\<lambda>r. Inr (flow_state r))"

text \<open>Skipping an \<open>0x\<close>: the code looks at the second character only.\<close>

definition skip_0x :: "string \<Rightarrow> string res" where
  "skip_0x s =
     (if s = [] then Inl Out_Of_Bounds
      else if 2 \<le> length s \<and> s ! 1 = CHR ''x'' then Inr (drop 2 s) else Inr s)"

text \<open>The search loop for a free entry; \<open>None\<close> leaves the pointer \<open>bp\<close> unassigned.\<close>

definition first_free :: "bp_t list \<Rightarrow> nat option" where
  "first_free bs = find (\<lambda>i. \<not> is_used (bs ! i)) [0..<MAX_BREAK]"

definition sdb_set_break :: "'k host \<Rightarrow> string \<Rightarrow> 'k sys \<Rightarrow> 'k sys res" where
  "sdb_set_break H addr_str s =
     (if \<not> sdb_is_loaded (sdb s) then Inr (puts ''No program loaded'' s)
      else thenR (skip_0x addr_str) (\<lambda>str.
           thenR (need Uninit_Read (scan_llx str)) (\<lambda>addr.
           thenR (need Uninit_Read (first_free (breaks (sdb s)))) (\<lambda>i.
             let s1 = set_bp i (\<lambda>b. b\<lparr>is_used := True, bp_addr := addr\<rparr>) s
             in if sdb_is_running (sdb s1) then sdb_patch_all_bp H s1 else Inr s1))))"

definition list_line :: "nat \<Rightarrow> bp_t \<Rightarrow> string" where
  "list_line i bp = pad_left (CHR '' '') 4 (show_d (int i)) @ '': '' @ show_llx (bp_addr bp) @ newline"

definition list_lines :: "bp_t list \<Rightarrow> string list" where
  "list_lines bs = map (\<lambda>i. list_line i (bs ! i)) (filter (\<lambda>i. is_used (bs ! i)) [0..<MAX_BREAK])"

definition sdb_list :: "'k sys \<Rightarrow> 'k sys" where
  "sdb_list s = fold (\<lambda>l. printf l) (list_lines (breaks (sdb s))) s"

definition sdb_delete :: "'k host \<Rightarrow> int \<Rightarrow> 'k sys \<Rightarrow> 'k sys" where
  "sdb_delete H index s =
     (if 0 \<le> index \<and> index < int MAX_BREAK \<and> is_used (breaks (sdb s) ! nat index) then
        (let bp = breaks (sdb s) ! nat index;
             word = peek_value H (pid (sdb s)) (bp_addr bp) (os s);
             s1 = (if word AND 0xff = 0xcc
                   then s\<lparr>os := snd (h_poke H (pid (sdb s)) (bp_addr bp) (original_word bp) (os s))\<rparr>
                   else s);
             s2 = set_bp (nat index) (\<lambda>b. b\<lparr>is_used := False\<rparr>) s1
         in printf (''** breakpoint '' @ show_d index @ '' deleted.'' @ newline) s2)
      else s)"

subsection \<open>Frames\<close>

lemma set_bp_simps [simp]:
  "os (set_bp i f s) = os s" "out (set_bp i f s) = out s" "released (set_bp i f s) = released s"
  "pid (sdb (set_bp i f s)) = pid (sdb s)" "eh (sdb (set_bp i f s)) = eh (sdb s)"
  "path (sdb (set_bp i f s)) = path (sdb s)" "strtab (sdb (set_bp i f s)) = strtab (sdb s)"
  "last_disasm_addr (sdb (set_bp i f s)) = last_disasm_addr (sdb s)"
  "breaks (sdb (set_bp i f s)) = (breaks (sdb s))[i := f (breaks (sdb s) ! i)]"
  by (simp_all add: set_bp_def)

text \<open>
  What every step of planting leaves alone: the table's ids and addresses, and all of the
  debugger's other fields.
\<close>

definition same_bp :: "bp_t \<Rightarrow> bp_t \<Rightarrow> bool" where
  "same_bp b b' \<longleftrightarrow> is_used b' = is_used b \<and> bp_addr b' = bp_addr b"

definition same_table :: "SDB \<Rightarrow> SDB \<Rightarrow> bool" where
  "same_table d d' \<longleftrightarrow> eh d' = eh d \<and> strtab d' = strtab d \<and> path d' = path d \<and> pid d' = pid d \<and>
     last_disasm_addr d' = last_disasm_addr d \<and> list_all2 same_bp (breaks d) (breaks d')"

lemma same_table_refl [simp]: "same_table d d"
  by (simp add: same_table_def list_all2_refl same_bp_def)

lemma same_table_trans: "same_table a b \<Longrightarrow> same_table b c \<Longrightarrow> same_table a c"
  by (auto simp: same_table_def same_bp_def list_all2_conv_all_nth)

lemma same_table_bp_table: "same_table d d' \<Longrightarrow> bp_table d' = bp_table d"
  by (auto simp: same_table_def bp_table_def same_bp_def list_all2_conv_all_nth fun_eq_iff)

lemma same_table_wf: "same_table d d' \<Longrightarrow> wf_sdb d' = wf_sdb d"
  by (auto simp: same_table_def wf_sdb_def dest: list_all2_lengthD)

lemma same_table_set_word: "same_table (sdb s) (sdb (set_bp i (\<lambda>b. b\<lparr>original_word := w\<rparr>) s))"
proof -
  let ?bs = "breaks (sdb s)" and ?f = "\<lambda>b :: bp_t. b\<lparr>original_word := w\<rparr>"
  have "list_all2 same_bp ?bs (?bs[i := ?f (?bs ! i)])"
    by (cases "i < length ?bs") (auto simp: list_all2_conv_all_nth nth_list_update same_bp_def)
  then show ?thesis by (simp add: same_table_def)
qed

lemma step_over_sdb: "step_over H s = Inr s' \<Longrightarrow> sdb s' = sdb s"
  by (auto simp: step_over_def split: prod.splits wait_result.splits)

lemma plant_word_same_table:
  assumes "plant_word H i a s = Inr r"
  shows "same_table (sdb s) (sdb (flow_state r))"
  using assms same_table_set_word [of s i "peek_value H (pid (sdb s)) a (os s)"]
  by (auto simp: plant_word_def Let_def split: prod.splits if_splits)

lemma patch_bp_same_table:
  assumes "patch_bp H i s = Inr r"
  shows "same_table (sdb s) (sdb (flow_state r))"
proof -
  have "same_table (sdb s) (sdb (flow_state r))"
    if "s1 = s \<or> step_over H s = Inr s1" "plant_word H i a s1 = Inr r" for s1 a
    using that(1) plant_word_same_table [OF that(2)] by (auto dest: step_over_sdb)
  then show ?thesis
    using assms by (fastforce simp: patch_bp_def thenR_eq_Inr split: if_splits)
qed

lemma sdb_patch_all_bp_same_table:
  assumes "sdb_patch_all_bp H s = Inr s'"
  shows "same_table (sdb s) (sdb s')"
proof -
  obtain r where r: "for_upto (patch_bp H) 0 MAX_BREAK s = Inr r" and s': "s' = flow_state r"
    using assms by (auto simp: sdb_patch_all_bp_def thenR_eq_Inr)
  have "same_table (sdb s) (sdb (flow_state r))"
    by (rule for_upto_invariant [OF r, of "\<lambda>t. same_table (sdb s) (sdb t)"])
       (auto intro: same_table_trans dest: patch_bp_same_table)
  then show ?thesis by (simp add: s')
qed

subsection \<open>What planting does to the memory\<close>

text \<open>The address entry \<open>i\<close> stands for, and the addresses of the entries below \<open>n\<close>.\<close>

definition live_of :: "'k host \<Rightarrow> 'k sys \<Rightarrow> nat \<Rightarrow> u64" where
  "live_of H s i = (case live_addr H s (bp_addr (breaks (sdb s) ! i)) of Inl _ \<Rightarrow> 0 | Inr a \<Rightarrow> a)"

definition used_at :: "'k sys \<Rightarrow> nat \<Rightarrow> bool" where
  "used_at s i \<longleftrightarrow> is_used (breaks (sdb s) ! i)"

definition planted :: "'k host \<Rightarrow> 'k sys \<Rightarrow> nat \<Rightarrow> u64 set" where
  "planted H s n = live_of H s ` {i. i < n \<and> used_at s i}"

lemma planted_0 [simp]: "planted H s 0 = {}"
  by (simp add: planted_def)

lemma planted_Suc:
  "planted H s (Suc n) = (if used_at s n then insert (live_of H s n) (planted H s n) else planted H s n)"
  by (auto simp: planted_def less_Suc_eq)

text \<open>
  The entries that planting can handle: the address can be computed and lies in mapped
  memory.  \<open>not_standing_at\<close>: the process answers and is not stopped at any of the
  breakpoints from \<open>n\<close> on.
\<close>

definition entry_live :: "'k host \<Rightarrow> mem \<Rightarrow> 'k sys \<Rightarrow> bool" where
  "entry_live H m s \<longleftrightarrow> wf_sdb (sdb s) \<and> (\<forall>i<MAX_BREAK. used_at s i \<longrightarrow>
     live_addr H s (bp_addr (breaks (sdb s) ! i)) = Inr (live_of H s i) \<and> mapped_word m (live_of H s i))"

definition not_standing_at :: "'k host \<Rightarrow> 'k sys \<Rightarrow> 'k \<Rightarrow> nat \<Rightarrow> bool" where
  "not_standing_at H s k i \<longleftrightarrow>
     (\<exists>regs. h_getregs H (pid (sdb s)) k = Some regs \<and> (used_at s i \<longrightarrow> rip regs \<noteq> live_of H s i))"

text \<open>The word saved for entry \<open>i\<close>: what is there when its turn comes.\<close>

definition saved_word :: "'k host \<Rightarrow> mem \<Rightarrow> 'k sys \<Rightarrow> nat \<Rightarrow> u64" where
  "saved_word H m s i =
     (let mi = with_int3 (planted H s i) m; a = live_of H s i in
      if mi a = Some 0xcc then original_word (breaks (sdb s) ! i) else the (read_word mi a))"

text \<open>
  The state after \<open>n\<close> iterations on \<open>s\<close>; \<open>k\<close> is the system whose registers the process
  still has.
\<close>

definition patched_to :: "'k host \<Rightarrow> mem \<Rightarrow> 'k sys \<Rightarrow> 'k \<Rightarrow> nat \<Rightarrow> 'k sys \<Rightarrow> bool" where
  "patched_to H m s k n t \<longleftrightarrow>
     same_table (sdb s) (sdb t) \<and> out t = out s \<and> released t = released s \<and>
     h_getregs H (pid (sdb s)) (os t) = h_getregs H (pid (sdb s)) k \<and>
     h_maps H (pid (sdb s)) (os t) = h_maps H (pid (sdb s)) (os s) \<and>
     (\<forall>i<MAX_BREAK. breaks (sdb t) ! i =
        (if i < n \<and> used_at s i
         then (breaks (sdb s) ! i)\<lparr>original_word := saved_word H m s i\<rparr> else breaks (sdb s) ! i))"

lemma bp_same_word [simp]: "b\<lparr>original_word := original_word b\<rparr> = (b :: bp_t)"
  by simp

lemma patched_to_Suc_same:
  assumes "patched_to H m s k n t" "\<not> used_at s n \<or> saved_word H m s n = original_word (breaks (sdb s) ! n)"
  shows "patched_to H m s k (Suc n) t"
  using assms by (auto simp: patched_to_def less_Suc_eq)

lemma patched_to_0: "patched_to H m s (os s) 0 s"
  by (simp add: patched_to_def)

lemma used_at_same: "same_table (sdb s) (sdb t) \<Longrightarrow> i < length (breaks (sdb s)) \<Longrightarrow> used_at t i = used_at s i"
  by (simp add: used_at_def same_table_def list_all2_conv_all_nth same_bp_def)

context ptrace_host
begin

lemma plant_word_step:
  assumes live: "entry_live H m s" and i: "i < MAX_BREAK" "used_at s i"
    and pt: "patched_to H m s k i t" and mem: "mem_of (pid (sdb s)) (os t) = with_int3 (planted H s i) m"
  shows "\<exists>t'. plant_word H i (live_of H s i) t = Inr (Next t') \<and> patched_to H m s k (Suc i) t' \<and>
           mem_of (pid (sdb s)) (os t') = with_int3 (planted H s (Suc i)) m"
proof -
  let ?a = "live_of H s i" and ?mi = "with_int3 (planted H s i) m"
  have st: "same_table (sdb s) (sdb t)" using pt by (simp add: patched_to_def)
  then have pid: "pid (sdb t) = pid (sdb s)" by (simp add: same_table_def)
  have len: "length (breaks (sdb t)) = MAX_BREAK" "length (breaks (sdb s)) = MAX_BREAK"
    using live st same_table_wf [OF st] by (simp_all add: entry_live_def wf_sdb_def)
  have mp: "mapped_word m ?a" using live i by (simp add: entry_live_def)
  then have mpt: "mapped_word (mem_of (pid (sdb s)) (os t)) ?a" by (simp add: mem mapped_with_int3)
  let ?w = "peek_value H (pid (sdb s)) ?a (os t)"
  have rw: "read_word ?mi ?a = Some ?w" using peek_value_mapped [OF mpt] by (simp add: mem)
  have low: "?w AND 0xff = 0xcc \<longleftrightarrow> ?mi ?a = Some 0xcc"
    using read_word_byte [OF rw] by (simp add: low_byte_eq)
  show ?thesis
  proof (cases "?mi ?a = Some 0xcc")
    case True
    then have "plant_word H i ?a t = Inr (Next t)"
      using low by (simp add: plant_word_def pid)
    moreover have "patched_to H m s k (Suc i) t"
      using True by (intro patched_to_Suc_same [OF pt]) (simp add: saved_word_def)
    ultimately show ?thesis using True mem i(2) by (simp add: planted_Suc with_int3_same)
  next
    case False
    define t1 where "t1 = set_bp i (\<lambda>b. b\<lparr>original_word := ?w\<rparr>) t"
    define t' where "t' = t1\<lparr>os := snd (h_poke H (pid (sdb s)) ?a (set_low_byte ?w) (os t))\<rparr>"
    have ok: "fst (h_poke H (pid (sdb s)) ?a (set_low_byte ?w) (os t))" using mpt by (simp add: poke_ok)
    have "plant_word H i ?a t = Inr (Next t')"
      using low False ok
      by (simp add: plant_word_def pid t'_def t1_def set_low_byte_def split_beta Let_def)
    moreover have "patched_to H m s k (Suc i) t'"
      using pt i False rw len same_table_trans [OF st same_table_set_word [of t i ?w]]
      by (auto simp: patched_to_def t'_def t1_def pid poke_regs poke_maps saved_word_def less_Suc_eq nth_list_update)
    moreover have "mem_of (pid (sdb s)) (os t') = with_int3 (planted H s (Suc i)) m"
      using poke_int3 [OF mpt] i(2) by (simp add: t'_def mem planted_Suc with_int3_insert)
    ultimately show ?thesis by blast
  qed
qed

lemma live_addr_patched:
  assumes "entry_live H m s" "i < MAX_BREAK" "used_at s i" "patched_to H m s k i t"
  shows "index_at (breaks (sdb t)) i = Inr (breaks (sdb s) ! i)"
    and "live_addr H t (bp_addr (breaks (sdb s) ! i)) = Inr (live_of H s i)"
proof -
  have st: "same_table (sdb s) (sdb t)" using assms(4) by (simp add: patched_to_def)
  then show "index_at (breaks (sdb t)) i = Inr (breaks (sdb s) ! i)"
    using assms same_table_wf [OF st] by (simp add: patched_to_def entry_live_def wf_sdb_def)
  show "live_addr H t (bp_addr (breaks (sdb s) ! i)) = Inr (live_of H s i)"
    using live_addr_cong [of H t s] assms st by (simp add: patched_to_def same_table_def entry_live_def)
qed

lemma patch_bp_step:
  assumes can: "entry_live H m s" "not_standing_at H s k i" and i: "i < MAX_BREAK"
    and pt: "patched_to H m s k i t" and mem: "mem_of (pid (sdb s)) (os t) = with_int3 (planted H s i) m"
  shows "\<exists>t'. patch_bp H i t = Inr (Next t') \<and> patched_to H m s k (Suc i) t' \<and>
           mem_of (pid (sdb s)) (os t') = with_int3 (planted H s (Suc i)) m"
proof (cases "used_at s i")
  case False
  have st: "same_table (sdb s) (sdb t)" using pt by (simp add: patched_to_def)
  then have "index_at (breaks (sdb t)) i = Inr (breaks (sdb s) ! i)"
    using pt i can same_table_wf [OF st] by (simp add: patched_to_def entry_live_def wf_sdb_def)
  with False patched_to_Suc_same [OF pt] mem show ?thesis
    by (auto simp: patch_bp_def planted_Suc used_at_def)
next
  case True
  obtain regs where regs: "h_getregs H (pid (sdb s)) (os t) = Some regs" "rip regs \<noteq> live_of H s i"
    using can(2) True pt by (auto simp: not_standing_at_def patched_to_def)
  moreover have "pid (sdb t) = pid (sdb s)" using pt by (simp add: patched_to_def same_table_def)
  ultimately have "patch_bp H i t = plant_word H i (live_of H s i) t"
    using live_addr_patched [OF can(1) i True pt] True by (simp add: patch_bp_def used_at_def)
  with plant_word_step [OF can(1) i True pt mem] show ?thesis by simp
qed

lemma patch_range:
  assumes "entry_live H m s" "\<And>j. i \<le> j \<Longrightarrow> j < i + n \<Longrightarrow> not_standing_at H s k j" "i + n \<le> MAX_BREAK"
    and "patched_to H m s k i t" "mem_of (pid (sdb s)) (os t) = with_int3 (planted H s i) m"
  shows "\<exists>t'. for_upto (patch_bp H) i n t = Inr (Next t') \<and> patched_to H m s k (i + n) t' \<and>
           mem_of (pid (sdb s)) (os t') = with_int3 (planted H s (i + n)) m"
  by (rule for_upto_total [of "\<lambda>i t. patched_to H m s k i t \<and>
           mem_of (pid (sdb s)) (os t) = with_int3 (planted H s i) m"])
     (use assms in \<open>auto intro: patch_bp_step\<close>)

lemma patch_all:
  assumes "entry_live H (mem_of (pid (sdb s)) (os s)) s" "\<forall>i<MAX_BREAK. not_standing_at H s (os s) i"
  shows "\<exists>t. sdb_patch_all_bp H s = Inr t \<and>
           patched_to H (mem_of (pid (sdb s)) (os s)) s (os s) MAX_BREAK t \<and>
           mem_of (pid (sdb s)) (os t) =
             with_int3 (planted H s MAX_BREAK) (mem_of (pid (sdb s)) (os s))"
  using patch_range [OF assms(1), of 0 MAX_BREAK "os s" s] assms(2)
  by (auto simp: sdb_patch_all_bp_def patched_to_0)

end

text \<open>
  C6: planting, whatever the breakpoints.  On a process that answers and is not stopped
  at a breakpoint, with every breakpoint in mapped memory, \<open>sdb_patch_all_bp\<close> ends without
  an error; afterwards the memory differs from before in exactly the breakpoint
  addresses, which hold \<open>0xcc\<close>, and the table, the registers and the output are as before.
\<close>

theorem patch_all_plants:
  assumes "ptrace_host H mem_of" "entry_live H (mem_of (pid (sdb s)) (os s)) s"
    and "\<forall>i<MAX_BREAK. not_standing_at H s (os s) i"
  shows "\<exists>t. sdb_patch_all_bp H s = Inr t \<and> same_table (sdb s) (sdb t) \<and> out t = out s \<and>
           h_getregs H (pid (sdb s)) (os t) = h_getregs H (pid (sdb s)) (os s) \<and>
           mem_of (pid (sdb s)) (os t) =
             (\<lambda>x. if \<exists>i<MAX_BREAK. used_at s i \<and> x = live_of H s i then Some 0xcc
                  else mem_of (pid (sdb s)) (os s) x)"
proof -
  have "x \<in> planted H s MAX_BREAK \<longleftrightarrow> (\<exists>i<MAX_BREAK. used_at s i \<and> x = live_of H s i)" for x
    by (auto simp: planted_def)
  with ptrace_host.patch_all [OF assms] show ?thesis
    by (auto simp: patched_to_def with_int3_def fun_eq_iff)
qed

subsection \<open>Breakpoints that do not overlap\<close>

text \<open>
  \<open>ptrace\<close> reads and writes eight bytes, so two breakpoints closer than that share
  memory words.  Where no two do, the saved words are the original code.
\<close>

definition separated :: "'k host \<Rightarrow> 'k sys \<Rightarrow> bool" where
  "separated H s \<longleftrightarrow> (\<forall>i<MAX_BREAK. \<forall>k<MAX_BREAK. used_at s i \<and> used_at s k \<and> i \<noteq> k \<longrightarrow>
     \<not> live_of H s k - live_of H s i < 8)"

definition clean_code :: "'k host \<Rightarrow> mem \<Rightarrow> 'k sys \<Rightarrow> bool" where
  "clean_code H m s \<longleftrightarrow> (\<forall>i<MAX_BREAK. used_at s i \<longrightarrow> m (live_of H s i) \<noteq> Some 0xcc)"

text \<open>
  The entries whose breakpoint is in \<open>A\<close> have saved the code of the memory \<open>m\<close>.
\<close>

definition armed :: "'k host \<Rightarrow> mem \<Rightarrow> u64 set \<Rightarrow> 'k sys \<Rightarrow> bool" where
  "armed H m A s \<longleftrightarrow> (\<forall>i<MAX_BREAK. used_at s i \<and> live_of H s i \<in> A \<longrightarrow>
     read_word m (live_of H s i) = Some (original_word (breaks (sdb s) ! i)))"

text \<open>
  The debugged process: its memory is the memory \<open>m\<close> it would have without the debugger,
  except for breakpoint instructions at \<open>A\<close>, and the table can undo them.
\<close>

definition well_placed :: "'k host \<Rightarrow> mem \<Rightarrow> 'k sys \<Rightarrow> bool" where
  "well_placed H m s \<longleftrightarrow> entry_live H m s \<and> separated H s \<and> clean_code H m s"

definition debugged :: "'k host \<Rightarrow> (int \<Rightarrow> 'k \<Rightarrow> mem) \<Rightarrow> mem \<Rightarrow> u64 set \<Rightarrow> 'k sys \<Rightarrow> bool" where
  "debugged H mem_of m A s \<longleftrightarrow> mem_of (pid (sdb s)) (os s) = with_int3 A m \<and>
     A \<subseteq> planted H s MAX_BREAK \<and> well_placed H m s \<and> armed H m A s"

lemma with_int3_Un: "with_int3 A (with_int3 B m) = with_int3 (A \<union> B) m"
  by (auto simp: with_int3_def)

lemma with_int3_remove:
  assumes "\<And>j. 0 < j \<Longrightarrow> j < 8 \<Longrightarrow> a + of_nat j \<notin> A" and "read_word m a = Some w"
  shows "write_word (with_int3 A m) a w = with_int3 (A - {a}) m"
proof (rule write_word_restore)
  show "read_word (with_int3 (A - {a}) m) a = Some w"
    unfolding read_word_eq_Some
  proof (intro allI impI)
    fix j :: nat assume j: "j < 8"
    have "a + of_nat j \<notin> A - {a}" using assms(1) [of j] j by (cases "j = 0") auto
    then have "with_int3 (A - {a}) m (a + of_nat j) = m (a + of_nat j)"
      unfolding with_int3_def by (simp only: if_False)
    also have "\<dots> = Some (byte_at w j)" using assms(2) j by (simp add: read_word_eq_Some)
    finally show "with_int3 (A - {a}) m (a + of_nat j) = Some (byte_at w j)" .
  qed
  show "with_int3 A m x = with_int3 (A - {a}) m x" if "\<not> x - a < 8" for x
    using that by (auto simp: with_int3_def)
qed

lemma planted_window:
  assumes "separated H s" "i < MAX_BREAK" "used_at s i" "j < 8"
    and "live_of H s i + of_nat j \<in> planted H s MAX_BREAK"
  shows "j = 0"
proof -
  obtain k where k: "k < MAX_BREAK" "used_at s k" "live_of H s i + of_nat j = live_of H s k"
    using assms(5) by (auto simp: planted_def)
  have "live_of H s k - live_of H s i < 8" using k(3) assms(4) by (simp add: offset_lt8_iff) metis
  then have "k = i" using assms(1-3) k(1,2) by (auto simp: separated_def)
  then show ?thesis using k(3) unat_of_nat_small [OF assms(4)] by auto
qed

lemma planted_mono: "n \<le> MAX_BREAK \<Longrightarrow> planted H s n \<subseteq> planted H s MAX_BREAK"
  by (auto simp: planted_def)

lemma not_planted_before:
  assumes "separated H s" "i < MAX_BREAK" "used_at s i"
  shows "live_of H s i \<notin> planted H s i"
proof
  assume "live_of H s i \<in> planted H s i"
  then obtain k where k: "k < i" "used_at s k" "live_of H s k = live_of H s i" by (auto simp: planted_def)
  then have "live_of H s i - live_of H s k < 8" "k < MAX_BREAK" "k \<noteq> i" using assms(2) by simp_all
  with assms k(2) show False unfolding separated_def by blast
qed

text \<open>What planting saves is the program's own code.\<close>

lemma saved_word_program:
  assumes place: "well_placed H m s" and i: "i < MAX_BREAK" "used_at s i"
    and B: "B \<subseteq> planted H s MAX_BREAK" "armed H m B s"
  shows "read_word m (live_of H s i) = Some (saved_word H (with_int3 B m) s i)"
proof -
  let ?a = "live_of H s i" and ?A = "planted H s i \<union> B"
  have sep: "separated H s" and mp: "mapped_word m ?a" and clean: "m ?a \<noteq> Some 0xcc"
    using place i by (simp_all add: well_placed_def entry_live_def clean_code_def)
  have A: "?A \<subseteq> planted H s MAX_BREAK" using planted_mono [of i H s] B(1) i(1) by auto
  have iff: "with_int3 ?A m ?a = Some 0xcc \<longleftrightarrow> ?a \<in> B"
    using not_planted_before [OF sep i] clean by (simp add: with_int3_def)
  show ?thesis
  proof (cases "?a \<in> B")
    case True
    with iff B(2) i show ?thesis by (simp add: saved_word_def with_int3_Un armed_def)
  next
    case False
    have win: "with_int3 ?A m (?a + of_nat j) = m (?a + of_nat j)" if "j < 8" for j
    proof -
      have "?a + of_nat j \<notin> ?A"
      proof
        assume "?a + of_nat j \<in> ?A"
        with A planted_window [OF sep i that] have "j = 0" "?a + of_nat j \<in> ?A" by auto
        with False not_planted_before [OF sep i] show False by simp
      qed
      then show ?thesis by (simp add: with_int3_def)
    qed
    then have "read_word (with_int3 ?A m) ?a = read_word m ?a" by (rule read_word_cong)
    with False iff mp show ?thesis by (simp add: saved_word_def with_int3_Un read_word_def)
  qed
qed

lemma same_table_live:
  assumes "same_table (sdb s) (sdb t)" "wf_sdb (sdb s)"
    and "h_maps H (pid (sdb s)) (os t) = h_maps H (pid (sdb s)) (os s)" "i < MAX_BREAK"
  shows "used_at t i = used_at s i" "bp_addr (breaks (sdb t) ! i) = bp_addr (breaks (sdb s) ! i)"
    "live_addr H t a = live_addr H s a" "live_of H t i = live_of H s i"
proof -
  have b: "same_bp (breaks (sdb s) ! i) (breaks (sdb t) ! i)"
    using assms by (simp add: same_table_def wf_sdb_def list_all2_conv_all_nth)
  then show "used_at t i = used_at s i" "bp_addr (breaks (sdb t) ! i) = bp_addr (breaks (sdb s) ! i)"
    by (simp_all add: used_at_def same_bp_def)
  have "live_addr H t x = live_addr H s x" for x
    using live_addr_cong [of H t s] assms(1,3) by (simp add: same_table_def)
  then show "live_addr H t a = live_addr H s a" "live_of H t i = live_of H s i"
    using b by (simp_all add: live_of_def same_bp_def)
qed

lemma well_placed_same:
  assumes "same_table (sdb s) (sdb t)" "h_maps H (pid (sdb s)) (os t) = h_maps H (pid (sdb s)) (os s)"
    and "well_placed H m s"
  shows "well_placed H m t \<and> planted H t MAX_BREAK = planted H s MAX_BREAK"
proof -
  have wf: "wf_sdb (sdb s)" using assms(3) by (simp add: well_placed_def entry_live_def)
  note same = same_table_live [OF assms(1) wf assms(2)]
  have "well_placed H m t"
    using assms(3) same_table_wf [OF assms(1)]
    by (simp add: well_placed_def entry_live_def separated_def clean_code_def same)
  moreover have "planted H t MAX_BREAK = planted H s MAX_BREAK"
    unfolding planted_def using same by (intro image_cong) auto
  ultimately show ?thesis by simp
qed

text \<open>
  The words of the breakpoints, in two memories of the program: the code there is the same.
\<close>

definition same_code :: "'k host \<Rightarrow> 'k sys \<Rightarrow> mem \<Rightarrow> mem \<Rightarrow> bool" where
  "same_code H s m m' \<longleftrightarrow> (\<forall>i<MAX_BREAK. used_at s i \<longrightarrow>
     (\<forall>j<8. m' (live_of H s i + of_nat j) = m (live_of H s i + of_nat j)))"

lemma same_code_refl [simp]: "same_code H s m m"
  by (simp add: same_code_def)

lemma same_code_read:
  "same_code H s m m' \<Longrightarrow> i < MAX_BREAK \<Longrightarrow> used_at s i \<Longrightarrow>
     read_word m' (live_of H s i) = read_word m (live_of H s i)"
  by (rule read_word_cong) (simp add: same_code_def)

lemma same_code_mapped:
  "same_code H s m m' \<Longrightarrow> i < MAX_BREAK \<Longrightarrow> used_at s i \<Longrightarrow>
     mapped_word m' (live_of H s i) = mapped_word m (live_of H s i)"
  by (simp add: same_code_def mapped_word_iff)

lemma same_code_byte:
  assumes "same_code H s m m'" "i < MAX_BREAK" "used_at s i"
  shows "m' (live_of H s i) = m (live_of H s i)"
proof -
  have "m' (live_of H s i + of_nat 0) = m (live_of H s i + of_nat 0)"
    using assms unfolding same_code_def by (metis zero_less_numeral)
  then show ?thesis by simp
qed

lemma same_code_placed: "same_code H s m m' \<Longrightarrow> well_placed H m s \<Longrightarrow> well_placed H m' s"
  by (simp add: well_placed_def entry_live_def clean_code_def same_code_mapped same_code_byte)

lemma same_code_armed: "same_code H s m m' \<Longrightarrow> armed H m A s \<Longrightarrow> armed H m' A s"
  by (simp add: armed_def same_code_read)

context ptrace_host
begin

lemma patched_debugged:
  assumes place: "well_placed H m s" and B: "B \<subseteq> planted H s MAX_BREAK" "armed H m B s"
    and pt: "patched_to H (with_int3 B m) s k MAX_BREAK t"
    and mem: "mem_of (pid (sdb s)) (os t) = with_int3 (planted H s MAX_BREAK) (with_int3 B m)"
  shows "debugged H mem_of m (planted H t MAX_BREAK) t"
proof -
  have st: "same_table (sdb s) (sdb t)" and maps: "h_maps H (pid (sdb s)) (os t) = h_maps H (pid (sdb s)) (os s)"
    using pt by (simp_all add: patched_to_def)
  have wf: "wf_sdb (sdb s)" using place by (simp add: well_placed_def entry_live_def)
  note placed = well_placed_same [OF st maps place] and same = same_table_live [OF st wf maps]
  have "planted H s MAX_BREAK \<union> B = planted H s MAX_BREAK" using B(1) by blast
  moreover have "pid (sdb t) = pid (sdb s)" using st by (simp add: same_table_def)
  moreover have "armed H m (planted H t MAX_BREAK) t"
    using pt by (simp add: armed_def same saved_word_program [OF place _ _ B] patched_to_def)
  ultimately show ?thesis using mem placed by (simp add: debugged_def with_int3_Un)
qed

lemma entry_live_with_int3: "entry_live H m s \<Longrightarrow> entry_live H (with_int3 B m) s"
  by (simp add: entry_live_def mapped_with_int3)

lemma patch_debugged:
  assumes deb: "debugged H mem_of m B s" and away: "\<forall>i<MAX_BREAK. not_standing_at H s (os s) i"
  shows "\<exists>t. sdb_patch_all_bp H s = Inr t \<and> same_table (sdb s) (sdb t) \<and> out t = out s \<and>
           h_getregs H (pid (sdb s)) (os t) = h_getregs H (pid (sdb s)) (os s) \<and>
           h_maps H (pid (sdb s)) (os t) = h_maps H (pid (sdb s)) (os s) \<and>
           debugged H mem_of m (planted H t MAX_BREAK) t"
proof -
  have place: "well_placed H m s" and mem: "mem_of (pid (sdb s)) (os s) = with_int3 B m"
    and B: "B \<subseteq> planted H s MAX_BREAK" "armed H m B s"
    using deb by (simp_all add: debugged_def)
  have "entry_live H (with_int3 B m) s"
    using place by (simp add: well_placed_def entry_live_with_int3)
  with patch_all [of s] away mem obtain t where t: "sdb_patch_all_bp H s = Inr t"
      "patched_to H (with_int3 B m) s (os s) MAX_BREAK t"
      "mem_of (pid (sdb s)) (os t) = with_int3 (planted H s MAX_BREAK) (with_int3 B m)"
    by auto
  with patched_debugged [OF place B t(2,3)] show ?thesis
    by (simp add: patched_to_def)
qed

end

text \<open>
  The event "one instruction of the program is executed", as \<open>PTRACE_SINGLESTEP\<close> and the
  wait after it report it, on a system \<open>k\<close> with breakpoints at \<open>A\<close>: the program's memory is
  then \<open>m'\<close> and its registers \<open>regs'\<close>.
\<close>

definition steps_to ::
  "'k host \<Rightarrow> (int \<Rightarrow> 'k \<Rightarrow> mem) \<Rightarrow> int \<Rightarrow> 'k \<Rightarrow> u64 set \<Rightarrow> mem \<Rightarrow> user_regs \<Rightarrow> bool" where
  "steps_to H mem_of p k A m' regs' \<longleftrightarrow>
     (\<exists>ok st k1 k2. h_singlestep H p k = (ok, k1) \<and> h_waitpid H p k1 = (Waited st, k2) \<and>
        mem_of p k2 = with_int3 A m' \<and> h_getregs H p k2 = Some regs' \<and> h_maps H p k2 = h_maps H p k)"

context ptrace_host
begin

lemma step_patched:
  assumes place: "well_placed H m s" and B: "B \<subseteq> planted H s MAX_BREAK" "armed H m B s"
    and code: "same_code H s m m'" and i: "i < MAX_BREAK"
    and pt: "patched_to H (with_int3 B m) s k i t"
    and k2: "h_maps H (pid (sdb s)) k2 = h_maps H (pid (sdb s)) (os t)"
  shows "patched_to H (with_int3 B m') s k2 i (t\<lparr>os := k2\<rparr>)"
proof -
  have "saved_word H (with_int3 B m') s j = saved_word H (with_int3 B m) s j"
    if "j < MAX_BREAK" "used_at s j" for j
    using saved_word_program [OF place that B] same_code_read [OF code that]
      saved_word_program [OF same_code_placed [OF code place] that B(1) same_code_armed [OF code B(2)]]
    by simp
  with pt k2 show ?thesis by (auto simp: patched_to_def)
qed

lemma patch_rearms:
  assumes deb: "debugged H mem_of m B s" and i: "i < MAX_BREAK" "used_at s i"
    and regs: "h_getregs H (pid (sdb s)) (os s) = Some regs" "rip regs = live_of H s i"
    and step: "\<And>t. for_upto (patch_bp H) 0 i s = Inr (Next t) \<Longrightarrow>
        steps_to H mem_of (pid (sdb s)) (os t) (planted H s i \<union> B) m' regs'"
    and code: "same_code H s m m'"
    and away: "\<And>j. i < j \<Longrightarrow> j < MAX_BREAK \<Longrightarrow> used_at s j \<Longrightarrow> rip regs' \<noteq> live_of H s j"
  shows "\<exists>t. sdb_patch_all_bp H s = Inr t \<and> same_table (sdb s) (sdb t) \<and> out t = out s \<and>
           h_getregs H (pid (sdb s)) (os t) = Some regs' \<and>
           h_maps H (pid (sdb s)) (os t) = h_maps H (pid (sdb s)) (os s) \<and>
           debugged H mem_of m' (planted H t MAX_BREAK) t"
proof -
  let ?p = "pid (sdb s)" and ?a = "live_of H s i"
  have place: "well_placed H m s" and mem: "mem_of ?p (os s) = with_int3 B m"
    and B: "B \<subseteq> planted H s MAX_BREAK" "armed H m B s"
    using deb by (simp_all add: debugged_def)
  have place': "well_placed H m' s" by (rule same_code_placed [OF code place])
  have live: "entry_live H (with_int3 B m) s" "entry_live H (with_int3 B m') s" and sep: "separated H s"
    using place place' by (simp_all add: well_placed_def entry_live_with_int3)
  have "not_standing_at H s (os s) j" if "j < i" for j
  proof -
    have "live_of H s j \<noteq> ?a" if "used_at s j"
    proof
      assume eq: "live_of H s j = ?a"
      have "live_of H s j \<in> planted H s i"
        unfolding planted_def using \<open>j < i\<close> that by (intro imageI) simp
      with not_planted_before [OF sep i] eq show False by simp
    qed
    with regs show ?thesis by (auto simp: not_standing_at_def)
  qed
  with patch_range [OF live(1), of 0 i "os s" s] mem i(1) obtain t where
      t: "for_upto (patch_bp H) 0 i s = Inr (Next t)" and pt: "patched_to H (with_int3 B m) s (os s) i t"
    by (auto simp: patched_to_0)
  obtain ok st k1 k2 where k2: "h_singlestep H ?p (os t) = (ok, k1)" "h_waitpid H ?p k1 = (Waited st, k2)"
      "mem_of ?p k2 = with_int3 (planted H s i \<union> B) m'" "h_getregs H ?p k2 = Some regs'"
      "h_maps H ?p k2 = h_maps H ?p (os t)"
    using step [OF t] unfolding steps_to_def by blast
  have pid: "pid (sdb t) = ?p" using pt by (simp add: patched_to_def same_table_def)
  have pt2: "patched_to H (with_int3 B m') s k2 i (t\<lparr>os := k2\<rparr>)"
    by (rule step_patched [OF place B code i(1) pt k2(5)])
  obtain t2 where t2: "plant_word H i ?a (t\<lparr>os := k2\<rparr>) = Inr (Next t2)"
      "patched_to H (with_int3 B m') s k2 (Suc i) t2"
      "mem_of ?p (os t2) = with_int3 (planted H s (Suc i)) (with_int3 B m')"
    using plant_word_step [OF live(2) i pt2] k2(3) by (auto simp: with_int3_Un)
  have "h_getregs H ?p (os t) = Some regs" using pt regs(1) by (simp add: patched_to_def)
  then have body: "patch_bp H i t = Inr (Next t2)"
    using live_addr_patched [OF live(1) i pt] i(2) regs(2) k2(1,2) t2(1)
    by (simp add: patch_bp_def used_at_def pid step_over_def)
  have "not_standing_at H s k2 j" if "Suc i \<le> j" "j < Suc i + (MAX_BREAK - Suc i)" for j
    using away [of j] that k2(4) by (auto simp: not_standing_at_def)
  with patch_range [OF live(2) _ _ t2(2,3), of "MAX_BREAK - Suc i"] i(1) obtain t3 where
      t3: "for_upto (patch_bp H) (Suc i) (MAX_BREAK - Suc i) t2 = Inr (Next t3)"
      "patched_to H (with_int3 B m') s k2 MAX_BREAK t3"
      "mem_of ?p (os t3) = with_int3 (planted H s MAX_BREAK) (with_int3 B m')"
    by auto
  have "for_upto (patch_bp H) 0 (i + Suc (MAX_BREAK - Suc i)) s = Inr (Next t3)"
    unfolding for_upto_split by (simp add: t body t3(1))
  then have "sdb_patch_all_bp H s = Inr t3" using i(1) by (simp add: sdb_patch_all_bp_def)
  moreover have "debugged H mem_of m' (planted H t3 MAX_BREAK) t3"
    by (rule patched_debugged [OF place' B(1) same_code_armed [OF code B(2)] t3(2,3)])
  ultimately show ?thesis using t3(2) k2(4) by (auto simp: patched_to_def)
qed

end


text \<open>
  planting over a debugged program.  Whatever part of the breakpoints is planted
  already, planting again leaves the program's own memory alone, plants them all and keeps
  the original code of every one saved; nothing is saved twice, so a breakpoint byte never
  becomes "original" code.
\<close>

theorem patch_all_keeps_program:
  assumes "ptrace_host H mem_of" "debugged H mem_of m B s"
    and "\<forall>i<MAX_BREAK. not_standing_at H s (os s) i"
  shows "\<exists>t. sdb_patch_all_bp H s = Inr t \<and> same_table (sdb s) (sdb t) \<and> out t = out s \<and>
           h_getregs H (pid (sdb s)) (os t) = h_getregs H (pid (sdb s)) (os s) \<and>
           debugged H mem_of m (planted H t MAX_BREAK) t"
  using ptrace_host.patch_debugged [OF assms] by blast

text \<open>
  planting from a breakpoint.  Where the process stands at breakpoint \<open>i\<close> (restored,
  so not planted), planting executes exactly one instruction of the program there and then
  plants all breakpoints, \<open>i\<close> included, over the program's new memory.
\<close>

theorem patch_all_rearms:
  assumes "ptrace_host H mem_of" "debugged H mem_of m B s" "i < MAX_BREAK" "used_at s i"
    and "h_getregs H (pid (sdb s)) (os s) = Some regs" "rip regs = live_of H s i"
    and "\<And>t. for_upto (patch_bp H) 0 i s = Inr (Next t) \<Longrightarrow>
        steps_to H mem_of (pid (sdb s)) (os t) (planted H s i \<union> B) m' regs'"
    and "same_code H s m m'"
    and "\<And>j. i < j \<Longrightarrow> j < MAX_BREAK \<Longrightarrow> used_at s j \<Longrightarrow> rip regs' \<noteq> live_of H s j"
  shows "\<exists>t. sdb_patch_all_bp H s = Inr t \<and> same_table (sdb s) (sdb t) \<and> out t = out s \<and>
           h_getregs H (pid (sdb s)) (os t) = Some regs' \<and>
           debugged H mem_of m' (planted H t MAX_BREAK) t"
  using ptrace_host.patch_rearms [OF assms(1,2,3,4,5,6,7,8,9)] by blast

subsection \<open>The table as a numbered store\<close>

text \<open>
  The interface the commands need from a table of numbered slots: inserting takes the
  least free number and fails only when there is none, removing frees a number, and
  neither touches another slot.
\<close>

locale slot_table =
  fixes lookup :: "'t \<Rightarrow> nat \<Rightarrow> 'v option"
    and insert_slot :: "'v \<Rightarrow> 't \<Rightarrow> (nat \<times> 't) option"
    and remove_slot :: "nat \<Rightarrow> 't \<Rightarrow> 't"
    and wf :: "'t \<Rightarrow> bool" and capacity :: nat
  assumes insert_Some: "wf t \<Longrightarrow> insert_slot v t = Some (i, t') \<Longrightarrow>
      i < capacity \<and> lookup t i = None \<and> (\<forall>j<i. lookup t j \<noteq> None) \<and>
      lookup t' = (lookup t)(i \<mapsto> v) \<and> wf t'"
    and insert_None: "wf t \<Longrightarrow> insert_slot v t = None \<Longrightarrow> i < capacity \<Longrightarrow> lookup t i \<noteq> None"
    and remove_lookup: "wf t \<Longrightarrow> lookup (remove_slot i t) = (lookup t)(i := None)"
    and remove_wf: "wf t \<Longrightarrow> wf (remove_slot i t)"
    and lookup_bound: "wf t \<Longrightarrow> lookup t i \<noteq> None \<Longrightarrow> i < capacity"
begin

lemma insert_fails_iff:
  assumes "wf t"
  shows "insert_slot v t = None \<longleftrightarrow> (\<forall>i<capacity. lookup t i \<noteq> None)"
proof
  assume "insert_slot v t = None"
  then show "\<forall>i<capacity. lookup t i \<noteq> None" using insert_None [OF assms] by blast
next
  assume full: "\<forall>i<capacity. lookup t i \<noteq> None"
  show "insert_slot v t = None"
  proof (rule ccontr)
    assume "insert_slot v t \<noteq> None"
    then obtain i t' where "insert_slot v t = Some (i, t')" by auto
    from insert_Some [OF assms this] full show False by blast
  qed
qed

lemma insert_remove:
  assumes "wf t" "insert_slot v t = Some (i, t')"
  shows "lookup (remove_slot i t') = lookup t"
  using insert_Some [OF assms] remove_lookup [of t' i] by (auto simp: fun_eq_iff)

lemma remove_insert:
  assumes "wf t" "lookup t i \<noteq> None"
  shows "\<exists>j t'. insert_slot v (remove_slot i t) = Some (j, t') \<and> j \<le> i"
proof -
  have w: "wf (remove_slot i t)" by (rule remove_wf [OF assms(1)])
  have free: "lookup (remove_slot i t) i = None" by (simp add: remove_lookup [OF assms(1)])
  have "i < capacity" by (rule lookup_bound [OF assms])
  with free insert_fails_iff [OF w] obtain j t' where j: "insert_slot v (remove_slot i t) = Some (j, t')"
    by fastforce
  with insert_Some [OF w j] free have "j \<le> i" by (meson not_le_imp_less)
  with j show ?thesis by blast
qed

lemma insert_domain:
  assumes "wf t" "insert_slot v t = Some (i, t')"
  shows "dom (lookup t') = insert i (dom (lookup t)) \<and> i \<notin> dom (lookup t)"
  using insert_Some [OF assms] by auto

end

text \<open>The debugger's table as such a store.\<close>

definition bp_insert :: "u64 \<Rightarrow> SDB \<Rightarrow> (nat \<times> SDB) option" where
  "bp_insert a d =
     map_option (\<lambda>i. (i, d\<lparr>breaks := (breaks d)[i := (breaks d ! i)\<lparr>is_used := True, bp_addr := a\<rparr>]\<rparr>))
       (first_free (breaks d))"

definition bp_remove :: "nat \<Rightarrow> SDB \<Rightarrow> SDB" where
  "bp_remove i d = d\<lparr>breaks := (breaks d)[i := (breaks d ! i)\<lparr>is_used := False\<rparr>]\<rparr>"

lemma first_free_Some:
  assumes "first_free bs = Some i"
  shows "i < MAX_BREAK \<and> \<not> is_used (bs ! i) \<and> (\<forall>j<i. is_used (bs ! j))"
  using assms unfolding first_free_def find_Some_iff by auto

lemma first_free_None: "first_free bs = None \<longleftrightarrow> (\<forall>i<MAX_BREAK. is_used (bs ! i))"
  by (auto simp: first_free_def find_None_iff)

interpretation bps: slot_table bp_table bp_insert bp_remove wf_sdb MAX_BREAK
proof unfold_locales
  fix d d' :: SDB and a i
  assume wf: "wf_sdb d"
  show "i < MAX_BREAK \<and> bp_table d i = None \<and> (\<forall>j<i. bp_table d j \<noteq> None) \<and>
      bp_table d' = (bp_table d)(i \<mapsto> a) \<and> wf_sdb d'" if "bp_insert a d = Some (i, d')"
    using that wf by (auto simp: bp_insert_def wf_sdb_def bp_table_def fun_eq_iff nth_list_update
        dest!: first_free_Some split: if_splits)
  show "bp_table d i \<noteq> None" if "bp_insert a d = None" "i < MAX_BREAK"
    using that wf by (auto simp: bp_insert_def bp_table_def wf_sdb_def first_free_None)
  show "bp_table (bp_remove i d) = (bp_table d)(i := None)"
    by (auto simp: bp_remove_def bp_table_def fun_eq_iff nth_list_update)
  show "wf_sdb (bp_remove i d)" using wf by (simp add: wf_sdb_def bp_remove_def)
  show "i < MAX_BREAK" if "bp_table d i \<noteq> None"
    using that wf by (auto simp: bp_table_def wf_sdb_def split: if_splits)
qed

subsection \<open>The commands\<close>

lemma bp_table_sdb_cong: "breaks d = breaks d' \<Longrightarrow> bp_table d = bp_table d'"
  by (simp add: bp_table_def fun_eq_iff)

lemma set_break_result:
  assumes "sdb_is_loaded (sdb s)" "sdb_set_break H str s = Inr s'"
  shows "\<exists>str' a i d. skip_0x str = Inr str' \<and> scan_llx str' = Some a \<and>
    bp_insert a (sdb s) = Some (i, d) \<and> same_table d (sdb s')"
proof -
  obtain str' a i where l: "skip_0x str = Inr str'" "scan_llx str' = Some a"
      "first_free (breaks (sdb s)) = Some i"
    and r: "(let s1 = set_bp i (\<lambda>b. b\<lparr>is_used := True, bp_addr := a\<rparr>) s
             in if sdb_is_running (sdb s1) then sdb_patch_all_bp H s1 else Inr s1) = Inr s'"
    using assms by (auto simp: sdb_set_break_def thenR_eq_Inr)
  let ?s1 = "set_bp i (\<lambda>b. b\<lparr>is_used := True, bp_addr := a\<rparr>) s"
  have "same_table (sdb ?s1) (sdb s')"
    using r by (auto simp: Let_def split: if_splits dest: sdb_patch_all_bp_same_table)
  moreover have "bp_insert a (sdb s) = Some (i, sdb ?s1)"
    using l(3) by (simp add: bp_insert_def set_bp_def)
  ultimately show ?thesis using l by blast
qed

text \<open>
  setting a breakpoint.  When \<open>sdb_set_break\<close> returns, the address parsed from its
  argument is in the table under the least free id, every other entry is unchanged, and
  (planting included) nothing else in the table moved.
\<close>

theorem sdb_set_break_table:
  assumes "wf_sdb (sdb s)" "sdb_is_loaded (sdb s)"
    and "sdb_set_break H (CHR ''0'' # CHR ''x'' # show_llx a) s = Inr s'"
  shows "\<exists>i<MAX_BREAK. bp_table (sdb s) i = None \<and> (\<forall>j<i. bp_table (sdb s) j \<noteq> None) \<and>
           bp_table (sdb s') = (bp_table (sdb s))(i \<mapsto> a) \<and> wf_sdb (sdb s')"
proof -
  obtain i d where d: "bp_insert a (sdb s) = Some (i, d)" "same_table d (sdb s')"
    using set_break_result [OF assms(2,3)] by (auto simp: skip_0x_def)
  with bps.insert_Some [OF assms(1) d(1)] show ?thesis
    by (auto simp: same_table_bp_table [OF d(2)] same_table_wf [OF d(2)])
qed

text \<open>
  C35: the eleventh breakpoint.  With all ten entries in use the search leaves the pointer
  \<open>bp\<close> unassigned and the code writes through it: \<open>sdb_set_break\<close> has no defined
  behaviour exactly then (for an argument that parses, on a program that is loaded and
  not running).
\<close>

theorem sdb_set_break_full:
  assumes "wf_sdb (sdb s)" "sdb_is_loaded (sdb s)" "\<not> sdb_is_running (sdb s)"
  shows "sdb_set_break H (CHR ''0'' # CHR ''x'' # show_llx (a :: u64)) s = Inl Uninit_Read \<longleftrightarrow>
           (\<forall>i<MAX_BREAK. bp_table (sdb s) i \<noteq> None)"
proof -
  have "sdb_set_break H (CHR ''0'' # CHR ''x'' # show_llx a) s = Inl Uninit_Read \<longleftrightarrow>
      bp_insert a (sdb s) = None"
    using assms(2,3)
    by (cases "first_free (breaks (sdb s))")
       (simp_all add: sdb_set_break_def skip_0x_def bp_insert_def Let_def sdb_is_running_def)
  then show ?thesis using bps.insert_fails_iff [OF assms(1)] by simp
qed

lemma sdb_delete_eq:
  assumes "wf_sdb (sdb s)" "0 \<le> index" "bp_table (sdb s) (nat index) \<noteq> None"
  shows "sdb (sdb_delete H index s) = bp_remove (nat index) (sdb s)"
proof -
  have "nat index < MAX_BREAK" by (rule bps.lookup_bound [OF assms(1,3)])
  with assms show ?thesis
    by (auto simp: sdb_delete_def bp_table_def bp_remove_def set_bp_def Let_def split: if_splits)
qed

lemma sdb_delete_unused:
  assumes "wf_sdb (sdb s)" "index < 0 \<or> bp_table (sdb s) (nat index) = None"
  shows "sdb_delete H index s = s"
  using assms by (auto simp: sdb_delete_def bp_table_def wf_sdb_def split: if_splits)

text \<open>
  deleting a breakpoint removes exactly that id from the table and prints one line;
  an id that is out of range or not in use changes nothing at all.
\<close>

theorem sdb_delete_table:
  assumes "wf_sdb (sdb s)"
  shows "if 0 \<le> index \<and> bp_table (sdb s) (nat index) \<noteq> None
         then bp_table (sdb (sdb_delete H index s)) = (bp_table (sdb s))(nat index := None) \<and>
           wf_sdb (sdb (sdb_delete H index s)) \<and>
           out (sdb_delete H index s) =
             out s @ [Stdout (''** breakpoint '' @ show_d index @ '' deleted.'' @ newline)]
         else sdb_delete H index s = s"
proof (cases "0 \<le> index \<and> bp_table (sdb s) (nat index) \<noteq> None")
  case True
  then have "nat index < MAX_BREAK" using bps.lookup_bound [OF assms] by blast
  moreover have "is_used (breaks (sdb s) ! nat index)" using True by (auto simp: bp_table_def split: if_splits)
  ultimately have "out (sdb_delete H index s) =
      out s @ [Stdout (''** breakpoint '' @ show_d index @ '' deleted.'' @ newline)]"
    using True by (simp add: sdb_delete_def Let_def)
  with True show ?thesis
    using sdb_delete_eq [OF assms] bps.remove_lookup [OF assms] bps.remove_wf [OF assms] by simp
next
  case False
  then show ?thesis using sdb_delete_unused [OF assms] by auto
qed

text \<open>
  set, then delete.  Deleting the breakpoint just set gives back the table from
  before, whatever planting did in between.
\<close>

theorem set_then_delete:
  assumes "wf_sdb (sdb s)" "sdb_is_loaded (sdb s)"
    and "sdb_set_break H (CHR ''0'' # CHR ''x'' # show_llx a) s = Inr s'"
  shows "\<exists>i<MAX_BREAK. bp_table (sdb s') i = Some a \<and> bp_table (sdb (sdb_delete H (int i) s')) = bp_table (sdb s)"
proof -
  obtain i d where d: "bp_insert a (sdb s) = Some (i, d)" "same_table d (sdb s')"
    using set_break_result [OF assms(2,3)] by (auto simp: skip_0x_def)
  note ins = bps.insert_Some [OF assms(1) d(1)]
  have wf': "wf_sdb (sdb s')" and tab: "bp_table (sdb s') = bp_table d"
    using ins by (simp_all add: same_table_wf [OF d(2)] same_table_bp_table [OF d(2)])
  have "bp_table (sdb (sdb_delete H (int i) s')) = (bp_table (sdb s'))(i := None)"
    using sdb_delete_eq [OF wf', of "int i" H] bps.remove_lookup [OF wf'] ins tab by simp
  then show ?thesis using ins tab by (auto simp: fun_eq_iff)
qed

lemma fold_printf: "fold (\<lambda>l. printf l) ls s = s\<lparr>out := out s @ map Stdout ls\<rparr>"
  by (induction ls arbitrary: s) (auto simp: emit_def)

text \<open>
  the listing shows the table and changes nothing: one line per entry in use, in the
  order of the ids, with the id and the address in hexadecimal.
\<close>

theorem sdb_list_shows_table:
  assumes "wf_sdb (sdb s)"
  shows "sdb_list s = s\<lparr>out := out s @ map (\<lambda>i. Stdout (pad_left (CHR '' '') 4 (show_d (int i)) @ '': '' @
             show_llx (the (bp_table (sdb s) i)) @ newline))
           (filter (\<lambda>i. bp_table (sdb s) i \<noteq> None) [0..<MAX_BREAK])\<rparr>"
proof -
  have used: "is_used (breaks (sdb s) ! i) \<longleftrightarrow> bp_table (sdb s) i \<noteq> None" if "i < MAX_BREAK" for i
    using assms that by (simp add: bp_table_def wf_sdb_def)
  then have "filter (\<lambda>i. is_used (breaks (sdb s) ! i)) [0..<MAX_BREAK] =
      filter (\<lambda>i. bp_table (sdb s) i \<noteq> None) [0..<MAX_BREAK]"
    by (intro filter_cong) simp_all
  moreover have "bp_addr (breaks (sdb s) ! i) = the (bp_table (sdb s) i)" if "bp_table (sdb s) i \<noteq> None" for i
    using that by (auto simp: bp_table_def split: if_splits)
  ultimately show ?thesis
    by (auto simp: sdb_list_def fold_printf list_lines_def list_line_def)
qed

end
