(* ===== verification/Sdb_Regs.thy ===== *)
theory Sdb_Regs
  imports Sdb_State
begin

text \<open>
  The register commands of \<^verbatim>\<open>hw4/sdb.h\<close>: \<open>sdb_get\<close>, \<open>sdb_set\<close> and \<open>sdb_getregs\<close>.  The
  lists of \<open>MATCH_REG_NAME\<close> and \<open>SET_IF_MATCHED\<close> lines are the table \<open>reg_table\<close>: a
  name with the reading and the writing of its field.
\<close>

type_synonym reg_access = "string \<times> (user_regs \<Rightarrow> u64) \<times> (u64 \<Rightarrow> user_regs \<Rightarrow> user_regs)"

definition reg_table :: "reg_access list" where
  "reg_table =
     [(''rax'', rax, \<lambda>v r. r\<lparr>rax := v\<rparr>),
      (''rbx'', rbx, \<lambda>v r. r\<lparr>rbx := v\<rparr>),
      (''rcx'', rcx, \<lambda>v r. r\<lparr>rcx := v\<rparr>),
      (''rdx'', rdx, \<lambda>v r. r\<lparr>rdx := v\<rparr>),
      (''r8'', r8, \<lambda>v r. r\<lparr>r8 := v\<rparr>),
      (''r9'', r9, \<lambda>v r. r\<lparr>r9 := v\<rparr>),
      (''r10'', r10, \<lambda>v r. r\<lparr>r10 := v\<rparr>),
      (''r11'', r11, \<lambda>v r. r\<lparr>r11 := v\<rparr>),
      (''r12'', r12, \<lambda>v r. r\<lparr>r12 := v\<rparr>),
      (''r13'', r13, \<lambda>v r. r\<lparr>r13 := v\<rparr>),
      (''r14'', r14, \<lambda>v r. r\<lparr>r14 := v\<rparr>),
      (''r15'', r15, \<lambda>v r. r\<lparr>r15 := v\<rparr>),
      (''rdi'', rdi, \<lambda>v r. r\<lparr>rdi := v\<rparr>),
      (''rsi'', rsi, \<lambda>v r. r\<lparr>rsi := v\<rparr>),
      (''rbp'', rbp, \<lambda>v r. r\<lparr>rbp := v\<rparr>),
      (''rsp'', rsp, \<lambda>v r. r\<lparr>rsp := v\<rparr>),
      (''rip'', rip, \<lambda>v r. r\<lparr>rip := v\<rparr>),
      (''eflags'', eflags, \<lambda>v r. r\<lparr>eflags := v\<rparr>)]"

text \<open>The chains of independent \<open>if\<close> statements.\<close>

fun match_reg_name :: "reg_access list \<Rightarrow> string \<Rightarrow> user_regs \<Rightarrow> u64 option \<Rightarrow> u64 option" where
  "match_reg_name [] reg_name regs reg_val = reg_val"
| "match_reg_name ((r, get, put) # rs) reg_name regs reg_val =
     match_reg_name rs reg_name regs (if reg_name = r then Some (get regs) else reg_val)"

fun set_if_matched :: "reg_access list \<Rightarrow> string \<Rightarrow> u64 \<Rightarrow> user_regs \<Rightarrow> user_regs" where
  "set_if_matched [] reg_name val regs = regs"
| "set_if_matched ((r, get, put) # rs) reg_name val regs =
     set_if_matched rs reg_name val (if reg_name = r then put val regs else regs)"

definition sdb_get :: "'k host \<Rightarrow> string \<Rightarrow> 'k sys \<Rightarrow> (u64 \<times> 'k sys) res" where
  "sdb_get H reg_name s =
     thenR (need Uninit_Read (h_getregs H (pid (sdb s)) (os s))) (\<lambda>regs.
     thenR (need Uninit_Read (match_reg_name reg_table reg_name regs None)) (\<lambda>reg_val.
       Inr (reg_val,
            printf (reg_name @ '' = '' @ show_llu reg_val @ '' (0x'' @ show_llx reg_val @ '')'' @ newline) s)))"

text \<open>
  When \<open>PTRACE_GETREGS\<close> fails, the local structure keeps its indeterminate contents
  \<open>raw\<close>, which the code passes on to \<open>PTRACE_SETREGS\<close>.
\<close>

definition sdb_set :: "'k host \<Rightarrow> user_regs \<Rightarrow> string \<Rightarrow> u64 \<Rightarrow> 'k sys \<Rightarrow> 'k sys" where
  "sdb_set H raw reg_name val s =
     (let regs = (case h_getregs H (pid (sdb s)) (os s) of None \<Rightarrow> raw | Some r \<Rightarrow> r);
          (ok, k) = h_setregs H (pid (sdb s)) (set_if_matched reg_table reg_name val regs) (os s);
          s1 = s\<lparr>os := k\<rparr>
      in if ok then s1 else puts ''Failed to set regs'' s1)"

definition reg_field :: "string \<Rightarrow> u64 \<Rightarrow> string" where  \<comment> \<open>\<open>NAME %-18llx\<close>\<close>
  "reg_field nm v = nm @ pad_right 18 (show_llx v)"

definition sdb_getregs :: "'k host \<Rightarrow> 'k sys \<Rightarrow> 'k sys res" where
  "sdb_getregs H s =
     thenR (need Uninit_Read (h_getregs H (pid (sdb s)) (os s))) (\<lambda>regs.
       Inr (printf (reg_field ''RIP '' (rip regs) @ ''FLAGS '' @ show_016llx (eflags regs) @ newline)
           (printf (reg_field ''RDI '' (rdi regs) @ reg_field ''RSI '' (rsi regs) @
                    reg_field ''RBP '' (rbp regs) @ reg_field ''RSP '' (rsp regs) @ newline)
           (printf (reg_field ''R12 '' (r12 regs) @ reg_field ''R13 '' (r13 regs) @
                    reg_field ''R14 '' (r14 regs) @ reg_field ''R15 '' (r15 regs) @ newline)
           (printf (reg_field ''R8  '' (r8 regs) @ reg_field ''R9  '' (r9 regs) @
                    reg_field ''R10 '' (r10 regs) @ reg_field ''R11 '' (r11 regs) @ newline)
           (printf (reg_field ''RAX '' (rax regs) @ reg_field ''RBX '' (rbx regs) @
                    reg_field ''RCX '' (rcx regs) @ reg_field ''RDX '' (rdx regs) @ newline) s))))))"

subsection \<open>The table\<close>

lemma match_reg_name_map_of:
  "distinct (map fst t) \<Longrightarrow>
     match_reg_name t n r acc = (case map_of t n of None \<Rightarrow> acc | Some (g, u) \<Rightarrow> Some (g r))"
proof (induction t n r acc rule: match_reg_name.induct)
  case (2 m g u t n r acc)
  then show ?case by (auto split: option.splits dest: map_of_SomeD simp: image_iff)
qed simp

lemma set_if_matched_map_of:
  "distinct (map fst t) \<Longrightarrow>
     set_if_matched t n v r = (case map_of t n of None \<Rightarrow> r | Some (g, u) \<Rightarrow> u v r)"
proof (induction t n v r rule: set_if_matched.induct)
  case (2 m g u t n v r)
  then show ?case by (auto split: option.splits dest: map_of_SomeD simp: image_iff)
qed simp

lemma distinct_reg_table: "distinct (map fst reg_table)"
  by (simp add: reg_table_def)

lemma reg_table_laws:
  "\<forall>(m, g, u) \<in> set reg_table. \<forall>(m', g', u') \<in> set reg_table.
     g (u' v r) = (if m = m' then v else g r)"
  by (simp add: reg_table_def)

lemma reg_table_access:
  assumes "(m, g, u) \<in> set reg_table" "(m', g', u') \<in> set reg_table"
  shows "g (u' v r) = (if m = m' then v else g r)"
  using reg_table_laws [of v r] assms by fastforce

abbreviation reg_names :: "string set" where
  "reg_names \<equiv> fst ` set reg_table"

lemma read_after_set:
  "match_reg_name reg_table m (set_if_matched reg_table n v r) None =
     (if m = n \<and> n \<in> reg_names then Some v else match_reg_name reg_table m r None)"
proof -
  have acc: "g (u' v r) = (if m = n then v else g r)"
    if "map_of reg_table m = Some (g, u)" "map_of reg_table n = Some (g', u')" for g u g' u'
    using that [THEN map_of_SomeD] by (rule reg_table_access)
  have names: "n \<in> reg_names \<longleftrightarrow> map_of reg_table n \<noteq> None" by (simp add: map_of_eq_None_iff)
  show ?thesis
    unfolding match_reg_name_map_of [OF distinct_reg_table] set_if_matched_map_of [OF distinct_reg_table]
      names
    by (cases "map_of reg_table n"; cases "map_of reg_table m") (auto simp: acc)
qed

text \<open>A name that is not in the list is never assigned: printing it reads garbage.\<close>

lemma sdb_get_unknown:
  "n \<notin> reg_names \<Longrightarrow> sdb_get H n s = Inl Uninit_Read"
  unfolding sdb_get_def match_reg_name_map_of [OF distinct_reg_table]
  by (cases "h_getregs H (pid (sdb s)) (os s)") (simp_all add: map_of_eq_None_iff [THEN iffD2])

lemma sdb_get_frame: "sdb_get H n s = Inr (v, s') \<Longrightarrow> sdb s' = sdb s \<and> os s' = os s"
  by (auto simp: sdb_get_def thenR_eq_Inr)

lemma sdb_set_frame: "sdb (sdb_set H raw n v s) = sdb s"
  by (simp add: sdb_set_def split_beta Let_def)

lemma sdb_getregs_frame: "sdb_getregs H s = Inr s' \<Longrightarrow> sdb s' = sdb s \<and> os s' = os s"
  by (auto simp: sdb_getregs_def thenR_eq_Inr)

end
