(* ===== verification/Sdb_Exec.thy ===== *)
theory Sdb_Exec
  imports Sdb_Break Sdb_Regs
begin

text \<open>
  Running the program under \<^verbatim>\<open>hw4/sdb.h\<close>: \<open>sdb_start\<close>, \<open>sdb_step\<close>, and \<open>sdb_cont\<close> and
  \<open>sdb_run\<close> with their common loop around \<open>waitpid\<close>.  That loop need not end: its result is
  \<open>None\<close> when it runs for ever, and \<open>Some (Inl Blocked)\<close> when a \<open>waitpid\<close> never returns.
\<close>

subsection \<open>Starting a process\<close>

text \<open>The child's side of \<open>fork\<close>: what it does depends on its \<open>ptrace\<close> and \<open>execlp\<close> calls.\<close>

definition sdb_child :: "string \<Rightarrow> bool \<Rightarrow> bool \<Rightarrow> child_end" where
  "sdb_child prog traceme_ok exec_ok =
     (if \<not> traceme_ok then Child_Exit [Perror ''ptrace failed'']
      else if exec_ok then Exec prog
      else Child_Exit [Stdout ([CHR 0x27] @ prog @ [CHR 0x27] @ newline), Perror ''execlp''])"

text \<open>
  The parent's side.  The result carries the wait status, or \<open>None\<close> where the calling
  function returns early.
\<close>

definition spawn :: "'k host \<Rightarrow> 'k sys \<Rightarrow> (u32 option \<times> 'k sys) res" where
  "spawn H s =
     (let (p, k) = h_fork H (sdb_child (path (sdb s))) (os s);
          s1 = on_sdb (\<lambda>d. d\<lparr>pid := p\<rparr>) (s\<lparr>os := k\<rparr>)
      in if p < 0 then Inr (None, emit (Perror ''Failed to fork'') s1)
         else (case h_waitpid H p k of
                 (Wait_Blocks, k2) \<Rightarrow> Inl Blocked
               | (Wait_Error, k2) \<Rightarrow> Inr (None, printf (''waitpid failed'' @ newline) (s1\<lparr>os := k2\<rparr>))
               | (Waited st, k2) \<Rightarrow>
                   Inr (Some st, printf (''** pid '' @ show_d p @ newline) (s1\<lparr>os := h_setoptions H p k2\<rparr>))))"

definition sdb_start :: "'k host \<Rightarrow> 'k sys \<Rightarrow> 'k sys res" where
  "sdb_start H s =
     (if \<not> sdb_is_loaded (sdb s) then Inr (printf (''No program loaded'' @ newline) s)
      else thenR (spawn H s) (\<lambda>(st, s).
        case st of None \<Rightarrow> Inr s | Some status \<Rightarrow> sdb_patch_all_bp H s))"

definition sdb_step :: "'k host \<Rightarrow> 'k sys \<Rightarrow> 'k sys res" where
  "sdb_step H s =
     (if \<not> sdb_is_running (sdb s) then Inr (puts ''Not running'' s)
      else (let (ok, k) = h_singlestep H (pid (sdb s)) (os s); s1 = s\<lparr>os := k\<rparr> in
        if \<not> ok then Inr (puts ''Step failed'' s1)
        else (case h_waitpid H (pid (sdb s)) k of
                (Wait_Blocks, k2) \<Rightarrow> Inl Blocked
              | (Wait_Error, k2) \<Rightarrow> Inr (puts ''Failed to wait'' (s1\<lparr>os := k2\<rparr>))
              | (Waited st, k2) \<Rightarrow> Inr (s1\<lparr>os := k2\<rparr>))))"

subsection \<open>Stopping at a breakpoint\<close>

text \<open>\<open>char bytes_str[16]\<close> receives three characters for every byte of the instruction.\<close>

definition bytes_str :: "u8 list \<Rightarrow> string res" where
  "bytes_str bs = store_s 16 (concat (map (\<lambda>b. show_02x b @ '' '') bs))"

definition insn_line :: "u64 \<Rightarrow> string \<Rightarrow> string \<Rightarrow> string \<Rightarrow> string" where
  "insn_line a b m ops = pad_left (CHR '' '') 10 (show_llx a) @ '': '' @ pad_right 21 b @ pad_right 7 m @ ops @ newline"

definition word_bytes :: "u64 \<Rightarrow> u8 list" where
  "word_bytes w = map (byte_at w) [0..<8]"

definition hit_bp :: "'k host \<Rightarrow> nat \<Rightarrow> u64 \<Rightarrow> user_regs \<Rightarrow> 'k sys \<Rightarrow> 'k sys res" where
  "hit_bp H i vaddr regs s =
     thenR (index_at (breaks (sdb s)) i) (\<lambda>bp.
       let k1 = snd (h_poke H (pid (sdb s)) vaddr (original_word bp) (os s));
           k2 = snd (h_setregs H (pid (sdb s)) (regs\<lparr>rip := rip regs - 1\<rparr>) k1);
           s2 = s\<lparr>os := k2\<rparr>;
           buffer = peek_value H (pid (sdb s)) vaddr k2;
           insn = h_disasm H (word_bytes buffer) vaddr
       in if insn = [] then Inr (printf (''ERROR: Failed to disassemble given code!'' @ newline) s2)
          else thenR (bytes_str (insn_bytes (insn ! 0))) (\<lambda>b.
               thenR (index_at insn i) (\<lambda>insn_i.
                 Inr (printf (''** breakpoint @ '' @
                        insn_line (insn_address (insn ! 0)) b (mnemonic (insn ! 0)) (op_str insn_i)) s2))))"

definition stop_bp :: "'k host \<Rightarrow> user_regs option \<Rightarrow> nat \<Rightarrow> 'k sys \<Rightarrow> 'k sys flow res" where
  "stop_bp H regs i s =
     thenR (index_at (breaks (sdb s)) i) (\<lambda>bp.
     thenR (live_addr H s (bp_addr bp)) (\<lambda>vaddr.
       if \<not> is_used bp then Inr (Next s)
       else thenR (need Uninit_Read regs) (\<lambda>regs.
         if vaddr = rip regs - 1 then thenR (hit_bp H i vaddr regs s) (\<lambda>s. Inr (Return s))
         else Inr (Next s))))"

definition check_stop :: "'k host \<Rightarrow> 'k sys \<Rightarrow> 'k sys flow res" where
  "check_stop H s = for_upto (stop_bp H (h_getregs H (pid (sdb s)) (os s))) 0 MAX_BREAK s"

subsection \<open>The wait loop\<close>

text \<open>
  \<open>status\<close> is the variable of that name: \<open>None\<close> while it has never been stored.
\<close>

datatype wait_end = Hit | Gone "u32 option"

partial_function (option) wait_for_break ::
  "'k host \<Rightarrow> u32 option \<Rightarrow> 'k sys \<Rightarrow> (wait_end \<times> 'k sys) res option" where
  "wait_for_break H status s =
     (case h_waitpid H (pid (sdb s)) (os s) of
        (w, k) \<Rightarrow>
          (case w of
             Wait_Blocks \<Rightarrow> Some (Inl Blocked)
           | Wait_Error \<Rightarrow> Some (Inr (Gone status, s\<lparr>os := k\<rparr>))
           | Waited st \<Rightarrow>
               if \<not> WIFSTOPPED st then wait_for_break H (Some st) (s\<lparr>os := k\<rparr>)
               else (case check_stop H (s\<lparr>os := k\<rparr>) of
                       Inl e \<Rightarrow> Some (Inl e)
                     | Inr fl \<Rightarrow>
                         (case fl of
                            Return s' \<Rightarrow> Some (Inr (Hit, s'))
                          | Next s' \<Rightarrow> wait_for_break H (Some st) s'))))"

definition report_exit :: "u32 option \<Rightarrow> 'k sys \<Rightarrow> 'k sys res" where
  "report_exit status s =
     thenR (need Uninit_Read status) (\<lambda>st.
       Inr (on_sdb (\<lambda>d. d\<lparr>pid := - 1\<rparr>)
         (printf ((if st = 0
                   then ''** child process '' @ show_d (pid (sdb s)) @ '' terminated normally (code ''
                   else ''** child process '' @ show_d (pid (sdb s)) @ '' exited with error (code '') @
                  show_d (sint st) @ '')'' @ newline) s)))"

definition resume :: "'k host \<Rightarrow> u32 option \<Rightarrow> 'k sys \<Rightarrow> 'k sys res option" where
  "resume H status s =
     (case wait_for_break H status (s\<lparr>os := h_cont H (pid (sdb s)) (os s)\<rparr>) of
        None \<Rightarrow> None
      | Some (Inl e) \<Rightarrow> Some (Inl e)
      | Some (Inr (Hit, s')) \<Rightarrow> Some (Inr s')
      | Some (Inr (Gone st, s')) \<Rightarrow> Some (report_exit st s'))"

definition sdb_cont :: "'k host \<Rightarrow> 'k sys \<Rightarrow> 'k sys res option" where
  "sdb_cont H s =
     (if \<not> sdb_is_running (sdb s) then Some (Inr (puts ''not running'' s))
      else (case sdb_patch_all_bp H s of
              Inl e \<Rightarrow> Some (Inl e)
            | Inr s1 \<Rightarrow> resume H None s1))"

definition sdb_run :: "'k host \<Rightarrow> 'k sys \<Rightarrow> 'k sys res option" where
  "sdb_run H s =
     (if \<not> sdb_is_loaded (sdb s) then Some (Inr (printf (''No program loaded'' @ newline) s))
      else if \<not> sdb_is_running (sdb s) then
        (case spawn H s of
           Inl e \<Rightarrow> Some (Inl e)
         | Inr (None, s1) \<Rightarrow> Some (Inr s1)
         | Inr (Some st, s1) \<Rightarrow>
             (case sdb_patch_all_bp H s1 of
                Inl e \<Rightarrow> Some (Inl e)
              | Inr s2 \<Rightarrow> resume H (Some st) s2))
      else
        (case sdb_patch_all_bp H
                (printf (''** program '' @ path (sdb s) @ '' is already running.'' @ newline) s) of
           Inl e \<Rightarrow> Some (Inl e)
         | Inr s2 \<Rightarrow> resume H None s2))"

subsection \<open>Termination of the wait loop\<close>

lemma stop_bp_Next: "stop_bp H regs i s = Inr (Next s') \<Longrightarrow> s' = s"
  by (auto simp: stop_bp_def thenR_eq_Inr split: if_splits)

lemma check_stop_Next: "check_stop H s = Inr (Next s') \<Longrightarrow> s' = s"
  unfolding check_stop_def by (rule for_upto_Next_same) (auto dest: stop_bp_Next)

text \<open>
  The rule for the loop: \<open>I\<close> holds before each \<open>waitpid\<close>, \<open>Q\<close> after it.
\<close>

lemma wait_for_break_rule:
  assumes "wait_for_break H status s = Some (Inr (e, t))" "I s"
    and "\<And>s w k. I s \<Longrightarrow> h_waitpid H (pid (sdb s)) (os s) = (w, k) \<Longrightarrow> Q (s\<lparr>os := k\<rparr>)"
    and "\<And>s st k. I s \<Longrightarrow> h_waitpid H (pid (sdb s)) (os s) = (Waited st, k) \<Longrightarrow> I (s\<lparr>os := k\<rparr>)"
    and "\<And>s t. Q s \<Longrightarrow> check_stop H s = Inr (Return t) \<Longrightarrow> Q t"
  shows "Q t"
proof -
  have "H = H \<longrightarrow> I s \<longrightarrow> (\<forall>e' t'. Inr (e, t) = (Inr (e', t') :: (wait_end \<times> 'a sys) res) \<longrightarrow> Q t')"
  proof (rule wait_for_break.raw_induct [OF _ assms(1), where P = "\<lambda>h status s r. h = H \<longrightarrow> I s \<longrightarrow> (\<forall>e t. r = Inr (e, t) \<longrightarrow> Q t)"])
    fix f :: "'a host \<Rightarrow> u32 option \<Rightarrow> 'a sys \<Rightarrow> (wait_end \<times> 'a sys) res option"
    fix h :: "'a host" and status s r
    assume IH: "\<And>h status s r. f h status s = Some r \<Longrightarrow> h = H \<longrightarrow> I s \<longrightarrow> (\<forall>e t. r = Inr (e, t) \<longrightarrow> Q t)"
      and body: "(case h_waitpid h (pid (sdb s)) (os s) of (w, k) \<Rightarrow>
          (case w of
             Waited st \<Rightarrow>
               if \<not> WIFSTOPPED st then f h (Some st) (s\<lparr>os := k\<rparr>)
               else (case check_stop h (s\<lparr>os := k\<rparr>) of
                       Inl e \<Rightarrow> Some (Inl e)
                     | Inr (Next s') \<Rightarrow> f h (Some st) s'
                     | Inr (Return s') \<Rightarrow> Some (Inr (Hit, s')))
           | Wait_Error \<Rightarrow> Some (Inr (Gone status, s\<lparr>os := k\<rparr>))
           | Wait_Blocks \<Rightarrow> Some (Inl Blocked))) = Some r"
    show "h = H \<longrightarrow> I s \<longrightarrow> (\<forall>e t. r = Inr (e, t) \<longrightarrow> Q t)"
    proof (intro impI)
      assume h: "h = H" and I: "I s"
      obtain w k where w: "h_waitpid H (pid (sdb s)) (os s) = (w, k)" by fastforce
      have Q: "Q (s\<lparr>os := k\<rparr>)" by (rule assms(3) [OF I w])
      show "\<forall>e t. r = Inr (e, t) \<longrightarrow> Q t"
      proof (cases w)
        case (Waited st)
        have again: "I (s\<lparr>os := k\<rparr>)" using assms(4) [OF I] w Waited by simp
        show ?thesis
        proof (cases "WIFSTOPPED st")
          case False
          with body w h Waited have "f H (Some st) (s\<lparr>os := k\<rparr>) = Some r" by simp
          with IH again show ?thesis by blast
        next
          case True
          show ?thesis
          proof (cases "check_stop H (s\<lparr>os := k\<rparr>)")
            case (Inr fl)
            show ?thesis
            proof (cases fl)
              case (Next t)
              then have "t = s\<lparr>os := k\<rparr>" using Inr check_stop_Next by blast
              moreover have "f H (Some st) t = Some r" using body w h Waited True Inr Next by simp
              ultimately show ?thesis using IH again by blast
            next
              case (Return t)
              with body w h Waited True Inr assms(5) [OF Q] show ?thesis by auto
            qed
          qed (use body w h Waited True in auto)
        qed
      qed (use body w h Q in auto)
    qed
  qed
  with assms(2) show ?thesis by blast
qed

text \<open>
  The law of the system that makes the loop end: a process that is not resumed has
  finitely many wait results left to report.
\<close>

locale finite_waits =
  fixes H :: "'k host" and pending :: "'k \<Rightarrow> nat"
  assumes wait_decreases: "h_waitpid H p k = (Waited st, k') \<Longrightarrow> pending k' < pending k"
begin

lemma wait_for_break_returns: "\<exists>r. wait_for_break H status s = Some r"
proof (induction "pending (os s)" arbitrary: s status rule: less_induct)
  case less
  obtain w k where w: "h_waitpid H (pid (sdb s)) (os s) = (w, k)" by fastforce
  show ?case
  proof (cases w)
    case (Waited st)
    with w have dec: "pending k < pending (os s)" by (simp add: wait_decreases)
    show ?thesis
    proof (cases "WIFSTOPPED st")
      case False
      have "\<exists>r. wait_for_break H (Some st) (s\<lparr>os := k\<rparr>) = Some r"
        by (rule less) (simp add: dec)
      with False Waited w show ?thesis by (simp add: wait_for_break.simps [of H status s])
    next
      case True
      show ?thesis
      proof (cases "check_stop H (s\<lparr>os := k\<rparr>)")
        case (Inl e)
        with True Waited w show ?thesis by (simp add: wait_for_break.simps [of H status s])
      next
        case (Inr fl)
        show ?thesis
        proof (cases fl)
          case (Return t)
          with Inr True Waited w show ?thesis by (simp add: wait_for_break.simps [of H status s])
        next
          case (Next t)
          then have "t = s\<lparr>os := k\<rparr>" using Inr check_stop_Next by blast
          then have "\<exists>r. wait_for_break H (Some st) t = Some r" by (intro less) (simp add: dec)
          with Next Inr True Waited w show ?thesis by (simp add: wait_for_break.simps [of H status s])
        qed
      qed
    qed
  qed (use w in \<open>simp_all add: wait_for_break.simps [of H status s]\<close>)
qed

lemma resume_returns: "\<exists>r. resume H status s = Some r"
  using wait_for_break_returns [of status "s\<lparr>os := h_cont H (pid (sdb s)) (os s)\<rparr>"]
  by (auto simp: resume_def split: sum.splits wait_end.splits)

end

text \<open>
  the commands that run the program return: with finitely many pending wait results,
  \<open>sdb_cont\<close> and \<open>sdb_run\<close> always come back with a state or a fault (blocking in
  \<open>waitpid\<close> included), they never loop for ever.
\<close>

theorem cont_and_run_return:
  assumes "finite_waits H pending"
  shows "(\<exists>r. sdb_cont H s = Some r) \<and> (\<exists>r. sdb_run H s = Some r)"
  using finite_waits.resume_returns [OF assms]
  by (auto simp: sdb_cont_def sdb_run_def split: sum.splits option.splits)

subsection \<open>Stopping at a planted breakpoint\<close>

lemma hit_bp_state:
  assumes "hit_bp H i a regs s = Inr s'"
  shows "sdb s' = sdb s \<and>
    os s' = snd (h_setregs H (pid (sdb s)) (regs\<lparr>rip := rip regs - 1\<rparr>)
      (snd (h_poke H (pid (sdb s)) a (original_word (breaks (sdb s) ! i)) (os s))))"
  using assms by (auto simp: hit_bp_def thenR_eq_Inr Let_def index_at_eq_Inr split: if_splits)

lemma check_stop_hit:
  assumes "i < MAX_BREAK" "wf_sdb (sdb s)" "used_at s i"
    and "h_getregs H (pid (sdb s)) (os s) = Some regs"
    and "\<And>j. j \<le> i \<Longrightarrow> live_addr H s (bp_addr (breaks (sdb s) ! j)) = Inr (la j)"
    and "la i = rip regs - 1" "\<And>j. j < i \<Longrightarrow> used_at s j \<Longrightarrow> la j \<noteq> rip regs - 1"
    and "hit_bp H i (la i) regs s = Inr s'"
  shows "check_stop H s = Inr (Return s')"
proof -
  have len: "length (breaks (sdb s)) = MAX_BREAK" using assms(2) by (simp add: wf_sdb_def)
  have "stop_bp H (Some regs) (0 + j) s = Inr (Next s)" if "j < i" for j
    using that assms(1,5,7) len by (simp add: stop_bp_def used_at_def)
  moreover have "stop_bp H (Some regs) (0 + i) s = Inr (Return s')"
    using assms(1,3,5,6,8) len by (simp add: stop_bp_def used_at_def)
  ultimately show ?thesis
    unfolding check_stop_def assms(4) by (rule for_upto_first) (use assms(1) in simp_all)
qed

text \<open>The disassembler's answer for the stopped instruction fits the code's buffers.\<close>

definition insn_fits :: "'k host \<Rightarrow> nat \<Rightarrow> u64 \<Rightarrow> bool" where
  "insn_fits H i a \<longleftrightarrow> (\<forall>w. let insn = h_disasm H (word_bytes w) a in
     insn = [] \<or> length (insn_bytes (insn ! 0)) \<le> 5 \<and> i < length insn)"

lemma bytes_str_ok: "length bs \<le> 5 \<Longrightarrow> \<exists>t. bytes_str bs = Inr t"
proof -
  have "length (concat (map (\<lambda>b. show_02x b @ '' '') bs)) = 3 * length bs"
    by (induction bs) auto
  then show "length bs \<le> 5 \<Longrightarrow> \<exists>t. bytes_str bs = Inr t" by (simp add: bytes_str_def store_s_def)
qed

lemma hit_bp_returns:
  assumes "insn_fits H i a" "i < length (breaks (sdb s))"
  shows "\<exists>s'. hit_bp H i a regs s = Inr s'"
proof -
  obtain bp where "index_at (breaks (sdb s)) i = Inr bp" using assms(2) by simp
  moreover have "h_disasm H (word_bytes w) a = [] \<or>
      (\<exists>t. bytes_str (insn_bytes (h_disasm H (word_bytes w) a ! 0)) = Inr t) \<and>
      i < length (h_disasm H (word_bytes w) a)" for w
    using assms(1) bytes_str_ok unfolding insn_fits_def Let_def by blast
  ultimately show ?thesis
    unfolding hit_bp_def thenR_simps Let_def by (smt (verit) index_at_in thenR_simps(2))
qed

text \<open>
  The event "the program runs until it executes the planted breakpoint \<open>i\<close>", as the system
  reports it after \<open>PTRACE_CONT\<close>: a stop, the program counter just behind the breakpoint,
  the program's memory now \<open>m'\<close> with its code and the planted bytes intact, and the same
  mappings.
\<close>

definition runs_into ::
  "'k host \<Rightarrow> (int \<Rightarrow> 'k \<Rightarrow> mem) \<Rightarrow> 'k sys \<Rightarrow> mem \<Rightarrow> nat \<Rightarrow> user_regs \<Rightarrow> bool" where
  "runs_into H mem_of s m' i regs \<longleftrightarrow>
     (let p = pid (sdb s) in
      \<exists>st k2. h_waitpid H p (h_cont H p (os s)) = (Waited st, k2) \<and> WIFSTOPPED st \<and>
        h_getregs H p k2 = Some regs \<and> rip regs = live_of H s i + 1 \<and>
        h_maps H p k2 = h_maps H p (os s) \<and>
        mem_of p k2 = with_int3 (planted H s MAX_BREAK) m')"

text \<open>
  The code computes the address of every entry, in use or not: none of that may fail.
\<close>

definition all_live :: "'k host \<Rightarrow> 'k sys \<Rightarrow> bool" where
  "all_live H s \<longleftrightarrow> (\<forall>j<MAX_BREAK. live_addr H s (bp_addr (breaks (sdb s) ! j)) = Inr (live_of H s j))"

lemma all_live_same:
  assumes "same_table (sdb s) (sdb t)" "wf_sdb (sdb s)" "all_live H s"
    and "h_maps H (pid (sdb s)) (os t) = h_maps H (pid (sdb s)) (os s)"
  shows "all_live H t"
  using assms(3) same_table_live [OF assms(1,2,4)] by (simp add: all_live_def)

text \<open>Where the process stands at breakpoint \<open>i\<close>, which alone is not planted.\<close>

definition stopped_at ::
  "'k host \<Rightarrow> (int \<Rightarrow> 'k \<Rightarrow> mem) \<Rightarrow> mem \<Rightarrow> nat \<Rightarrow> user_regs \<Rightarrow> 'k sys \<Rightarrow> bool" where
  "stopped_at H mem_of m i regs s \<longleftrightarrow> i < MAX_BREAK \<and> used_at s i \<and>
     h_getregs H (pid (sdb s)) (os s) = Some regs \<and> rip regs = live_of H s i \<and>
     debugged H mem_of m (planted H s MAX_BREAK - {live_of H s i}) s \<and> all_live H s"

context ptrace_host
begin

lemma stop_at_breakpoint:
  assumes deb: "debugged H mem_of m (planted H s MAX_BREAK) s" and live: "all_live H s"
    and i: "i < MAX_BREAK" "used_at s i" and fit: "insn_fits H i (live_of H s i)"
    and run: "runs_into H mem_of s m' i regs" and code: "same_code H s m m'"
  shows "\<exists>s'. resume H status s = Some (Inr s') \<and> sdb s' = sdb s \<and>
           stopped_at H mem_of m' i (regs\<lparr>rip := live_of H s i\<rparr>) s' \<and>
           (\<exists>st k2 r a w. h_waitpid H (pid (sdb s)) (h_cont H (pid (sdb s)) (os s)) = (Waited st, k2) \<and>
              os s' = snd (h_setregs H (pid (sdb s)) r (snd (h_poke H (pid (sdb s)) a w k2))))"
proof -
  let ?p = "pid (sdb s)" and ?a = "live_of H s i" and ?A = "planted H s MAX_BREAK"
  have place: "well_placed H m s" "well_placed H m' s" and arm: "armed H m' ?A s"
    using deb same_code_placed [OF code] same_code_armed [OF code] by (simp_all add: debugged_def)
  then have wf: "wf_sdb (sdb s)" and sep: "separated H s" and mp': "mapped_word m' ?a"
    using i by (simp_all add: well_placed_def entry_live_def)
  have inA: "?a \<in> ?A" using i by (auto simp: planted_def)
  obtain w k2 where k2: "h_waitpid H ?p (h_cont H ?p (os s)) = (Waited w, k2)" "WIFSTOPPED w"
      "h_getregs H ?p k2 = Some regs" "rip regs - 1 = ?a" "h_maps H ?p k2 = h_maps H ?p (os s)"
      "mem_of ?p k2 = with_int3 ?A m'"
    using run unfolding runs_into_def Let_def by fastforce
  define s2 where "s2 = s\<lparr>os := k2\<rparr>"
  have same2: "same_table (sdb s) (sdb s2)" "h_maps H ?p (os s2) = h_maps H ?p (os s)"
    using k2(5) by (simp_all add: s2_def)
  note s2 = same_table_live [OF same2(1) wf same2(2)]
  have other: "live_of H s j \<noteq> ?a" if "j < i" "used_at s j" for j
    using not_planted_before [OF sep i] that unfolding planted_def by (metis (mono_tags, lifting) imageI mem_Collect_eq)
  obtain s' where hit: "hit_bp H i ?a regs s2 = Inr s'"
    using hit_bp_returns [OF fit, where s = s2 and regs = regs] wf i(1) by (auto simp: s2_def wf_sdb_def)
  have "check_stop H s2 = Inr (Return s')"
    by (rule check_stop_hit [where la = "live_of H s" and regs = regs])
       (use i wf live other k2(3,4) hit in \<open>auto simp: s2 all_live_def\<close>, simp_all add: s2_def k2(3) wf)
  then have "wait_for_break H status (s\<lparr>os := h_cont H ?p (os s)\<rparr>) = Some (Inr (Hit, s'))"
    using k2(1,2) by (subst wait_for_break.simps) (simp add: s2_def)
  then have res: "resume H status s = Some (Inr s')" by (simp add: resume_def)
  let ?w = "original_word (breaks (sdb s) ! i)"
  let ?k3 = "snd (h_poke H ?p ?a ?w k2)"
  have s': "sdb s' = sdb s" "os s' = snd (h_setregs H ?p (regs\<lparr>rip := ?a\<rparr>) ?k3)"
    using hit_bp_state [OF hit] k2(4) by (simp_all add: s2_def)
  have getr: "h_getregs H ?p (os s') = Some (regs\<lparr>rip := ?a\<rparr>)"
    using setregs_regs [of ?p ?k3 regs "regs\<lparr>rip := ?a\<rparr>"] by (simp add: s'(2) poke_regs k2(3) same_control_def)
  have maps: "h_maps H ?p (os s') = h_maps H ?p (os s)"
    by (simp add: s'(2) setregs_maps poke_maps k2(5))
  have st: "same_table (sdb s) (sdb s')" by (simp add: s'(1))
  note t = same_table_live [OF st wf maps] and placed = well_placed_same [OF st maps place(2)]
  have "a \<notin> ?A" if "a = ?a + of_nat j" "0 < j" "j < 8" for a j
    using planted_window [OF sep i that(3)] that by auto
  moreover have rw: "read_word m' ?a = Some ?w" using arm i inA by (simp add: armed_def)
  ultimately have "mem_of ?p ?k3 = with_int3 (?A - {?a}) m'"
    using with_int3_remove [OF _ rw, of ?A] mapped_with_int3 [OF mp', of ?A]
    by (simp add: poke_mem k2(6))
  then have "debugged H mem_of m' (?A - {?a}) s'"
    using placed arm by (auto simp: debugged_def s' setregs_mem armed_def t)
  then have "stopped_at H mem_of m' i (regs\<lparr>rip := ?a\<rparr>) s'"
    using s'(1) getr i placed all_live_same [OF st wf live maps] by (auto simp: stopped_at_def t)
  with res s' k2(1) show ?thesis by blast
qed

end

text \<open>
  C4: continuing from breakpoint to breakpoint.  Let the process stand at breakpoint \<open>i\<close>.
  \<open>sdb_cont\<close> executes the original instruction there, plants every breakpoint (\<open>i\<close> again)
  and lets the program run; when it runs into breakpoint \<open>j\<close>, the command returns with the
  process standing at \<open>j\<close>, its program counter on the breakpoint and not behind it, \<open>j\<close>
  restored, all others planted, and the rest of the memory the program's own.
\<close>

theorem cont_breakpoint_to_breakpoint:
  assumes "ptrace_host H mem_of" "sdb_is_running (sdb s)" "stopped_at H mem_of m i regs s"
    and "\<And>t. for_upto (patch_bp H) 0 i s = Inr (Next t) \<Longrightarrow>
        steps_to H mem_of (pid (sdb s)) (os t) (planted H s MAX_BREAK - {live_of H s i}) m1 regs1"
    and "same_code H s m m1"
    and "\<And>k. i < k \<Longrightarrow> k < MAX_BREAK \<Longrightarrow> used_at s k \<Longrightarrow> rip regs1 \<noteq> live_of H s k"
    and "\<And>t. sdb_patch_all_bp H s = Inr t \<Longrightarrow> runs_into H mem_of t m2 j regs2"
    and "same_code H s m1 m2" "j < MAX_BREAK" "used_at s j" "insn_fits H j (live_of H s j)"
  shows "\<exists>s'. sdb_cont H s = Some (Inr s') \<and> same_table (sdb s) (sdb s') \<and>
           stopped_at H mem_of m2 j (regs2\<lparr>rip := live_of H s j\<rparr>) s'"
proof -
  let ?B = "planted H s MAX_BREAK - {live_of H s i}"
  have i: "i < MAX_BREAK" "used_at s i" and deb: "debugged H mem_of m ?B s" and live: "all_live H s"
    and regs: "h_getregs H (pid (sdb s)) (os s) = Some regs" "rip regs = live_of H s i"
    using assms(3) by (simp_all add: stopped_at_def)
  have sep: "separated H s" and wf: "wf_sdb (sdb s)"
    using deb by (simp_all add: debugged_def well_placed_def entry_live_def)
  have "planted H s i \<union> ?B = ?B"
    using not_planted_before [OF sep i] planted_mono [of i H s] i(1) by auto
  then obtain t where t: "sdb_patch_all_bp H s = Inr t" "same_table (sdb s) (sdb t)"
      "h_maps H (pid (sdb s)) (os t) = h_maps H (pid (sdb s)) (os s)"
      "debugged H mem_of m1 (planted H t MAX_BREAK) t"
    using ptrace_host.patch_rearms [OF assms(1) deb i regs _ assms(5,6)] assms(4) by auto
  note same = same_table_live [OF t(2) wf t(3)]
  have "same_code H t m1 m2" using assms(8) by (simp add: same_code_def same)
  then obtain s' where s': "resume H None t = Some (Inr s')" "sdb s' = sdb t"
      "stopped_at H mem_of m2 j (regs2\<lparr>rip := live_of H t j\<rparr>) s'"
    using ptrace_host.stop_at_breakpoint [OF assms(1) t(4) all_live_same [OF t(2) wf live t(3)], of j m2 regs2 None]
      assms(7) [OF t(1)] assms(9-11) by (auto simp: same)
  then show ?thesis using assms(2,9) t(1,2) by (simp add: sdb_cont_def same)
qed

text \<open>
  C33: what a stop at a breakpoint prints.  The instruction shown is the original one at the
  breakpoint's address; its operands, however, are taken from the \<open>i\<close>-th instruction of the
  eight bytes, \<open>i\<close> being the number of the breakpoint, and when the disassembler found no
  more than \<open>i\<close> of them the code reads past the end of its result.
\<close>

theorem hit_bp_output:
  assumes "ptrace_host H mem_of" "i < length (breaks (sdb s))"
    and "mapped_word (mem_of (pid (sdb s)) (os s)) a"
    and "h_disasm H (word_bytes (original_word (breaks (sdb s) ! i))) a = first # others"
    and "length (insn_bytes first) \<le> 5"
  shows "map_sum id out (hit_bp H i a regs s) =
    (if i < length (first # others)
     then Inr (out s @ [Stdout (''** breakpoint @ '' @ pad_left (CHR '' '') 10 (show_llx (insn_address first)) @ '': '' @
            pad_right 21 (concat (map (\<lambda>b. show_02x b @ '' '') (insn_bytes first))) @
            pad_right 7 (mnemonic first) @ op_str ((first # others) ! i) @ newline)])
     else Inl Out_Of_Bounds)"
proof -
  let ?p = "pid (sdb s)" and ?w = "original_word (breaks (sdb s) ! i)"
  let ?k1 = "snd (h_poke H ?p a ?w (os s))"
  let ?k2 = "snd (h_setregs H ?p (regs\<lparr>rip := rip regs - 1\<rparr>) ?k1)"
  have "read_word (mem_of ?p ?k2) a = Some ?w"
    using assms(3) by (simp add: ptrace_host.setregs_mem [OF assms(1)] ptrace_host.poke_mem [OF assms(1)]
      read_write_word)
  then have "peek_value H ?p a ?k2 = ?w"
    by (simp add: peek_value_def ptrace_host.peek_word [OF assms(1)])
  moreover have "bytes_str (insn_bytes first) = Inr (concat (map (\<lambda>b. show_02x b @ '' '') (insn_bytes first)))"
    using bytes_str_ok [OF assms(5)] by (auto simp: bytes_str_def store_s_def split: if_splits)
  ultimately show ?thesis
    using assms(2,4) by (simp add: hit_bp_def Let_def insn_line_def index_at_def)
qed

subsection \<open>The other ways the wait loop ends\<close>

lemma exit_status_word:
  assumes "n < 256"
  shows "unat (of_nat (256 * n) :: u32) = 256 * n" "sint (of_nat (256 * n) :: u32) = 256 * int n"
    "\<not> WIFSTOPPED (of_nat (256 * n))"
proof -
  show u: "unat (of_nat (256 * n) :: u32) = 256 * n"
    using assms by (simp add: unat_of_nat take_bit_nat_eq_self del: of_nat_mult)
  have "uint (of_nat (256 * n) :: u32) = 256 * int n"
    using u by (simp add: uint_nat del: of_nat_mult)
  then show "sint (of_nat (256 * n) :: u32) = 256 * int n"
    using assms by (simp add: sint_uint signed_take_bit_int_eq_self del: of_nat_mult)
  have m: "(0xff :: u32) = mask 8" by (simp add: mask_eq_exp_minus_1)
  have p: "(of_nat (256 * n) :: u32) = push_bit 8 (of_nat n)" by (simp add: push_bit_eq_mult)
  have "(of_nat (256 * n) :: u32) AND 0xff = 0"
    by (rule bit_word_eqI) (auto simp: m p bit_and_iff bit_mask_iff bit_push_bit_iff simp del: of_nat_mult)
  then show "\<not> WIFSTOPPED (of_nat (256 * n))" by (simp add: WIFSTOPPED_def)
qed

lemma cont_reports_exit_eq:
  assumes "sdb_is_running (sdb s)" "sdb_patch_all_bp H s = Inr t" "n < 256"
    and "h_waitpid H (pid (sdb s)) (h_cont H (pid (sdb s)) (os t)) = (Waited (of_nat (256 * n)), k1)"
    and "h_waitpid H (pid (sdb s)) k1 = (Wait_Error, k2)"
  shows "\<exists>s'. sdb_cont H s = Some (Inr s') \<and> \<not> sdb_is_running (sdb s') \<and>
           bp_table (sdb s') = bp_table (sdb s) \<and>
           out s' = out t @ [Stdout (''** child process '' @ show_d (pid (sdb s)) @
             (if n = 0 then '' terminated normally (code '' else '' exited with error (code '') @
             show_d (256 * int n) @ '')'' @ newline)]"
proof -
  let ?st = "of_nat (256 * n) :: u32"
  have st: "same_table (sdb s) (sdb t)" by (rule sdb_patch_all_bp_same_table [OF assms(2)])
  then have pid: "pid (sdb t) = pid (sdb s)" by (simp add: same_table_def)
  have zero: "?st = 0 \<longleftrightarrow> n = 0" using exit_status_word(1) [OF assms(3)] by auto
  define t1 where "t1 = t\<lparr>os := k2\<rparr>"
  have "wait_for_break H None (t\<lparr>os := h_cont H (pid (sdb s)) (os t)\<rparr>) = Some (Inr (Gone (Some ?st), t1))"
    using assms(4,5) exit_status_word(3) [OF assms(3)] pid
    by (simp add: wait_for_break.simps [of H None] wait_for_break.simps [of H "Some ?st"] t1_def del: of_nat_mult)
  then have "sdb_cont H s = Some (report_exit (Some ?st) t1)"
    using assms(1,2) by (simp add: sdb_cont_def resume_def pid)
  moreover have "bp_table (sdb t\<lparr>pid := - 1\<rparr>) = bp_table (sdb s)"
    using same_table_bp_table [OF st] bp_table_sdb_cong [of "sdb t\<lparr>pid := - 1\<rparr>" "sdb t"] by simp
  ultimately show ?thesis
    using zero exit_status_word(2) [OF assms(3)]
    by (auto simp: report_exit_def t1_def pid sdb_is_running_def simp del: of_nat_mult)
qed

text \<open>
  the end of the program.  When the process ends with exit code \<open>n\<close>, \<open>sdb_cont\<close> forgets
  the process and keeps the breakpoint table; the code it prints is the whole wait status,
  which is \<open>256 * n\<close>.
\<close>

theorem cont_reports_exit:
  assumes "sdb_is_running (sdb s)" "sdb_patch_all_bp H s = Inr t" "n < 256"
    and "h_waitpid H (pid (sdb s)) (h_cont H (pid (sdb s)) (os t)) = (Waited (of_nat (256 * n)), k1)"
    and "h_waitpid H (pid (sdb s)) k1 = (Wait_Error, k2)"
  shows "\<exists>s'. sdb_cont H s = Some (Inr s') \<and> \<not> sdb_is_running (sdb s') \<and>
           bp_table (sdb s') = bp_table (sdb s) \<and>
           out s' = out t @ [Stdout (''** child process '' @ show_d (pid (sdb s)) @
             (if n = 0 then '' terminated normally (code '' else '' exited with error (code '') @
             show_d (256 * int n) @ '')'' @ newline)]"
  by (rule cont_reports_exit_eq [OF assms])

text \<open>
  C34: a stop that is not a breakpoint.  When the process stops for any other reason (a
  signal, say) the loop neither reports it nor resumes the process, but waits again: on a
  system where a stopped process has nothing more to report, the command never returns.
\<close>

theorem cont_blocks_on_other_stop:
  assumes "sdb_is_running (sdb s)" "sdb_patch_all_bp H s = Inr t" "wf_sdb (sdb s)"
    and "h_waitpid H (pid (sdb s)) (h_cont H (pid (sdb s)) (os t)) = (Waited st, k1)" "WIFSTOPPED st"
    and "h_getregs H (pid (sdb s)) k1 = Some regs" "all_live H (t\<lparr>os := k1\<rparr>)"
    and "\<And>i. i < MAX_BREAK \<Longrightarrow> used_at s i \<Longrightarrow> live_of H (t\<lparr>os := k1\<rparr>) i \<noteq> rip regs - 1"
    and "h_waitpid H (pid (sdb s)) k1 = (Wait_Blocks, k2)"
  shows "sdb_cont H s = Some (Inl Blocked)"
proof -
  have st: "same_table (sdb s) (sdb t)" by (rule sdb_patch_all_bp_same_table [OF assms(2)])
  then have pid: "pid (sdb t) = pid (sdb s)" and wf: "wf_sdb (sdb t)"
    using assms(3) same_table_wf [OF st] by (simp_all add: same_table_def)
  have used: "used_at t i = used_at s i" if "i < MAX_BREAK" for i
    using used_at_same [OF st] that assms(3) by (simp add: wf_sdb_def)
  define t1 where "t1 = t\<lparr>os := k1\<rparr>"
  have "stop_bp H (Some regs) j t1 = Inr (Next t1)" if "j < MAX_BREAK" for j
    using that assms(7,8) wf used [OF that]
    by (auto simp: stop_bp_def t1_def wf_sdb_def all_live_def used_at_def)
  then have "check_stop H t1 = Inr (Next t1)"
    using assms(6) unfolding check_stop_def by (intro for_upto_skip) (simp add: t1_def pid)
  then have "wait_for_break H None (t\<lparr>os := h_cont H (pid (sdb s)) (os t)\<rparr>) = Some (Inl Blocked)"
    using assms(4,5,9) pid
    by (simp add: wait_for_break.simps [of H None] wait_for_break.simps [of H "Some st"] t1_def)
  then show ?thesis using assms(1,2) by (simp add: sdb_cont_def resume_def pid)
qed

end
