(* ===== verification/Tiny_Machine.thy ===== *)
theory Tiny_Machine
  imports Sdb_Exec
begin

text \<open>
  A concrete system for the debugger: one traced process that runs a small machine code
  (one byte per instruction), its memory, registers and wait events.  It is executable,
  it satisfies the laws of \<open>ptrace_host\<close> and \<open>finite_waits\<close>, and the closed examples of
  the development run the debugger's commands on it.
\<close>

record machine =
  m_pid :: int
  m_alive :: bool
  m_mem :: mem
  m_regs :: user_regs
  m_maps :: "string list"
  m_events :: "u32 list"
  m_files :: "(string \<times> u8 list) list"

subsection \<open>Running\<close>

definition sigtrap_stop :: u32 where "sigtrap_stop = 0x057f"
definition sigsegv_stop :: u32 where "sigsegv_stop = 0x0b7f"

text \<open>
  \<open>0xcc\<close> traps, \<open>0xf4\<close> ends the process with the code in \<open>rdi\<close>, \<open>0xe0\<close> jumps to \<open>rax\<close>, the
  rest does nothing.
\<close>

definition exec_insn :: "machine \<Rightarrow> machine \<times> u32 option" where
  "exec_insn m =
     (let r = m_regs m; next_m = m\<lparr>m_regs := r\<lparr>rip := rip r + 1\<rparr>\<rparr> in
      case m_mem m (rip r) of
        None \<Rightarrow> (m, Some sigsegv_stop)
      | Some b \<Rightarrow>
          if b = 0xcc then (next_m, Some sigtrap_stop)
          else if b = 0xf4 then (m\<lparr>m_alive := False\<rparr>, Some (256 * (ucast (rdi r) AND 0xff)))
          else if b = 0xe0 then (m\<lparr>m_regs := r\<lparr>rip := rax r\<rparr>\<rparr>, None)
          else (next_m, None))"

primrec run_machine :: "nat \<Rightarrow> machine \<Rightarrow> machine" where
  "run_machine 0 m = m"
| "run_machine (Suc n) m =
     (case exec_insn m of
        (m1, Some st) \<Rightarrow> m1\<lparr>m_events := m_events m1 @ [st]\<rparr>
      | (m1, None) \<Rightarrow> run_machine n m1)"

lemma run_machine_numeral [simp]:
  "run_machine (numeral n) m =
     (case exec_insn m of
        (m1, Some st) \<Rightarrow> m1\<lparr>m_events := m_events m1 @ [st]\<rparr>
      | (m1, None) \<Rightarrow> run_machine (pred_numeral n) m1)"
  by (simp add: numeral_eq_Suc)

definition here :: "int \<Rightarrow> machine \<Rightarrow> bool" where
  "here p m \<longleftrightarrow> p = m_pid m \<and> m_alive m"

definition machine_mem :: "int \<Rightarrow> machine \<Rightarrow> mem" where
  "machine_mem p m = (if here p m then m_mem m else Map.empty)"

definition tiny_insn :: "u64 \<Rightarrow> u8 \<Rightarrow> cs_insn" where
  "tiny_insn a b = \<lparr>insn_address = a, insn_bytes = [b],
     mnemonic = (if b = 0xcc then ''int3'' else if b = 0xf4 then ''hlt'' else if b = 0xe0 then ''jmp'' else ''nop''), op_str = ''''\<rparr>"

fun tiny_disasm :: "u8 list \<Rightarrow> u64 \<Rightarrow> cs_insn list" where
  "tiny_disasm [] a = []"
| "tiny_disasm (b # bs) a = tiny_insn a b # tiny_disasm bs (a + 1)"

lemma length_tiny_disasm [simp]: "length (tiny_disasm bs a) = length bs"
  by (induction bs arbitrary: a) simp_all

text \<open>The steps of the process that a \<open>PTRACE_CONT\<close> runs at most.\<close>

definition run_fuel :: nat where "run_fuel = 32"

definition tiny_host :: "machine host" where
  "tiny_host =
     \<lparr>h_fork = (\<lambda>child m.
        (m_pid m, case child True True of
                    Exec _ \<Rightarrow> m\<lparr>m_alive := True, m_events := [sigtrap_stop]\<rparr>
                  | Child_Exit _ \<Rightarrow> m\<lparr>m_alive := False, m_events := [0xff00]\<rparr>)),
      h_waitpid = (\<lambda>p m.
        if p \<noteq> m_pid m then (Wait_Error, m)
        else (case m_events m of
                st # sts \<Rightarrow> (Waited st, m\<lparr>m_events := sts\<rparr>)
              | [] \<Rightarrow> (if m_alive m then Wait_Blocks else Wait_Error, m))),
      h_setoptions = (\<lambda>p m. m),
      h_getregs = (\<lambda>p m. if here p m then Some (m_regs m) else None),
      h_setregs = (\<lambda>p r m. if here p m then (True, m\<lparr>m_regs := r\<rparr>) else (False, m)),
      h_peek = (\<lambda>p a m. read_word (machine_mem p m) a),
      h_poke = (\<lambda>p a w m.
        if mapped_word (machine_mem p m) a then (True, m\<lparr>m_mem := write_word (m_mem m) a w\<rparr>)
        else (False, m)),
      h_singlestep = (\<lambda>p m.
        if here p m
        then (case exec_insn m of
                (m1, ev) \<Rightarrow> (True, m1\<lparr>m_events := m_events m1 @
                  [case ev of None \<Rightarrow> sigtrap_stop | Some st \<Rightarrow> st]\<rparr>))
        else (False, m)),
      h_cont = (\<lambda>p m. if here p m then run_machine run_fuel m else m),
      h_maps = (\<lambda>p m. if here p m then Some (m_maps m) else None),
      h_file = (\<lambda>f m. map_of (m_files m) f),
      h_disasm = tiny_disasm\<rparr>"

subsection \<open>The laws\<close>

lemma not_mapped_empty [simp]: "\<not> mapped_word Map.empty a"
  by (auto simp: mapped_word_iff intro: exI [of _ 0])

lemma tiny_host_simps [simp]:
  "h_peek tiny_host p a m = read_word (machine_mem p m) a"
  "h_poke tiny_host p a w m =
     (if mapped_word (machine_mem p m) a then (True, m\<lparr>m_mem := write_word (m_mem m) a w\<rparr>) else (False, m))"
  "h_getregs tiny_host p m = (if here p m then Some (m_regs m) else None)"
  "h_setregs tiny_host p r m = (if here p m then (True, m\<lparr>m_regs := r\<rparr>) else (False, m))"
  "h_maps tiny_host p m = (if here p m then Some (m_maps m) else None)"
  "h_cont tiny_host p m = (if here p m then run_machine run_fuel m else m)"
  "h_setoptions tiny_host p m = m"
  "h_file tiny_host f m = map_of (m_files m) f"
  "h_disasm tiny_host = tiny_disasm"
  by (simp_all add: tiny_host_def)

lemma tiny_waitpid [simp]:
  "h_waitpid tiny_host p m =
     (if p \<noteq> m_pid m then (Wait_Error, m)
      else (case m_events m of
              st # sts \<Rightarrow> (Waited st, m\<lparr>m_events := sts\<rparr>)
            | [] \<Rightarrow> (if m_alive m then Wait_Blocks else Wait_Error, m)))"
  by (simp add: tiny_host_def)

lemma tiny_singlestep [simp]:
  "h_singlestep tiny_host p m =
     (if here p m
      then (case exec_insn m of
              (m1, ev) \<Rightarrow> (True, m1\<lparr>m_events := m_events m1 @
                [case ev of None \<Rightarrow> sigtrap_stop | Some st \<Rightarrow> st]\<rparr>))
      else (False, m))"
  by (simp add: tiny_host_def)

lemma here_update [simp]:
  "here p (m\<lparr>m_mem := x\<rparr>) = here p m" "here p (m\<lparr>m_regs := r\<rparr>) = here p m"
  "here p (m\<lparr>m_events := e\<rparr>) = here p m"
  by (simp_all add: here_def)

lemma machine_mem_update [simp]:
  "machine_mem p (m\<lparr>m_regs := r\<rparr>) = machine_mem p m"
  "machine_mem p (m\<lparr>m_events := e\<rparr>) = machine_mem p m"
  by (simp_all add: machine_mem_def)

lemma machine_mem_mapped: "mapped_word (machine_mem p m) a \<Longrightarrow> here p m"
  by (simp add: machine_mem_def split: if_splits)

interpretation tiny: ptrace_host tiny_host machine_mem
proof unfold_locales
  fix p q :: int and a w :: u64 and r :: user_regs and k :: machine
  show "machine_mem p (snd (h_poke tiny_host p a w k)) =
      (if mapped_word (machine_mem p k) a then write_word (machine_mem p k) a w else machine_mem p k)"
    using machine_mem_mapped [of p k a] by (simp add: machine_mem_def)
qed (simp_all add: machine_mem_def split: if_splits)

definition pending_events :: "machine \<Rightarrow> nat" where
  "pending_events m = length (m_events m)"

interpretation tiny_waits: finite_waits tiny_host pending_events
  by unfold_locales (auto simp: pending_events_def split: if_splits list.splits)

end
