(* ===== verification/Sessions.thy ===== *)
theory Sessions
  imports Tiny_Machine
begin

text \<open>
  Closed examples: the debugger's commands on the machine of \<open>Tiny_Machine\<close>.  Each one
  applies a property of the development to a concrete state.
\<close>

subsection \<open>The example program\<close>

definition demo_mem :: mem where
  "demo_mem x = (if x - 0x1000 < 64 then Some (if x = 0x1030 then 0xf4 else 0x90) else None)"

definition zero_regs :: user_regs where
  "zero_regs = \<lparr>rax = 0, rbx = 0, rcx = 0, rdx = 0, r8 = 0, r9 = 0, r10 = 0, r11 = 0, r12 = 0,
     r13 = 0, r14 = 0, r15 = 0, rdi = 3, rsi = 0, rbp = 0, rsp = 0, rip = 0x1000, eflags = 0, other_regs = []\<rparr>"

text \<open>The process 42 with memory \<open>m\<close>, registers \<open>r\<close> and no event to report.\<close>

definition machine_at :: "mem \<Rightarrow> user_regs \<Rightarrow> machine" where
  "machine_at m r = \<lparr>m_pid = 42, m_alive = True, m_mem = m, m_regs = r,
     m_maps = [''1000-2000 r-xp 0 08:01 7 /bin/demo'' @ newline], m_events = [], m_files = []\<rparr>"

lemma machine_at_simps [simp]:
  "here 42 (machine_at m r)" "m_regs (machine_at m r) = r" "m_mem (machine_at m r) = m"
  "m_pid (machine_at m r) = 42" "m_alive (machine_at m r)" "m_events (machine_at m r) = []"
  "machine_mem 42 (machine_at m r) = m"
  "machine_at m r\<lparr>m_mem := m'\<rparr> = machine_at m' r" "machine_at m r\<lparr>m_regs := r'\<rparr> = machine_at m r'"
  by (simp_all add: machine_at_def here_def machine_mem_def)

lemma zero_rip [simp]: "rip zero_regs = 0x1000"
  by (simp add: zero_regs_def)

definition demo_image :: elf_image where
  "demo_image = \<lparr>img_begin = True, img_ident = None, img_ehdr32 = None, img_ehdr64 = None,
     img_phdr32 = None, img_phdr64 = None, img_scns = [], img_bytes = []\<rparr>"

definition demo_handle :: elf_handle_t where
  "demo_handle = \<lparr>eh_fd = 3, eh_elf = demo_image, clazz = 2, phnum = 0, shnum = 0, shstrndx = 0,
     entrypoint = 0x1000, eh_phdr = None, eh_shdr = None, eh_strtab = [], eh_sym = None, eh_dsym = None,
     eh_type = 2\<rparr>"

text \<open>Breakpoints at \<open>0x1004\<close> and \<open>0x1010\<close>, with the words saved for them.\<close>

definition demo_breaks :: "u64 \<Rightarrow> bp_t list" where
  "demo_breaks w = \<lparr>is_used = True, bp_addr = 0x1004, original_word = w\<rparr> #
     \<lparr>is_used = True, bp_addr = 0x1010, original_word = w\<rparr> #
     replicate 8 \<lparr>is_used = False, bp_addr = 0, original_word = 0\<rparr>"

definition demo_sdb :: "u64 \<Rightarrow> SDB" where
  "demo_sdb w = \<lparr>eh = Some demo_handle, strtab = None, path = ''/bin/demo'', pid = 42,
     breaks = demo_breaks w, last_disasm_addr = 0\<rparr>"

definition demo :: "u64 \<Rightarrow> machine \<Rightarrow> machine sys" where
  "demo w m = \<lparr>sdb = demo_sdb w, os = m, out = [], released = []\<rparr>"

lemma demo_fields [simp]:
  "sdb (demo w m) = demo_sdb w" "os (demo w m) = m" "out (demo w m) = []"
  "pid (demo_sdb w) = 42" "eh (demo_sdb w) = Some demo_handle" "path (demo_sdb w) = ''/bin/demo''"
  "length (demo_breaks w) = MAX_BREAK" "breaks (demo_sdb w) = demo_breaks w"
  "eh_type demo_handle = 2"
  by (simp_all add: demo_def demo_sdb_def demo_breaks_def demo_handle_def MAX_BREAK_def)

lemma less_MAX_BREAK: "i < MAX_BREAK \<longleftrightarrow> i = 0 \<or> i = 1 \<or> (\<exists>k<8. i = Suc (Suc k))"
proof -
  have "i < MAX_BREAK \<longleftrightarrow> i = 0 \<or> i = 1 \<or> (2 \<le> i \<and> i - 2 < 8)"
    unfolding MAX_BREAK_def by arith
  also have "2 \<le> i \<and> i - 2 < 8 \<longleftrightarrow> (\<exists>k<8. i = Suc (Suc k))"
    by (auto intro: exI [of _ "i - 2"])
  finally show ?thesis .
qed

lemma demo_used: "i < MAX_BREAK \<Longrightarrow> used_at (demo w m) i \<longleftrightarrow> i = 0 \<or> i = 1"
  by (auto simp: less_MAX_BREAK used_at_def demo_breaks_def)

lemma demo_live [simp]: "live_addr H (demo w m) a = Inr a"
  by (simp add: live_addr_def)

lemma demo_live_of: "live_of H (demo w m) 0 = 0x1004" "live_of H (demo w m) (Suc 0) = 0x1010"
  by (simp_all add: live_of_def demo_breaks_def)

lemma demo_planted: "planted H (demo w m) MAX_BREAK = {0x1004, 0x1010}"
proof -
  have "{i. i < MAX_BREAK \<and> used_at (demo w m) i} = {0, 1}"
    using demo_used [of _ w m] by (auto simp: MAX_BREAK_def)
  then show ?thesis by (simp add: planted_def demo_live_of)
qed

definition nops :: u64 where "nops = 0x9090909090909090"

lemma less_8_cases: "(i::nat) < 8 \<Longrightarrow> i = 0 \<or> i = 1 \<or> i = 2 \<or> i = 3 \<or> i = 4 \<or> i = 5 \<or> i = 6 \<or> i = 7"
  by arith

lemma byte_at_nops: "i < 8 \<Longrightarrow> byte_at nops i = 0x90"
  using less_8_cases [of i] by (auto simp: nops_def byte_at_def)

lemma demo_read: "read_word demo_mem 0x1004 = Some nops" "read_word demo_mem 0x1010 = Some nops"
proof -
  have "demo_mem (0x1004 + of_nat i) = Some 0x90 \<and> demo_mem (0x1010 + of_nat i) = Some 0x90" if "i < 8" for i
    using less_8_cases [OF that] by (auto simp: demo_mem_def)
  then show "read_word demo_mem 0x1004 = Some nops" "read_word demo_mem 0x1010 = Some nops"
    by (simp_all add: read_word_eq_Some byte_at_nops)
qed

lemma demo_placed: "well_placed H demo_mem (demo w m)"
proof -
  have "mapped_word demo_mem 0x1004" "mapped_word demo_mem 0x1010"
    using demo_read by (auto simp: read_word_def split: if_splits)
  moreover have "demo_mem 0x1004 \<noteq> Some 0xcc" "demo_mem 0x1010 \<noteq> Some 0xcc"
    by (simp_all add: demo_mem_def)
  ultimately show ?thesis
    by (auto simp: well_placed_def entry_live_def separated_def clean_code_def demo_used demo_live_of wf_sdb_def)
       (simp_all add: demo_breaks_def)
qed

text \<open>The program freshly started, and standing at its first breakpoint.\<close>

definition fresh :: "machine sys" where
  "fresh = demo 0 (machine_at demo_mem zero_regs)"

definition at_first :: "machine sys" where
  "at_first = demo nops (machine_at (with_int3 {0x1010} demo_mem) (zero_regs\<lparr>rip := 0x1004\<rparr>))"

lemma fresh_fields [simp]: "pid (sdb fresh) = 42" "os fresh = machine_at demo_mem zero_regs"
  by (simp_all add: fresh_def)

lemma fresh_debugged: "debugged tiny_host machine_mem demo_mem {} fresh"
  using demo_placed [of tiny_host 0] by (simp add: debugged_def armed_def) (simp add: fresh_def)

lemma fresh_away: "\<forall>i<MAX_BREAK. not_standing_at tiny_host fresh (os fresh) i"
  by (auto simp: not_standing_at_def fresh_def demo_used demo_live_of)

theorem patch_all_plants_witness:
  "\<exists>t. sdb_patch_all_bp tiny_host fresh = Inr t \<and> machine_mem 42 (os t) 0x1004 = Some 0xcc \<and>
     machine_mem 42 (os t) 0x1005 = Some 0x90"
proof -
  have "entry_live tiny_host (machine_mem (pid (sdb fresh)) (os fresh)) fresh"
    using demo_placed [of tiny_host 0] by (simp add: well_placed_def) (simp add: fresh_def)
  from patch_all_plants [OF tiny.ptrace_host_axioms this fresh_away]
  obtain t where t: "sdb_patch_all_bp tiny_host fresh = Inr t" "machine_mem 42 (os t) =
      (\<lambda>x. if \<exists>i<MAX_BREAK. used_at fresh i \<and> x = live_of tiny_host fresh i then Some 0xcc else demo_mem x)"
    unfolding fresh_fields machine_at_simps by blast
  have "(\<exists>i<MAX_BREAK. used_at fresh i \<and> x = live_of tiny_host fresh i) \<longleftrightarrow> x = 0x1004 \<or> x = 0x1010" for x
    using demo_planted [of tiny_host 0 "machine_at demo_mem zero_regs"]
    unfolding planted_def fresh_def by blast
  then show ?thesis by (intro exI [of _ t]) (simp add: t, simp add: demo_mem_def)
qed

theorem patch_all_keeps_program_witness:
  "\<exists>t. sdb_patch_all_bp tiny_host fresh = Inr t \<and>
     debugged tiny_host machine_mem demo_mem (planted tiny_host t MAX_BREAK) t"
  using patch_all_keeps_program [OF tiny.ptrace_host_axioms fresh_debugged fresh_away] by blast

subsection \<open>From the first breakpoint to the second\<close>

definition both :: "mem" where
  "both = with_int3 {0x1004, 0x1010} demo_mem"

definition at_pc :: "mem \<Rightarrow> u64 \<Rightarrow> machine" where
  "at_pc m pc = machine_at m (zero_regs\<lparr>rip := pc\<rparr>)"

lemma at_pc_simps [simp]:
  "here 42 (at_pc m a)" "m_regs (at_pc m a) = zero_regs\<lparr>rip := a\<rparr>" "m_mem (at_pc m a) = m"
  "m_pid (at_pc m a) = 42" "m_alive (at_pc m a)" "m_events (at_pc m a) = []"
  "machine_mem 42 (at_pc m a) = m"
  "at_pc m a\<lparr>m_mem := m'\<rparr> = at_pc m' a" "at_pc m a\<lparr>m_regs := zero_regs\<lparr>rip := b\<rparr>\<rparr> = at_pc m b"
  "at_pc m a\<lparr>m_events := []\<rparr> = at_pc m a"
  "m_maps (at_pc m a) = m_maps (machine_at Map.empty zero_regs)"
  by (simp_all add: at_pc_def, simp_all add: machine_at_def)

lemma at_first_alt: "at_first = demo nops (at_pc (with_int3 {0x1010} demo_mem) 0x1004)"
  by (simp add: at_first_def at_pc_def)

lemma demo_exec:
  "x - 0x1000 < 64 \<Longrightarrow> x \<noteq> 0x1030 \<Longrightarrow> x \<notin> A \<Longrightarrow>
     exec_insn (at_pc (with_int3 A demo_mem) x) = (at_pc (with_int3 A demo_mem) (x + 1), None)"
  "x \<in> A \<Longrightarrow> exec_insn (at_pc (with_int3 A demo_mem) x) = (at_pc (with_int3 A demo_mem) (x + 1), Some sigtrap_stop)"
  by (simp_all add: exec_insn_def with_int3_def demo_mem_def)

lemma step_demo:
  "steps_to tiny_host machine_mem 42 (at_pc (with_int3 {0x1010} demo_mem) 0x1004) {0x1010} demo_mem
     (zero_regs\<lparr>rip := 0x1005\<rparr>)"
  by (auto simp: steps_to_def demo_exec)

lemma at_first_debugged: "debugged tiny_host machine_mem demo_mem {0x1010} at_first"
  using demo_placed [of tiny_host nops]
  by (auto simp: debugged_def at_first_alt demo_planted armed_def demo_used demo_live_of demo_read)
     (simp_all add: demo_breaks_def)

lemma at_first_simps:
  "(0::nat) < MAX_BREAK" "used_at at_first 0" "pid (sdb at_first) = 42" "live_of tiny_host at_first 0 = 0x1004"
  "(1::nat) < MAX_BREAK" "used_at at_first 1" "live_of tiny_host at_first 1 = 0x1010"
  "planted tiny_host at_first MAX_BREAK = {0x1004, 0x1010}"
  by (simp_all add: at_first_alt used_at_def demo_breaks_def live_of_def demo_planted)
     (simp_all add: MAX_BREAK_def)

theorem patch_all_rearms_witness:
  "\<exists>t. sdb_patch_all_bp tiny_host at_first = Inr t \<and>
     h_getregs tiny_host 42 (os t) = Some (zero_regs\<lparr>rip := 0x1005\<rparr>) \<and>
     debugged tiny_host machine_mem demo_mem (planted tiny_host t MAX_BREAK) t"
proof -
  note first = at_first_simps
  have regs: "h_getregs tiny_host (pid (sdb at_first)) (os at_first) = Some (zero_regs\<lparr>rip := 0x1004\<rparr>)"
      "rip (zero_regs\<lparr>rip := 0x1004\<rparr>) = live_of tiny_host at_first 0"
    by (simp_all add: first) (simp add: at_first_alt)
  have step: "steps_to tiny_host machine_mem (pid (sdb at_first)) (os t) (planted tiny_host at_first 0 \<union> {0x1010})
      demo_mem (zero_regs\<lparr>rip := 0x1005\<rparr>)"
    if "for_upto (patch_bp tiny_host) 0 0 at_first = Inr (Next t)" for t
    using that step_demo by (auto simp: first) (simp add: at_first_alt)
  have away: "rip (zero_regs\<lparr>rip := 0x1005\<rparr>) \<noteq> live_of tiny_host at_first j"
    if "0 < j" "j < MAX_BREAK" "used_at at_first j" for j
    using that by (auto simp: at_first_alt demo_used demo_live_of)
  from patch_all_rearms [OF tiny.ptrace_host_axioms at_first_debugged first(1,2) regs step same_code_refl away]
  show ?thesis unfolding first by blast
qed

lemma demo_read_int3:
  "read_word (with_int3 {0x1010} demo_mem) 0x1004 = Some nops"
  "\<exists>w. read_word both 0x1010 = Some w \<and> w AND 0xff = 0xcc"
proof -
  have "with_int3 {0x1010} demo_mem (0x1004 + of_nat i) = demo_mem (0x1004 + of_nat i)" if "i < 8" for i
    using less_8_cases [OF that] by (auto simp: with_int3_def)
  then show "read_word (with_int3 {0x1010} demo_mem) 0x1004 = Some nops"
    using demo_read(1) read_word_cong by metis
  have "mapped_word demo_mem 0x1010" using demo_read(2) by (auto simp: read_word_def split: if_splits)
  then obtain w where w: "read_word both 0x1010 = Some w"
    using mapped_with_int3 by (auto simp: both_def read_word_def)
  moreover have "both 0x1010 = Some 0xcc" by (simp add: both_def with_int3_def)
  ultimately have "byte_at w 0 = 0xcc" using read_word_byte [OF w] by simp
  with w show "\<exists>w. read_word both 0x1010 = Some w \<and> w AND 0xff = 0xcc" by (auto simp: low_byte_eq)
qed

lemma write_both: "write_word (with_int3 {0x1010} demo_mem) 0x1004 (set_low_byte nops) = both"
  by (simp add: write_set_low [OF demo_read_int3(1)] both_def flip: with_int3_insert)

lemma patch_first: "patch_bp tiny_host 0 at_first = Inr (Next (demo nops (at_pc both 0x1005)))"
proof -
  have step: "step_over tiny_host at_first = Inr (demo nops (at_pc (with_int3 {0x1010} demo_mem) 0x1005))"
    by (simp add: step_over_def at_first_alt demo_exec) (simp add: demo_def)
  have peek: "peek_value tiny_host 42 0x1004 (at_pc (with_int3 {0x1010} demo_mem) 0x1005) = nops"
    by (simp add: peek_value_def demo_read_int3)
  have low: "nops AND 0xff \<noteq> 0xcc" "(nops AND 0xffffffffffffff00) OR 0xcc = set_low_byte nops"
    by (simp add: nops_def) (simp add: set_low_byte_def)
  have mapped: "mapped_word (with_int3 {0x1010} demo_mem) 0x1004"
    using demo_read_int3(1) by (auto simp: read_word_def split: if_splits)
  have "plant_word tiny_host 0 0x1004 (demo nops (at_pc (with_int3 {0x1010} demo_mem) 0x1005)) =
      Inr (Next (demo nops (at_pc both 0x1005)))"
    using mapped by (simp add: plant_word_def peek low write_both set_bp_def demo_breaks_def)
      (simp add: demo_def demo_sdb_def demo_breaks_def)
  then show ?thesis using step
    by (simp add: patch_bp_def at_first_alt demo_breaks_def MAX_BREAK_def index_at_def)
qed

lemma patch_rest:
  assumes "0 < i" "i < MAX_BREAK"
  shows "patch_bp tiny_host i (demo nops (at_pc both 0x1005)) = Inr (Next (demo nops (at_pc both 0x1005)))"
proof -
  obtain w where "read_word both 0x1010 = Some w" "w AND 0xff = 0xcc" using demo_read_int3(2) by blast
  then show ?thesis
    using assms by (auto simp: less_MAX_BREAK patch_bp_def plant_word_def peek_value_def demo_breaks_def index_at_def)
qed

lemma patch_at_first: "sdb_patch_all_bp tiny_host at_first = Inr (demo nops (at_pc both 0x1005))"
proof -
  have "for_upto (patch_bp tiny_host) (Suc 0) (MAX_BREAK - 1) (demo nops (at_pc both 0x1005)) =
      Inr (Next (demo nops (at_pc both 0x1005)))"
    by (rule for_upto_skip) (auto intro: patch_rest)
  then have "for_upto (patch_bp tiny_host) 0 (Suc (MAX_BREAK - 1)) at_first = Inr (Next (demo nops (at_pc both 0x1005)))"
    by (simp add: patch_first)
  then show ?thesis by (simp add: sdb_patch_all_bp_def MAX_BREAK_def)
qed

lemma run_demo:
  "run_machine run_fuel (at_pc both 0x1005) = at_pc both 0x1011\<lparr>m_events := [sigtrap_stop]\<rparr>"
  by (simp add: run_fuel_def both_def demo_exec)

lemma at_first_stopped:
  "stopped_at tiny_host machine_mem demo_mem 0 (zero_regs\<lparr>rip := 0x1004\<rparr>) at_first"
  using at_first_debugged
  by (simp add: stopped_at_def at_first_simps all_live_def insert_Diff_if)
     (simp add: at_first_alt live_of_def)

lemma at_first_runs:
  "runs_into tiny_host machine_mem (demo nops (at_pc both 0x1005)) demo_mem 1 (zero_regs\<lparr>rip := 0x1011\<rparr>)"
  by (simp add: runs_into_def run_demo demo_planted demo_live_of)
     (simp add: both_def WIFSTOPPED_def sigtrap_stop_def)

theorem cont_breakpoint_to_breakpoint_witness:
  "\<exists>s'. sdb_cont tiny_host at_first = Some (Inr s') \<and>
     stopped_at tiny_host machine_mem demo_mem 1 (zero_regs\<lparr>rip := 0x1010\<rparr>) s'"
proof -
  have running: "sdb_is_running (sdb at_first)" by (simp add: sdb_is_running_def at_first_simps)
  have step: "steps_to tiny_host machine_mem (pid (sdb at_first)) (os t)
      (planted tiny_host at_first MAX_BREAK - {live_of tiny_host at_first 0}) demo_mem (zero_regs\<lparr>rip := 0x1005\<rparr>)"
    if "for_upto (patch_bp tiny_host) 0 0 at_first = Inr (Next t)" for t
    using that step_demo by (auto simp: at_first_simps insert_Diff_if) (simp add: at_first_alt)
  have away: "rip (zero_regs\<lparr>rip := 0x1005\<rparr>) \<noteq> live_of tiny_host at_first j"
    if "0 < j" "j < MAX_BREAK" "used_at at_first j" for j
    using that by (auto simp: at_first_alt demo_used demo_live_of)
  have run: "runs_into tiny_host machine_mem t demo_mem 1 (zero_regs\<lparr>rip := 0x1011\<rparr>)"
    if "sdb_patch_all_bp tiny_host at_first = Inr t" for t
    using that at_first_runs by (simp add: patch_at_first)
  have fits: "insn_fits tiny_host 1 (live_of tiny_host at_first 1)"
    by (auto simp: insn_fits_def Let_def word_bytes_def upt_rec [of _ 8] tiny_insn_def)
  have "\<exists>s'. sdb_cont tiny_host at_first = Some (Inr s') \<and> same_table (sdb at_first) (sdb s') \<and>
      stopped_at tiny_host machine_mem demo_mem 1
         (zero_regs\<lparr>rip := 0x1011, rip := live_of tiny_host at_first 1\<rparr>) s'"
    by (rule cont_breakpoint_to_breakpoint [OF tiny.ptrace_host_axioms running at_first_stopped _
          same_code_refl _ _ same_code_refl at_first_simps(5,6) fits])
       (fact step away run)+
  then obtain s' where "sdb_cont tiny_host at_first = Some (Inr s')" "stopped_at tiny_host machine_mem demo_mem 1
      (zero_regs\<lparr>rip := 0x1011, rip := live_of tiny_host at_first 1\<rparr>) s'"
    by (elim exE conjE)
  then show ?thesis by (intro exI [of _ s']) (simp add: at_first_simps(7) [simplified])
qed

theorem hit_bp_output_witness:
  "map_sum id out (hit_bp tiny_host 0 0x1004 zero_regs at_first) =
     Inr [Stdout (''** breakpoint @ '' @ pad_left (CHR '' '') 10 (show_llx (0x1004 :: u64)) @ '': '' @
       pad_right 21 (show_02x 0x90 @ '' '') @ pad_right 7 ''nop'' @ newline)]"
proof -
  have len: "(0::nat) < length (breaks (sdb at_first))" by (simp add: at_first_alt demo_breaks_def)
  have mapped: "mapped_word (machine_mem (pid (sdb at_first)) (os at_first)) 0x1004"
    using demo_read_int3(1) by (auto simp: at_first_alt read_word_def split: if_splits)
  have ow: "original_word (breaks (sdb at_first) ! 0) = nops" by (simp add: at_first_alt demo_breaks_def)
  have dis: "h_disasm tiny_host (word_bytes (original_word (breaks (sdb at_first) ! 0))) 0x1004 =
      tiny_insn 0x1004 0x90 # tiny_disasm (map (byte_at nops) [1..<8]) 0x1005"
    unfolding ow by (simp add: word_bytes_def upt_rec [of 0] byte_at_nops)
  show ?thesis
    using hit_bp_output [OF tiny.ptrace_host_axioms len mapped dis, of zero_regs]
    by (simp add: tiny_insn_def at_first_alt)
qed

subsection \<open>Without breakpoints\<close>

definition bare :: "machine \<Rightarrow> machine sys" where
  "bare m = \<lparr>sdb = (demo_sdb 0)\<lparr>breaks := replicate MAX_BREAK \<lparr>is_used = False, bp_addr = 0, original_word = 0\<rparr>\<rparr>,
     os = m, out = [], released = []\<rparr>"

lemma bare_fields [simp]:
  "os (bare m) = m" "out (bare m) = []" "pid (sdb (bare m)) = 42" "wf_sdb (sdb (bare m))"
  "sdb_is_running (sdb (bare m))" "bare m\<lparr>os := m'\<rparr> = bare m'" "i < MAX_BREAK \<Longrightarrow> \<not> used_at (bare m) i"
  "live_addr H (bare m) a = Inr a"
  by (simp_all add: bare_def wf_sdb_def sdb_is_running_def used_at_def live_addr_def)

lemma bare_patch: "sdb_patch_all_bp tiny_host (bare m) = Inr (bare m)"
proof -
  have "for_upto (patch_bp tiny_host) 0 MAX_BREAK (bare m) = Inr (Next (bare m))"
    by (rule for_upto_skip) (simp add: patch_bp_def bare_def)
  then show ?thesis by (simp add: sdb_patch_all_bp_def)
qed

lemma run_to_end:
  "run_machine run_fuel (at_pc demo_mem 0x102e) = at_pc demo_mem 0x1030\<lparr>m_alive := False, m_events := [768]\<rparr>"
proof -
  have "exec_insn (at_pc demo_mem 0x1030) = (at_pc demo_mem 0x1030\<lparr>m_alive := False\<rparr>, Some 768)"
    by (simp add: exec_insn_def demo_mem_def zero_regs_def)
  then show ?thesis using demo_exec(1) [where A = "{}"] by (simp add: run_fuel_def)
qed

theorem cont_reports_exit_witness:
  "\<exists>s'. sdb_cont tiny_host (bare (at_pc demo_mem 0x102e)) = Some (Inr s') \<and>
     out s' = [Stdout (''** child process '' @ show_d 42 @ '' exited with error (code '' @ show_d 768 @ '')'' @ newline)]"
proof -
  let ?s = "bare (at_pc demo_mem 0x102e)"
  have w1: "h_waitpid tiny_host (pid (sdb ?s)) (h_cont tiny_host (pid (sdb ?s)) (os ?s)) =
      (Waited (of_nat (256 * 3)), at_pc demo_mem 0x1030\<lparr>m_alive := False, m_events := []\<rparr>)"
    by (simp add: run_to_end)
  have w2: "h_waitpid tiny_host (pid (sdb ?s)) (at_pc demo_mem 0x1030\<lparr>m_alive := False, m_events := []\<rparr>) =
      (Wait_Error, at_pc demo_mem 0x1030\<lparr>m_alive := False, m_events := []\<rparr>)"
    by simp
  have "(3::nat) < 256" by simp
  from cont_reports_exit [OF bare_fields(5) bare_patch this w1 w2] show ?thesis by auto
qed

lemma run_off_end:
  "run_machine run_fuel (at_pc demo_mem 0x2000) = at_pc demo_mem 0x2000\<lparr>m_events := [sigsegv_stop]\<rparr>"
  by (simp add: run_fuel_def exec_insn_def demo_mem_def)

theorem cont_blocks_on_other_stop_witness:
  "sdb_cont tiny_host (bare (at_pc demo_mem 0x2000)) = Some (Inl Blocked)"
proof -
  let ?s = "bare (at_pc demo_mem 0x2000)"
  have w1: "h_waitpid tiny_host (pid (sdb ?s)) (h_cont tiny_host (pid (sdb ?s)) (os ?s)) =
      (Waited sigsegv_stop, at_pc demo_mem 0x2000)"
    by (simp add: run_off_end)
  have st: "WIFSTOPPED sigsegv_stop" by (simp add: WIFSTOPPED_def sigsegv_stop_def)
  have regs: "h_getregs tiny_host (pid (sdb ?s)) (at_pc demo_mem 0x2000) = Some (zero_regs\<lparr>rip := 0x2000\<rparr>)"
    by simp
  have live: "all_live tiny_host (?s\<lparr>os := at_pc demo_mem 0x2000\<rparr>)" by (simp add: all_live_def live_of_def)
  have away: "live_of tiny_host (?s\<lparr>os := at_pc demo_mem 0x2000\<rparr>) i \<noteq> rip (zero_regs\<lparr>rip := 0x2000\<rparr>) - 1"
    if "i < MAX_BREAK" "used_at ?s i" for i
    using that by simp
  have w2: "h_waitpid tiny_host (pid (sdb ?s)) (at_pc demo_mem 0x2000) = (Wait_Blocks, at_pc demo_mem 0x2000)"
    by simp
  show ?thesis
    by (rule cont_blocks_on_other_stop [OF bare_fields(5) bare_patch bare_fields(4) w1 st regs live _ w2])
       (fact away)
qed

theorem cont_and_run_return_witness:
  "(\<exists>r. sdb_cont tiny_host at_first = Some r) \<and> (\<exists>r. sdb_run tiny_host at_first = Some r)"
  by (rule cont_and_run_return [OF tiny_waits.finite_waits_axioms])

end
