(* ===== verification/Table_Sessions.thy ===== *)
theory Table_Sessions
  imports Sessions
begin

text \<open>
  Closed examples for the properties of the ELF reader, of relocation and of the
  breakpoint table.
\<close>

subsection \<open>The ELF reader\<close>

definition raw_zero :: elf_shdr_t where
  "raw_zero = \<lparr>sh_name = 0, sh_type = 0, sh_flags = 0, sh_addr = 0, sh_offset = 0, sh_size = 0,
     sh_link = 0, sh_info = 0, sh_addralign = 0, sh_entsize = 0\<rparr>"

definition lib :: elf_host where
  "lib = \<lparr>lib_open = (\<lambda>_. None), malloc_ok = (\<lambda>_. True), raw_shdr = (\<lambda>_. raw_zero)\<rparr>"

text \<open>Section 1 is a string table of three bytes, section 2 a symbol table of one entry.\<close>

definition names_hdr :: "u64 Elf_Shdr" where
  "names_hdr = \<lparr>s_name = 1, s_type = 3, s_flags = 0, s_addr = 0, s_offset = 0, s_size = 3,
     s_link = 0, s_info = 0, s_addralign = 1, s_entsize = 0\<rparr>"

definition syms_hdr :: "u64 Elf_Shdr" where
  "syms_hdr = \<lparr>s_name = 1, s_type = 2, s_flags = 0, s_addr = 0, s_offset = 3, s_size = 24,
     s_link = 1, s_info = 0, s_addralign = 1, s_entsize = 24\<rparr>"

definition prog_hdr :: "u64 Elf_Phdr" where
  "prog_hdr = \<lparr>p_type = 1, p_offset = 0, p_vaddr = 0, p_paddr = 0, p_filesz = 0, p_memsz = 0,
     p_flags = 5, p_align = 0\<rparr>"

definition small_image :: elf_image where
  "small_image = \<lparr>img_begin = True, img_ident = None, img_ehdr32 = None, img_ehdr64 = None,
     img_phdr32 = None, img_phdr64 = Some [prog_hdr],
     img_scns = [(1, None, Some names_hdr), (2, None, Some syms_hdr)],
     img_bytes = [0, 0x61, 0] @ [1, 0, 0, 0, 0x12, 2, 5, 0, 0, 0x10, 0x40, 0, 0, 0, 0, 0, 7, 0, 0, 0, 0, 0, 0, 0]\<rparr>"

definition small_handle :: elf_handle_t where
  "small_handle = \<lparr>eh_fd = 3, eh_elf = small_image, clazz = 2, phnum = 1, shnum = 3, shstrndx = 1,
     entrypoint = 0, eh_phdr = None, eh_shdr = None, eh_strtab = [], eh_sym = None, eh_dsym = None,
     eh_type = 2\<rparr>"

definition small_shdrs :: "elf_shdr_t list" where
  "small_shdrs = [raw_zero, assign_shdr names_hdr, assign_shdr syms_hdr]"

lemma small_load_shdr:
  "elf_load_shdr lib small_handle = Inr (Some small_shdrs, small_handle\<lparr>eh_shdr := Some small_shdrs\<rparr>)"
  by (simp add: elf_load_shdr_def small_handle_def lib_def ELFCLASS32_def ELFCLASS64_def small_image_def
      upt_rec small_shdrs_def)

theorem elf_load_shdr_faithful_witness:
  "length small_shdrs = 3 \<and> small_shdrs ! 1 = assign_shdr names_hdr \<and> small_shdrs ! 0 = raw_zero"
proof -
  have h: "eh_shdr small_handle = None" "\<forall>x \<in> set (img_scns (eh_elf small_handle)). fst x < shnum small_handle"
    "distinct (map fst (img_scns (eh_elf small_handle)))" "1 < shnum small_handle" "0 < shnum small_handle"
    by (simp_all add: small_handle_def small_image_def)
  note faithful = elf_load_shdr_faithful [OF h(1) small_load_shdr h(2,3)]
  show ?thesis
    using faithful [OF h(4)] faithful [OF h(5)]
    by (simp add: small_handle_def small_image_def ELFCLASS32_def lib_def)
qed

lemma small_strtab:
  "strtab_loop lib (img_bytes small_image) 0 small_shdrs [] =
     Some [\<lparr>tab_id = 1, datasize = 3, tab_data = chars_of [0, 0x61, 0]\<rparr>]"
  by (simp add: small_shdrs_def raw_zero_def assign_shdr_def names_hdr_def syms_hdr_def SHT_STRTAB_def
      lib_def small_image_def pread_exact_def pread_file_def)

abbreviation with_shdrs :: elf_handle_t where
  "with_shdrs \<equiv> small_handle\<lparr>eh_phdr := Some [assign_phdr prog_hdr], eh_shdr := Some small_shdrs,
     eh_strtab := [\<lparr>tab_id = 1, datasize = 3, tab_data = chars_of [0, 0x61, 0]\<rparr>]\<rparr>"

lemma small_symtab:
  "\<exists>tab. elf_load_symtab_internal lib with_shdrs (assign_shdr syms_hdr) = Inr (Some tab, with_shdrs) \<and>
     length (sym_symbol tab) = 1"
  by (simp add: elf_load_symtab_internal_def elf_load_shdr_def elf_load_strtab_def small_handle_def
      lib_def ELFCLASS32_def ELFCLASS64_def Let_def)
     (simp add: assign_shdr_def syms_hdr_def small_image_def pread_exact_def pread_file_def)

definition start_sym :: elf_sym where
  "start_sym = \<lparr>st_name = 1, st_info = 0x12, st_other = 2, st_shndx = 5, st_value = 0x401000, st_size = 7\<rparr>"

theorem elf_load_symtab_entries_witness:
  "\<exists>tab. elf_load_symtab_internal lib with_shdrs (assign_shdr syms_hdr) = Inr (Some tab, with_shdrs) \<and>
     sym_symbol tab = [\<lparr>sym_name = 1, sym_info = 0x12, sym_other = 2, shndx = 5, sym_value = 0x401000, sym_size = 7,
       sym_bind = 1, sym_type = 2, visibility = 2\<rparr>]"
proof -
  obtain tab where tab: "elf_load_symtab_internal lib with_shdrs (assign_shdr syms_hdr) = Inr (Some tab, with_shdrs)"
    using small_symtab by blast
  have "sym_bytes 2 start_sym = [1, 0, 0, 0, 0x12, 2, 5, 0, 0, 0x10, 0x40, 0, 0, 0, 0, 0, 7, 0, 0, 0, 0, 0, 0, 0]"
    by (simp add: sym_bytes_def start_sym_def ELFCLASS32_def le_bytes_def byte_at_def upt_rec)
  then have "take (unat (sh_size (assign_shdr syms_hdr))) (drop (unat (sh_offset (assign_shdr syms_hdr)))
      (img_bytes (eh_elf with_shdrs))) = concat (map (sym_bytes (clazz with_shdrs)) [start_sym]) @ []"
    by (simp add: assign_shdr_def syms_hdr_def small_handle_def small_image_def)
  from elf_load_symtab_entries [OF tab this] have "sym_symbol tab = [entry_of 2 start_sym]"
    by (simp add: small_handle_def entry_size_def)
  then show ?thesis using tab by (simp add: entry_of_def start_sym_def ELFCLASS32_def)
qed

lemma small_load_all: "\<exists>e. elf_load_all lib small_handle = Inr (True, e)"
proof -
  let ?ph = "small_handle\<lparr>eh_phdr := Some [assign_phdr prog_hdr]\<rparr>"
  have ph: "elf_load_phdr lib small_handle = Inr (Some [assign_phdr prog_hdr], ?ph)"
    by (simp add: elf_load_phdr_def small_handle_def lib_def ELFCLASS32_def ELFCLASS64_def iter_phdr_def small_image_def)
  have sh: "elf_load_shdr lib ?ph = Inr (Some small_shdrs, ?ph\<lparr>eh_shdr := Some small_shdrs\<rparr>)"
    by (simp add: elf_load_shdr_def small_handle_def lib_def ELFCLASS32_def ELFCLASS64_def small_image_def
      upt_rec small_shdrs_def)
  have st: "elf_load_strtab lib (?ph\<lparr>eh_shdr := Some small_shdrs\<rparr>) = Inr (eh_strtab with_shdrs, with_shdrs)"
    using small_strtab by (simp add: elf_load_strtab_def elf_load_shdr_def small_handle_def)
  obtain tab where tab: "elf_load_symtab_internal lib with_shdrs (assign_shdr syms_hdr) = Inr (Some tab, with_shdrs)"
    using small_symtab by blast
  have f: "find (\<lambda>h. sh_type h = SHT_SYMTAB) small_shdrs = Some (assign_shdr syms_hdr)"
    "find (\<lambda>h. sh_type h = SHT_DYNSYM) small_shdrs = None"
    by (simp_all add: small_shdrs_def raw_zero_def names_hdr_def syms_hdr_def assign_shdr_def
        SHT_SYMTAB_def SHT_DYNSYM_def)
  have ld: "elf_load_shdr lib e = Inr (eh_shdr e, e)" if "eh_shdr e \<noteq> None" for e
    using that by (auto simp: elf_load_shdr_def)
  have sy: "elf_load_symtab lib with_shdrs = Inr (Some tab, with_shdrs\<lparr>eh_sym := Some tab\<rparr>)"
    using tab f(1) ld [of with_shdrs] by (simp add: elf_load_symtab_def) (simp add: small_handle_def)
  have "elf_load_dsymtab lib (with_shdrs\<lparr>eh_sym := Some tab\<rparr>) = Inr (None, with_shdrs\<lparr>eh_sym := Some tab\<rparr>)"
    using f(2) ld [of "with_shdrs\<lparr>eh_sym := Some tab\<rparr>"]
    by (simp add: elf_load_dsymtab_def) (simp add: small_handle_def)
  with ph sh st sy show ?thesis by (simp add: elf_load_all_def)
qed

theorem elf_load_all_tables_witness:
  "\<exists>e. elf_load_all lib small_handle = Inr (True, e) \<and> wf_handle e \<and> eh_strtab e \<noteq> []"
proof -
  have h: "eh_phdr small_handle = None" "eh_shdr small_handle = None" "eh_strtab small_handle = []"
    by (simp_all add: small_handle_def)
  obtain e where e: "elf_load_all lib small_handle = Inr (True, e)" using small_load_all by blast
  from elf_load_all_tables [OF h e] e show ?thesis by simp
qed

subsection \<open>Relocation\<close>

definition pie_map :: "u64 \<Rightarrow> string \<Rightarrow> string option \<Rightarrow> mapping_entry" where
  "pie_map a perms f = \<lparr>map_begin = a, map_end = a + 0x1000, map_perms = perms, map_offset = ''0'',
     map_dev = ''08:01'', map_inode = ''7'', map_blanks = 4, map_path = f\<rparr>"

definition pie_maps :: "mapping_entry list" where
  "pie_maps = [pie_map 0x5000 ''r--p'' (Some ''/bin/demo''), pie_map 0x6000 ''r-xp'' (Some ''/bin/demo''),
     pie_map 0x9000 ''rw-p'' None]"

definition pie :: "machine sys" where
  "pie = bare (machine_at demo_mem zero_regs\<lparr>m_maps := map mapping_line pie_maps\<rparr>)"

theorem convert_dynamic_addr_rendered_witness:
  "convert_dynamic_addr tiny_host pie 0x44 = Inr 0x6044"
proof -
  have maps: "h_maps tiny_host (pid (sdb pie)) (os pie) = Some (map mapping_line pie_maps)"
    by (simp add: pie_def) (simp add: here_def)
  have wf: "\<forall>m \<in> set pie_maps. wf_mapping m" "pie_maps \<noteq> []"
    by (simp_all add: pie_maps_def pie_map_def wf_mapping_def plain_token_def maps_delim_def)
  have path: "path (sdb pie) = ''/bin/demo''" by (simp add: pie_def bare_def)
  have "find (exec_of ''/bin/demo'') pie_maps = Some (pie_map 0x6000 ''r-xp'' (Some ''/bin/demo''))"
    by (simp add: pie_maps_def pie_map_def exec_of_def)
  with convert_dynamic_addr_rendered [OF maps wf] show ?thesis by (simp add: path pie_map_def)
qed

subsection \<open>The breakpoint table\<close>

text \<open>A program that is loaded but not running, with the given table.\<close>

definition idle :: "bp_t list \<Rightarrow> machine sys" where
  "idle bs = \<lparr>sdb = (demo_sdb 0)\<lparr>pid := - 1, breaks := bs\<rparr>, os = machine_at demo_mem zero_regs,
     out = [], released = []\<rparr>"

lemma idle_fields [simp]:
  "breaks (sdb (idle bs)) = bs" "sdb_is_loaded (sdb (idle bs))" "\<not> sdb_is_running (sdb (idle bs))"
  "out (idle bs) = []" "wf_sdb (sdb (idle bs)) \<longleftrightarrow> length bs = MAX_BREAK"
  by (simp_all add: idle_def sdb_is_loaded_def sdb_is_running_def wf_sdb_def)

definition no_bp :: bp_t where "no_bp = \<lparr>is_used = False, bp_addr = 0, original_word = 0\<rparr>"
definition some_bp :: bp_t where "some_bp = \<lparr>is_used = True, bp_addr = 0x1004, original_word = 0\<rparr>"

definition one_used :: "bp_t list" where "one_used = some_bp # replicate 9 no_bp"

lemma one_used_simps [simp]: "length one_used = MAX_BREAK" "first_free one_used = Some 1"
  by (simp_all add: one_used_def MAX_BREAK_def first_free_def upt_rec some_bp_def no_bp_def)

lemma set_break_idle:
  "\<exists>s'. sdb_set_break tiny_host (CHR ''0'' # CHR ''x'' # show_llx (0x1010 :: u64)) (idle one_used) = Inr s'"
proof -
  have "\<not> sdb_is_running (sdb (set_bp 1 f (idle one_used)))" for f
    by (simp add: sdb_is_running_def) (simp add: idle_def)
  then show ?thesis by (simp add: sdb_set_break_def skip_0x_def Let_def)
qed

theorem sdb_set_break_table_witness:
  "\<exists>s' i. sdb_set_break tiny_host (CHR ''0'' # CHR ''x'' # show_llx (0x1010 :: u64)) (idle one_used) = Inr s' \<and>
     bp_table (sdb s') = (bp_table (sdb (idle one_used)))(i \<mapsto> 0x1010)"
proof -
  obtain s' where "sdb_set_break tiny_host (CHR ''0'' # CHR ''x'' # show_llx (0x1010 :: u64)) (idle one_used) = Inr s'"
    using set_break_idle by blast
  with sdb_set_break_table [OF _ _ this] show ?thesis by auto
qed

theorem sdb_set_break_full_witness:
  "sdb_set_break tiny_host (CHR ''0'' # CHR ''x'' # show_llx (0x1010 :: u64)) (idle (replicate MAX_BREAK some_bp)) =
     Inl Uninit_Read"
proof -
  have "wf_sdb (sdb (idle (replicate MAX_BREAK some_bp)))"
    "bp_table (sdb (idle (replicate MAX_BREAK some_bp))) i \<noteq> None" if "i < MAX_BREAK" for i
    using that by (simp_all add: bp_table_def some_bp_def)
  with sdb_set_break_full [where s = "idle (replicate MAX_BREAK some_bp)" and H = tiny_host and a = "0x1010"] show ?thesis by simp
qed

theorem sdb_delete_table_witness:
  "bp_table (sdb (sdb_delete tiny_host 0 (idle one_used))) = Map.empty"
proof -
  have "wf_sdb (sdb (idle one_used))" by simp
  note del = sdb_delete_table [OF this, of 0 tiny_host]
  have "bp_table (sdb (idle one_used)) = [0 \<mapsto> 0x1004]"
    by (auto simp: bp_table_def one_used_def fun_eq_iff some_bp_def no_bp_def nth_Cons split: nat.splits)
  with del show ?thesis by simp
qed

theorem set_then_delete_witness:
  "\<exists>s' i. sdb_set_break tiny_host (CHR ''0'' # CHR ''x'' # show_llx (0x1010 :: u64)) (idle one_used) = Inr s' \<and>
     bp_table (sdb (sdb_delete tiny_host (int i) s')) = bp_table (sdb (idle one_used))"
proof -
  obtain s' where "sdb_set_break tiny_host (CHR ''0'' # CHR ''x'' # show_llx (0x1010 :: u64)) (idle one_used) = Inr s'"
    using set_break_idle by blast
  with set_then_delete [OF _ _ this] show ?thesis by auto
qed

theorem sdb_list_shows_table_witness:
  "out (sdb_list (idle one_used)) = [Stdout (''   0: 1004'' @ newline)]"
proof -
  have "wf_sdb (sdb (idle one_used))" by simp
  note l = sdb_list_shows_table [OF this]
  have t: "bp_table (sdb (idle one_used)) = [0 \<mapsto> 0x1004]"
    by (auto simp: bp_table_def one_used_def fun_eq_iff some_bp_def no_bp_def nth_Cons split: nat.splits)
  show ?thesis
    unfolding l t
    by (simp add: MAX_BREAK_def upt_rec show_d_def show_llx_def show_base.simps pad_left_def)
       (intro conjI, simp add: numeral_3_eq_3, simp_all add: digit_char_def char_of_def bit_0)
qed

end
