(* ===== verification/Sdb_Memory.thy ===== *)
theory Sdb_Memory
  imports Sdb_Exec
begin

text \<open>
  The commands of \<^verbatim>\<open>hw4/sdb.h\<close> that show memory: \<open>sdb_disasm\<close> (from the file, or from
  the process with the breakpoints taken out and put back) and \<open>sdb_dump\<close>.
\<close>

subsection \<open>Reading words\<close>

text \<open>
  The loop \<open>for(ptr = addr; ptr < limit; ptr += 8)\<close> around \<open>PTRACE_PEEKTEXT\<close>, left at the
  first failing request; \<open>n\<close> bounds the iterations by the words the buffer holds.
\<close>

fun peek_loop :: "'k host \<Rightarrow> int \<Rightarrow> 'k \<Rightarrow> u64 \<Rightarrow> nat \<Rightarrow> u64 \<Rightarrow> u8 list" where
  "peek_loop H p k limit 0 ptr = []"
| "peek_loop H p k limit (Suc n) ptr =
     (if \<not> ptr < limit then []
      else (case h_peek H p ptr k of
              None \<Rightarrow> []
            | Some w \<Rightarrow> word_bytes w @ peek_loop H p k limit n (ptr + 8)))"

subsection \<open>\<open>sdb_disasm\<close>\<close>

text \<open>The address to start from, and the state with it remembered.\<close>

definition disasm_addr :: "string \<Rightarrow> 'k sys \<Rightarrow> (u64 option \<times> 'k sys) res" where
  "disasm_addr addr_str s =
     (let s1 = puts addr_str s in
      if addr_str = '''' then
        (if last_disasm_addr (sdb s1) = 0x0 then Inr (None, puts ''** no addr is given'' s1)
         else Inr (Some (last_disasm_addr (sdb s1)), s1))
      else thenR (skip_0x addr_str) (\<lambda>str.
           thenR (need Uninit_Read (scan_llx str)) (\<lambda>addr.
             Inr (Some addr, on_sdb (\<lambda>d. d\<lparr>last_disasm_addr := addr\<rparr>) s1))))"

text \<open>The section that contains an address, from section 0 on.\<close>

definition in_section :: "u64 \<Rightarrow> elf_shdr_t \<Rightarrow> bool" where
  "in_section addr sh \<longleftrightarrow> sh_addr sh \<le> addr \<and> addr < sh_addr sh + sh_size sh"

definition file_offset :: "u64 \<Rightarrow> elf_handle_t \<Rightarrow> u64 option res" where
  "file_offset addr e =
     (if shnum e = 0 then Inr None
      else thenR (need Null_Deref (eh_shdr e)) (\<lambda>shs.
        Inr (map_option (\<lambda>sh. sh_offset sh + addr - sh_addr sh) (find (in_section addr) shs))))"

text \<open>\<open>fseek\<close> to a negative offset fails and leaves the position at the start.\<close>

definition read_file :: "u8 list \<Rightarrow> u64 \<Rightarrow> nat \<Rightarrow> u8 list" where
  "read_file bs off n = take n (if sint off < 0 then bs else drop (unat off) bs)"

text \<open>The bytes read from the file; \<open>None\<close> where the function returns early.\<close>

definition disasm_file :: "'k host \<Rightarrow> u64 \<Rightarrow> 'k sys \<Rightarrow> (u8 list option \<times> 'k sys) res" where
  "disasm_file H addr s =
     thenR (need Null_Deref (eh (sdb s))) (\<lambda>e.
     thenR (file_offset addr e) (\<lambda>off.
       case off of
         None \<Rightarrow> Inr (None, printf (''Invalid addr!'' @ newline) s)
       | Some off \<Rightarrow>
           thenR (need Null_Deref (h_file H (path (sdb s)) (os s))) (\<lambda>bs.
             Inr (Some (read_file bs off 64), s))))"

text \<open>The body of the loop that takes the breakpoints out of the process.\<close>

definition restore_bp :: "'k host \<Rightarrow> nat \<Rightarrow> 'k sys \<Rightarrow> 'k sys flow res" where
  "restore_bp H i s =
     thenR (index_at (breaks (sdb s)) i) (\<lambda>bp.
       if is_used bp then
         (let (ok, k) = h_poke H (pid (sdb s)) (bp_addr bp) (original_word bp) (os s);
              s1 = s\<lparr>os := k\<rparr>
          in Inr (Next (if ok then s1 else puts ''failed to patch the code'' s1)))
       else Inr (Next s))"

definition disasm_process :: "'k host \<Rightarrow> u64 \<Rightarrow> 'k sys \<Rightarrow> (u8 list option \<times> 'k sys) res" where
  "disasm_process H addr s =
     thenR (for_upto (restore_bp H) 0 MAX_BREAK s) (\<lambda>fl.
       let s1 = flow_state fl;
           buffer = peek_loop H (pid (sdb s1)) (os s1) (addr + 64) 8 addr
       in thenR (sdb_patch_all_bp H s1) (\<lambda>s2. Inr (Some buffer, s2)))"

text \<open>The printing loop, at most ten instructions.\<close>

fun print_insns :: "cs_insn list \<Rightarrow> 'k sys \<Rightarrow> 'k sys res" where
  "print_insns [] s = Inr s"
| "print_insns (insn # insns) s =
     thenR (bytes_str (insn_bytes insn)) (\<lambda>b.
       print_insns insns
         (printf (insn_line (insn_address insn) b (mnemonic insn) (op_str insn))
           (on_sdb (\<lambda>d. d\<lparr>last_disasm_addr := last_disasm_addr d + of_nat (length (insn_bytes insn))\<rparr>) s)))"

definition print_disasm :: "cs_insn list \<Rightarrow> 'k sys \<Rightarrow> 'k sys res" where
  "print_disasm insn s =
     (if insn = [] then Inr (printf (''ERROR: Failed to disassemble given code!'' @ newline) s)
      else print_insns (take 10 insn) s)"

definition sdb_disasm :: "'k host \<Rightarrow> string \<Rightarrow> 'k sys \<Rightarrow> 'k sys res" where
  "sdb_disasm H addr_str s =
     thenR (disasm_addr addr_str s) (\<lambda>(a, s1).
       case a of
         None \<Rightarrow> Inr s1
       | Some addr \<Rightarrow>
           thenR (if \<not> sdb_is_running (sdb s1) then disasm_file H addr s1 else disasm_process H addr s1)
             (\<lambda>(buffer, s2).
               case buffer of
                 None \<Rightarrow> Inr s2
               | Some bs \<Rightarrow> print_disasm (h_disasm H bs addr) s2))"

subsection \<open>\<open>sdb_dump\<close>\<close>

definition dump_line :: "u64 \<Rightarrow> u8 list \<Rightarrow> string" where
  "dump_line a row =
     pad_left (CHR '' '') 10 (show_llx a) @ '':'' @ concat (map (\<lambda>c. '' '' @ show_02x c) row) @ ''  |'' @
     map (\<lambda>c. let ch = char_of (unat c) in if c_print ch then ch else CHR ''.'') row @ ''|'' @ newline"

text \<open>\<open>buffer\<close> is the part of the 80 bytes that was read.\<close>

definition dump_row :: "u64 \<Rightarrow> u8 list \<Rightarrow> nat \<Rightarrow> 'k sys \<Rightarrow> 'k sys flow res" where
  "dump_row addr buffer i s =
     (if length buffer < 16 * i + 16 then Inl Uninit_Read
      else Inr (Next (printf (dump_line (addr + of_nat (16 * i)) (take 16 (drop (16 * i) buffer))) s)))"

definition sdb_dump :: "'k host \<Rightarrow> string \<Rightarrow> 'k sys \<Rightarrow> 'k sys res" where
  "sdb_dump H addr_str s =
     (if addr_str = '''' then Inr (puts ''** no addr is given'' s)
      else if \<not> sdb_is_running (sdb s) then Inr (puts ''not running'' s)
      else thenR (skip_0x addr_str) (\<lambda>str.
           thenR (need Uninit_Read (scan_llx str)) (\<lambda>addr.
             let buffer = peek_loop H (pid (sdb s)) (os s) (addr + 80) 10 addr in
             thenR (for_upto (dump_row addr buffer) 0 5 s) (\<lambda>fl. Inr (flow_state fl)))))"

subsection \<open>What the loop reads\<close>

definition mem_bytes :: "mem \<Rightarrow> u64 \<Rightarrow> nat \<Rightarrow> u8 list" where
  "mem_bytes m a n = map (\<lambda>i. the (m (a + of_nat i))) [0..<n]"

definition mapped_bytes :: "mem \<Rightarrow> u64 \<Rightarrow> nat \<Rightarrow> bool" where
  "mapped_bytes m a n \<longleftrightarrow> (\<forall>i<n. m (a + of_nat i) \<noteq> None)"

lemma mem_bytes_add: "mem_bytes m a (i + n) = mem_bytes m a i @ mem_bytes m (a + of_nat i) n"
proof -
  have "[0..<i + n] = [0..<i] @ [i..<i + n]" by (rule upt_add_eq_append) simp
  also have "[i..<i + n] = map (\<lambda>j. j + i) [0..<n]" by (simp only: map_add_upt add.commute [of i n])
  finally show ?thesis by (simp add: mem_bytes_def ac_simps)
qed

lemma mapped_bytes_add: "mapped_bytes m a (i + n) \<longleftrightarrow> mapped_bytes m a i \<and> mapped_bytes m (a + of_nat i) n"
proof
  assume l: "mapped_bytes m a (i + n)"
  have "m (a + of_nat i + of_nat j) \<noteq> None" if "j < n" for j
    using l [unfolded mapped_bytes_def, rule_format, of "i + j"] that by (simp add: add.assoc)
  with l show "mapped_bytes m a i \<and> mapped_bytes m (a + of_nat i) n" by (simp add: mapped_bytes_def)
next
  assume r: "mapped_bytes m a i \<and> mapped_bytes m (a + of_nat i) n"
  show "mapped_bytes m a (i + n)"
    unfolding mapped_bytes_def
  proof (intro allI impI)
    fix j assume j: "j < i + n"
    show "m (a + of_nat j) \<noteq> None"
    proof (cases "j < i")
      case False
      then obtain d where d: "j = i + d" using le_Suc_ex not_less by blast
      with r j have "m (a + of_nat i + of_nat d) \<noteq> None" by (simp add: mapped_bytes_def)
      then show ?thesis by (simp add: d add.assoc)
    qed (use r in \<open>simp add: mapped_bytes_def\<close>)
  qed
qed

lemma word_bytes_mem: "read_word m a = Some w \<Longrightarrow> word_bytes w = mem_bytes m a 8"
  by (simp add: word_bytes_def mem_bytes_def read_word_eq_Some)

lemma mapped_bytes_word: "mapped_bytes m a 8 \<longleftrightarrow> mapped_word m a"
  by (simp add: mapped_bytes_def mapped_word_iff)

context ptrace_host
begin

lemma peek_loop_mapped:
  assumes "mapped_bytes (mem_of p k) ptr (8 * n)" "\<And>i. i < n \<Longrightarrow> ptr + of_nat (8 * i) < limit"
  shows "peek_loop H p k limit n ptr = mem_bytes (mem_of p k) ptr (8 * n)"
  using assms
proof (induction n arbitrary: ptr)
  case 0
  then show ?case by (simp add: mem_bytes_def)
next
  case (Suc n)
  have split: "8 * Suc n = 8 + 8 * n" by simp
  have m: "mapped_word (mem_of p k) ptr" "mapped_bytes (mem_of p k) (ptr + 8) (8 * n)"
    using Suc.prems(1) unfolding split mapped_bytes_add mapped_bytes_word by simp_all
  then obtain w where w: "read_word (mem_of p k) ptr = Some w" by (auto simp: read_word_def)
  have "ptr + 8 + of_nat (8 * i) < limit" if "i < n" for i
    using Suc.prems(2) [of "Suc i"] that by (simp add: algebra_simps)
  with m have "peek_loop H p k limit n (ptr + 8) = mem_bytes (mem_of p k) (ptr + 8) (8 * n)"
    by (intro Suc.IH) simp_all
  then show ?case
    using Suc.prems(2) [of 0] w word_bytes_mem [OF w]
    unfolding split mem_bytes_add by (simp add: peek_word)
qed

end

lemma loop_below:
  assumes "a < a + of_nat (8 * n)" "8 * n < 2 ^ 64" "i < n"
  shows "(a :: u64) + of_nat (8 * i) < a + of_nat (8 * n)"
proof -
  have n: "unat (of_nat (8 * n) :: u64) = 8 * n" "unat (of_nat (8 * i) :: u64) = 8 * i"
    using assms by (simp_all add: unat_of_nat take_bit_nat_eq_self del: of_nat_mult)
  have "unat a + 8 * n < 2 ^ 64"
  proof (rule ccontr)
    assume "\<not> unat a + 8 * n < 2 ^ 64"
    then have "unat (a + of_nat (8 * n)) = unat a + 8 * n - 2 ^ 64"
      using unat_u64_less [of a] assms(2) n(1)
      by (simp add: unat_word_ariths mod_if del: of_nat_mult)
    with assms(1,2) show False by (simp add: word_less_nat_alt del: of_nat_mult)
  qed
  with assms(3) n show ?thesis by (simp add: word_less_nat_alt unat_word_ariths del: of_nat_mult)
qed

subsection \<open>Taking the breakpoints out\<close>

text \<open>
  The restore loop writes to the addresses of the table as they are, so it works where they
  need no relocation.
\<close>

definition fixed_address :: "'k sys \<Rightarrow> bool" where
  "fixed_address s \<longleftrightarrow> (\<exists>e. eh (sdb s) = Some e \<and> eh_type e \<noteq> 3)"

lemma fixed_live: "fixed_address s \<Longrightarrow> live_of H s i = bp_addr (breaks (sdb s) ! i)"
  by (auto simp: fixed_address_def live_of_def live_addr_def)

definition restored_to :: "'k host \<Rightarrow> 'k sys \<Rightarrow> 'k sys \<Rightarrow> bool" where
  "restored_to H s t \<longleftrightarrow> sdb t = sdb s \<and> out t = out s \<and> released t = released s \<and>
     h_getregs H (pid (sdb s)) (os t) = h_getregs H (pid (sdb s)) (os s) \<and>
     h_maps H (pid (sdb s)) (os t) = h_maps H (pid (sdb s)) (os s)"

context ptrace_host
begin

lemma restore_bp_step:
  assumes place: "well_placed H m s" and arm: "armed H m (planted H s MAX_BREAK) s" and fixed: "fixed_address s"
    and B: "B \<subseteq> planted H s MAX_BREAK" and i: "i < MAX_BREAK"
    and t: "restored_to H s t" and mem: "mem_of (pid (sdb s)) (os t) = with_int3 (B - planted H s i) m"
  shows "\<exists>t'. restore_bp H i t = Inr (Next t') \<and> restored_to H s t' \<and>
           mem_of (pid (sdb s)) (os t') = with_int3 (B - planted H s (Suc i)) m"
proof -
  have wf: "wf_sdb (sdb s)" and sep: "separated H s" using place by (simp_all add: well_placed_def entry_live_def)
  have ix: "index_at (breaks (sdb t)) i = Inr (breaks (sdb s) ! i)"
    using t i wf by (simp add: restored_to_def wf_sdb_def)
  show ?thesis
  proof (cases "used_at s i")
    case False
    with ix t mem show ?thesis by (auto simp: restore_bp_def used_at_def planted_Suc)
  next
    case True
    let ?p = "pid (sdb s)" and ?a = "live_of H s i" and ?w = "original_word (breaks (sdb s) ! i)"
    let ?k = "snd (h_poke H ?p ?a ?w (os t))"
    have mp: "mapped_word m ?a" using place i True by (simp add: well_placed_def entry_live_def)
    then have mpt: "mapped_word (mem_of ?p (os t)) ?a" by (simp add: mem mapped_with_int3)
    have "?a \<in> planted H s MAX_BREAK" using i True by (auto simp: planted_def)
    then have w: "read_word m ?a = Some ?w" using arm i True by (simp add: armed_def)
    have win: "?a + of_nat j \<notin> B - planted H s i" if "0 < j" "j < 8" for j
      using planted_window [OF sep i True that(2)] that(1) B by auto
    have "mem_of ?p ?k = with_int3 (B - planted H s i - {?a}) m"
      using with_int3_remove [OF win w] mpt by (simp add: poke_mem mem)
    moreover have "B - planted H s i - {?a} = B - planted H s (Suc i)" using True by (auto simp: planted_Suc)
    moreover have "restore_bp H i t = Inr (Next (t\<lparr>os := ?k\<rparr>))"
      using ix True t mpt fixed_live [OF fixed, of H i]
      by (simp add: restore_bp_def used_at_def restored_to_def poke_ok split_beta Let_def)
    ultimately show ?thesis using t by (simp add: restored_to_def poke_regs poke_maps)
  qed
qed

lemma restore_all:
  assumes "debugged H mem_of m B s" and "armed H m (planted H s MAX_BREAK) s" and "fixed_address s"
  shows "\<exists>t. for_upto (restore_bp H) 0 MAX_BREAK s = Inr (Next t) \<and> restored_to H s t \<and>
           mem_of (pid (sdb s)) (os t) = m"
proof -
  have d: "well_placed H m s" "B \<subseteq> planted H s MAX_BREAK" "mem_of (pid (sdb s)) (os s) = with_int3 B m"
    using assms(1) by (simp_all add: debugged_def)
  have "\<exists>t. for_upto (restore_bp H) 0 MAX_BREAK s = Inr (Next t) \<and> (restored_to H s t \<and>
      mem_of (pid (sdb s)) (os t) = with_int3 (B - planted H s (0 + MAX_BREAK)) m)"
    by (rule for_upto_total [of "\<lambda>i t. restored_to H s t \<and>
          mem_of (pid (sdb s)) (os t) = with_int3 (B - planted H s i) m"])
       (use d assms(2,3) in \<open>auto simp: restored_to_def [of H s s] intro: restore_bp_step\<close>)
  moreover have "B - planted H s MAX_BREAK = {}" using d(2) by blast
  ultimately show ?thesis by auto
qed

lemma disasm_process_program:
  assumes deb: "debugged H mem_of m B s" and arm: "armed H m (planted H s MAX_BREAK) s" and fixed: "fixed_address s"
    and away: "\<forall>i<MAX_BREAK. not_standing_at H s (os s) i"
    and map: "mapped_bytes m addr 64" "addr < addr + 64"
  shows "\<exists>t. disasm_process H addr s = Inr (Some (mem_bytes m addr 64), t) \<and>
           same_table (sdb s) (sdb t) \<and> out t = out s \<and>
           h_getregs H (pid (sdb s)) (os t) = h_getregs H (pid (sdb s)) (os s) \<and>
           debugged H mem_of m (planted H t MAX_BREAK) t"
proof -
  obtain s1 where s1: "for_upto (restore_bp H) 0 MAX_BREAK s = Inr (Next s1)" "restored_to H s s1"
      "mem_of (pid (sdb s)) (os s1) = m"
    using restore_all [OF deb arm fixed] by blast
  have st: "same_table (sdb s) (sdb s1)" "h_maps H (pid (sdb s)) (os s1) = h_maps H (pid (sdb s)) (os s)"
    and pid: "pid (sdb s1) = pid (sdb s)"
    using s1(2) by (simp_all add: restored_to_def)
  have place: "well_placed H m s" using deb by (simp add: debugged_def)
  then have wf: "wf_sdb (sdb s)" by (simp add: well_placed_def entry_live_def)
  have "debugged H mem_of m {} s1"
    using well_placed_same [OF st place] s1(3) by (simp add: debugged_def armed_def pid)
  moreover have "\<forall>i<MAX_BREAK. not_standing_at H s1 (os s1) i"
    using away s1(2) same_table_live [OF st(1) wf st(2)] by (simp add: not_standing_at_def restored_to_def)
  ultimately obtain t where t: "sdb_patch_all_bp H s1 = Inr t" "same_table (sdb s1) (sdb t)" "out t = out s1"
      "h_getregs H (pid (sdb s)) (os t) = h_getregs H (pid (sdb s)) (os s1)"
      "debugged H mem_of m (planted H t MAX_BREAK) t"
    using patch_debugged [of m "{}" s1] by (auto simp: pid)
  have "addr + of_nat (8 * i) < addr + 64" if "i < 8" for i
    using loop_below [of addr 8 i] map(2) that by simp
  then have "peek_loop H (pid (sdb s1)) (os s1) (addr + 64) 8 addr = mem_bytes m addr 64"
    using peek_loop_mapped [of "pid (sdb s)" "os s1" addr 8 "addr + 64"] map(1) by (simp add: s1(3) pid)
  with s1 t show ?thesis by (simp add: disasm_process_def Let_def restored_to_def)
qed

end

subsection \<open>The commands\<close>

text \<open>Remembering an address does not touch the process or the breakpoints.\<close>

definition remember :: "u64 \<Rightarrow> out_event \<Rightarrow> 'k sys \<Rightarrow> 'k sys" where
  "remember a ev s = on_sdb (\<lambda>d. d\<lparr>last_disasm_addr := a\<rparr>) (emit ev s)"

lemma remember_simps [simp]:
  "pid (sdb (remember a ev s)) = pid (sdb s)" "os (remember a ev s) = os s"
  "breaks (sdb (remember a ev s)) = breaks (sdb s)" "eh (sdb (remember a ev s)) = eh (sdb s)"
  "path (sdb (remember a ev s)) = path (sdb s)" "last_disasm_addr (sdb (remember a ev s)) = a"
  "out (remember a ev s) = out s @ [ev]" "strtab (sdb (remember a ev s)) = strtab (sdb s)"
  by (simp_all add: remember_def)

lemma remember_live [simp]:
  "live_addr H (remember a ev s) x = live_addr H s x" "live_of H (remember a ev s) = live_of H s"
  "used_at (remember a ev s) = used_at s" "planted H (remember a ev s) = planted H s"
  "bp_table (sdb (remember a ev s)) = bp_table (sdb s)"
proof -
  show l: "live_addr H (remember a ev s) x = live_addr H s x" for x
    by (rule live_addr_cong) simp_all
  show lo: "live_of H (remember a ev s) = live_of H s" by (simp add: live_of_def fun_eq_iff l)
  show u: "used_at (remember a ev s) = used_at s" by (simp add: used_at_def fun_eq_iff)
  show "planted H (remember a ev s) = planted H s" by (simp add: planted_def fun_eq_iff lo u)
  show "bp_table (sdb (remember a ev s)) = bp_table (sdb s)" by (simp add: bp_table_def fun_eq_iff)
qed

lemma remember_debugged:
  "debugged H mem_of m B (remember a ev s) = debugged H mem_of m B s"
  "armed H m A (remember a ev s) = armed H m A s" "fixed_address (remember a ev s) = fixed_address s"
  "not_standing_at H (remember a ev s) = not_standing_at H s"
  by (simp_all add: debugged_def well_placed_def entry_live_def separated_def clean_code_def armed_def
      fixed_address_def not_standing_at_def fun_eq_iff wf_sdb_def)

text \<open>
  C17: disassembling the running program.  On a program at fixed addresses whose saved words
  are right and that is not stopped at a breakpoint, \<open>disasm\<close> disassembles the program's own
  64 bytes: no breakpoint instruction shows, whatever is planted; afterwards all breakpoints
  are planted again, and the registers and the table are as before.
\<close>

theorem disasm_shows_program:
  assumes "ptrace_host H mem_of" "sdb_is_running (sdb s)" "debugged H mem_of m B s"
    and "armed H m (planted H s MAX_BREAK) s" "fixed_address s"
    and "\<forall>i<MAX_BREAK. not_standing_at H s (os s) i"
    and "mapped_bytes m addr 64" "addr < addr + 64"
  shows "\<exists>t. sdb_disasm H (CHR ''0'' # CHR ''x'' # show_llx addr) s =
             print_disasm (h_disasm H (mem_bytes m addr 64) addr) t \<and>
           debugged H mem_of m (planted H t MAX_BREAK) t \<and> bp_table (sdb t) = bp_table (sdb s) \<and>
           h_getregs H (pid (sdb s)) (os t) = h_getregs H (pid (sdb s)) (os s) \<and>
           last_disasm_addr (sdb t) = addr \<and>
           out t = out s @ [Stdout (CHR ''0'' # CHR ''x'' # show_llx addr @ newline)]"
proof -
  let ?str = "CHR ''0'' # CHR ''x'' # show_llx addr"
  define s1 where "s1 = remember addr (Stdout (?str @ newline)) s"
  have da: "disasm_addr ?str s = Inr (Some addr, s1)"
    by (simp add: disasm_addr_def skip_0x_def s1_def remember_def)
  have "\<exists>t. disasm_process H addr s1 = Inr (Some (mem_bytes m addr 64), t) \<and>
      same_table (sdb s1) (sdb t) \<and> out t = out s1 \<and>
      h_getregs H (pid (sdb s1)) (os t) = h_getregs H (pid (sdb s1)) (os s1) \<and>
      debugged H mem_of m (planted H t MAX_BREAK) t"
    by (rule ptrace_host.disasm_process_program [OF assms(1)])
       (use assms(3-8) in \<open>simp_all add: s1_def remember_debugged\<close>)
  then obtain t where t: "disasm_process H addr s1 = Inr (Some (mem_bytes m addr 64), t)"
      "same_table (sdb s1) (sdb t)" "out t = out s1"
      "h_getregs H (pid (sdb s)) (os t) = h_getregs H (pid (sdb s)) (os s)"
      "debugged H mem_of m (planted H t MAX_BREAK) t"
    by (auto simp: s1_def)
  have "sdb_is_running (sdb s1)" using assms(2) by (simp add: sdb_is_running_def s1_def)
  then have "sdb_disasm H ?str s = print_disasm (h_disasm H (mem_bytes m addr 64) addr) t"
    by (simp add: sdb_disasm_def da t(1))
  moreover have "bp_table (sdb t) = bp_table (sdb s)" "last_disasm_addr (sdb t) = addr"
    using same_table_bp_table [OF t(2)] t(2) by (simp_all add: s1_def same_table_def)
  moreover have "out t = out s @ [Stdout (?str @ newline)]" by (simp add: t(3) s1_def)
  ultimately show ?thesis using t(4,5) by auto
qed

text \<open>The lines that \<open>disasm\<close> prints.\<close>

definition insn_out :: "cs_insn \<Rightarrow> out_event" where
  "insn_out x = Stdout (pad_left (CHR '' '') 10 (show_llx (insn_address x)) @ '': '' @
     pad_right 21 (concat (map (\<lambda>b. show_02x b @ '' '') (insn_bytes x))) @ pad_right 7 (mnemonic x) @
     op_str x @ newline)"

lemma bytes_str_eq:
  "bytes_str bs = (if length bs \<le> 5 then Inr (concat (map (\<lambda>b. show_02x b @ '' '') bs)) else Inl Buffer_Overflow)"
proof -
  have "length (concat (map (\<lambda>b. show_02x b @ '' '') bs)) = 3 * length bs" by (induction bs) auto
  then show ?thesis by (auto simp: bytes_str_def store_s_def)
qed

lemma print_insns_eq:
  "print_insns insns s =
     (if \<forall>x \<in> set insns. length (insn_bytes x) \<le> 5
      then Inr (on_sdb (\<lambda>d. d\<lparr>last_disasm_addr := last_disasm_addr d + of_nat (length (concat (map insn_bytes insns)))\<rparr>)
             (s\<lparr>out := out s @ map insn_out insns\<rparr>))
      else Inl Buffer_Overflow)"
  by (induction insns arbitrary: s)
     (auto simp: bytes_str_eq insn_out_def insn_line_def emit_def algebra_simps)

text \<open>
  what \<open>disasm\<close> prints.  The first ten instructions, one line each, and the address for
  the next \<open>disasm\<close> moves past them; an instruction of more than five bytes among them
  overflows \<open>char bytes_str[16]\<close>.
\<close>

theorem print_disasm_lines:
  assumes "insns \<noteq> []"
  shows "print_disasm insns s =
    (if \<forall>x \<in> set (take 10 insns). length (insn_bytes x) \<le> 5
     then Inr (s\<lparr>sdb := (sdb s)\<lparr>last_disasm_addr := last_disasm_addr (sdb s) +
                   of_nat (length (concat (map insn_bytes (take 10 insns))))\<rparr>,
                 out := out s @ map insn_out (take 10 insns)\<rparr>)
     else Inl Buffer_Overflow)"
  using assms by (simp add: print_disasm_def print_insns_eq)

text \<open>
  disassembling without a process reads the file: the 64 bytes from the file offset that
  the first section containing the address gives it; an address in no section is refused.
\<close>

theorem disasm_reads_file:
  assumes "\<not> sdb_is_running (sdb s)" "eh (sdb s) = Some e" "eh_shdr e = Some shs" "length shs = shnum e"
    and "h_file H (path (sdb s)) (os s) = Some file"
    and "\<forall>sh \<in> set shs. 0 \<le> sint (sh_offset sh + addr - sh_addr sh)"
  shows "\<exists>t. same_table ((sdb s)\<lparr>last_disasm_addr := addr\<rparr>) (sdb t) \<and> os t = os s \<and>
    out t = out s @ [Stdout (CHR ''0'' # CHR ''x'' # show_llx addr @ newline)] \<and>
    sdb_disasm H (CHR ''0'' # CHR ''x'' # show_llx addr) s =
      (case find (\<lambda>sh. sh_addr sh \<le> addr \<and> addr < sh_addr sh + sh_size sh) shs of
         None \<Rightarrow> Inr (t\<lparr>out := out t @ [Stdout (''Invalid addr!'' @ newline)]\<rparr>)
       | Some sh \<Rightarrow> print_disasm (h_disasm H
           (take 64 (drop (unat (sh_offset sh + (addr - sh_addr sh))) file)) addr) t)"
proof -
  let ?str = "CHR ''0'' # CHR ''x'' # show_llx addr"
  define t where "t = remember addr (Stdout (?str @ newline)) s"
  have da: "disasm_addr ?str s = Inr (Some addr, t)"
    by (simp add: disasm_addr_def skip_0x_def t_def remember_def)
  have run: "\<not> sdb_is_running (sdb t)" using assms(1) by (simp add: sdb_is_running_def t_def)
  have fo: "file_offset addr e = Inr (map_option (\<lambda>sh. sh_offset sh + addr - sh_addr sh) (find (in_section addr) shs))"
    using assms(3,4) by (auto simp: file_offset_def)
  have sec: "(\<lambda>sh. sh_addr sh \<le> addr \<and> addr < sh_addr sh + sh_size sh) = in_section addr"
    by (simp add: in_section_def fun_eq_iff)
  have "sdb_disasm H ?str s =
      (case find (in_section addr) shs of
         None \<Rightarrow> Inr (t\<lparr>out := out t @ [Stdout (''Invalid addr!'' @ newline)]\<rparr>)
       | Some sh \<Rightarrow> print_disasm (h_disasm H
           (take 64 (drop (unat (sh_offset sh + (addr - sh_addr sh))) file)) addr) t)"
  proof (cases "find (in_section addr) shs")
    case None
    then show ?thesis
      using assms(2) run by (simp add: sdb_disasm_def da disasm_file_def fo t_def emit_def)
  next
    case (Some sh)
    then have "sh \<in> set shs" by (auto simp: find_Some_iff)
    with assms(6) have "\<not> sint (sh_offset sh + addr - sh_addr sh) < 0" by fastforce
    with Some assms(2,5) run show ?thesis
      by (simp add: sdb_disasm_def da disasm_file_def fo t_def read_file_def add_diff_eq)
  qed
  moreover have "same_table ((sdb s)\<lparr>last_disasm_addr := addr\<rparr>) (sdb t)"
    by (simp add: t_def remember_def)
  ultimately show ?thesis unfolding sec by (intro exI [of _ t]) (simp add: t_def)
qed

context ptrace_host
begin

lemma length_peek_loop: "length (peek_loop H p k limit n ptr) \<le> 8 * n"
  by (induction H p k limit n ptr rule: peek_loop.induct) (auto simp: word_bytes_def split: option.splits)

lemma peek_loop_full:
  assumes "length (peek_loop H p k limit n ptr) = 8 * n"
  shows "mapped_bytes (mem_of p k) ptr (8 * n)"
  using assms
proof (induction n arbitrary: ptr)
  case 0
  then show ?case by (simp add: mapped_bytes_def)
next
  case (Suc n)
  then obtain w where w: "read_word (mem_of p k) ptr = Some w"
    and l: "length (peek_loop H p k limit n (ptr + 8)) = 8 * n"
    by (auto simp: word_bytes_def peek_word split: if_splits option.splits)
  have "8 * Suc n = 8 + 8 * n" by simp
  then show ?case
    using Suc.IH [OF l] w unfolding \<open>8 * Suc n = 8 + 8 * n\<close> mapped_bytes_add mapped_bytes_word
    by (simp add: read_word_def split: if_splits)
qed

end

lemma dump_rows_full:
  assumes "length buf = 16 * n"
  shows "for_upto (dump_row addr buf) 0 n s =
    Inr (Next (s\<lparr>out := out s @ map (\<lambda>i. Stdout (dump_line (addr + of_nat (16 * i)) (take 16 (drop (16 * i) buf)))) [0..<n]\<rparr>))"
proof -
  let ?P = "\<lambda>i t. t = s\<lparr>out := out s @
      map (\<lambda>i. Stdout (dump_line (addr + of_nat (16 * i)) (take 16 (drop (16 * i) buf)))) [0..<i]\<rparr>"
  have "\<exists>t. for_upto (dump_row addr buf) 0 n s = Inr (Next t) \<and> ?P (0 + n) t"
    by (rule for_upto_total) (use assms in \<open>auto simp: dump_row_def emit_def\<close>)
  then show ?thesis by simp
qed

lemma dump_rows_short:
  "length buf < 16 * (i + n) \<Longrightarrow> 0 < n \<Longrightarrow> for_upto (dump_row addr buf) i n s = Inl Uninit_Read"
proof (induction n arbitrary: i s)
  case (Suc n)
  then show ?case by (cases "n = 0") (auto simp: dump_row_def)
qed simp

text \<open>
  C31: \<open>dump\<close>.  Where all 80 bytes are mapped it prints them as five rows of sixteen, with
  their addresses, and changes nothing else; where one of them is not, it prints bytes of a
  buffer that was never filled.
\<close>

theorem sdb_dump_shows_memory:
  assumes "ptrace_host H mem_of" "sdb_is_running (sdb s)" "addr < addr + 80"
  shows "sdb_dump H (CHR ''0'' # CHR ''x'' # show_llx addr) s =
    (if mapped_bytes (mem_of (pid (sdb s)) (os s)) addr 80
     then Inr (s\<lparr>out := out s @ map (\<lambda>i. Stdout (dump_line (addr + of_nat (16 * i))
                 (mem_bytes (mem_of (pid (sdb s)) (os s)) (addr + of_nat (16 * i)) 16))) [0..<5]\<rparr>)
     else Inl Uninit_Read)"
proof -
  let ?m = "mem_of (pid (sdb s)) (os s)" and ?str = "CHR ''0'' # CHR ''x'' # show_llx addr"
  let ?buf = "peek_loop H (pid (sdb s)) (os s) (addr + 80) 10 addr"
  have d: "sdb_dump H ?str s = thenR (for_upto (dump_row addr ?buf) 0 5 s) (\<lambda>fl. Inr (flow_state fl))"
    using assms(2) by (simp add: sdb_dump_def skip_0x_def Let_def)
  show ?thesis
  proof (cases "mapped_bytes ?m addr 80")
    case True
    have "addr + of_nat (8 * i) < addr + 80" if "i < 10" for i
      using loop_below [of addr 10 i] assms(3) that by simp
    then have b: "?buf = mem_bytes ?m addr 80"
      using ptrace_host.peek_loop_mapped [OF assms(1), of "pid (sdb s)" "os s" addr 10 "addr + 80"] True by simp
    have row: "take 16 (drop (16 * i) (mem_bytes ?m addr 80)) = mem_bytes ?m (addr + of_nat (16 * i)) 16"
      if "i < 5" for i
    proof -
      have e: "(80::nat) = 16 * i + (16 + (64 - 16 * i))" using that by simp
      show ?thesis unfolding e mem_bytes_add by (simp add: mem_bytes_def del: of_nat_mult)
    qed
    have "length (mem_bytes ?m addr 80) = 16 * 5" by (simp add: mem_bytes_def)
    note dump_rows_full [OF this, of addr s]
    with row True show ?thesis by (simp add: d b cong: map_cong)
  next
    case False
    then have "length ?buf \<noteq> 8 * 10" using ptrace_host.peek_loop_full [OF assms(1)] by fastforce
    then have "length ?buf < 16 * (0 + 5)"
      using ptrace_host.length_peek_loop [OF assms(1), of "pid (sdb s)" "os s" "addr + 80" 10 addr] by simp
    then have "for_upto (dump_row addr ?buf) 0 5 s = Inl Uninit_Read" by (intro dump_rows_short) simp_all
    with False show ?thesis by (simp add: d)
  qed
qed

end
