(* ===== verification/Sdb_Commands.thy ===== *)
theory Sdb_Commands
  imports Sdb_Memory
begin

text \<open>
  The contract all commands of the debugger share: whatever a command does, the breakpoint
  table keeps its shape, and output and releases are only ever appended to.  The contract
  is the locale \<open>sdb_command\<close>, interpreted for every command.
\<close>

named_theorems keeps_rules \<open>steps that keep the debugger's invariant\<close>

definition keeps :: "'k sys \<Rightarrow> 'k sys \<Rightarrow> bool" where
  "keeps s s' \<longleftrightarrow> (wf_sdb (sdb s) \<longrightarrow> wf_sdb (sdb s')) \<and> (\<exists>new. out s' = out s @ new) \<and>
     (\<exists>new. released s' = released s @ new)"

locale sdb_command =
  fixes run :: "'k sys \<Rightarrow> 'k sys res option"
  assumes run_keeps: "run s = Some (Inr s') \<Longrightarrow> keeps s s'"
begin

lemma run_wf: "wf_sdb (sdb s) \<Longrightarrow> run s = Some (Inr s') \<Longrightarrow> wf_sdb (sdb s')"
  using run_keeps by (auto simp: keeps_def)

lemma run_output: "run s = Some (Inr s') \<Longrightarrow> out s = take (length (out s)) (out s')"
  using run_keeps [of s s'] by (auto simp: keeps_def)

lemma run_capacity: "wf_sdb (sdb s) \<Longrightarrow> run s = Some (Inr s') \<Longrightarrow> dom (bp_table (sdb s')) \<subseteq> {i. i < MAX_BREAK}"
  using run_wf bps.lookup_bound by blast

lemma run_then:
  assumes "sdb_command g"
  shows "sdb_command (\<lambda>s. case run s of None \<Rightarrow> None | Some (Inl e) \<Rightarrow> Some (Inl e) | Some (Inr t) \<Rightarrow> g t)"
  using assms by unfold_locales
    (auto simp: keeps_def split: option.splits sum.splits dest!: run_keeps sdb_command.run_keeps [OF assms])

end

subsection \<open>Steps\<close>

lemma keeps_refl [intro, simp]: "keeps s s"
  by (simp add: keeps_def)

lemma keeps_trans [trans]: "keeps s t \<Longrightarrow> keeps t u \<Longrightarrow> keeps s u"
  by (auto simp: keeps_def)

lemma keeps_emitI [keeps_rules]: "keeps s t \<Longrightarrow> keeps s (emit ev t)"
  by (auto simp: keeps_def)

lemma keeps_emit_first: "keeps (emit ev s) t \<Longrightarrow> keeps s t"
  by (auto simp: keeps_def)

lemma keeps_osI [keeps_rules]: "keeps s t \<Longrightarrow> keeps s (t\<lparr>os := k\<rparr>)"
  by (simp add: keeps_def)

lemma keeps_sdbI [keeps_rules]: "keeps s t \<Longrightarrow> length (breaks d) = length (breaks (sdb t)) \<Longrightarrow> keeps s (t\<lparr>sdb := d\<rparr>)"
  by (simp add: keeps_def wf_sdb_def)

lemma keeps_set_bpI [keeps_rules]: "keeps s t \<Longrightarrow> keeps s (set_bp i f t)"
  by (simp add: keeps_def wf_sdb_def)

lemma keeps_thenR:
  assumes "thenR r f = Inr s'" "\<And>x. r = Inr x \<Longrightarrow> f x = Inr s' \<Longrightarrow> keeps s s'"
  shows "keeps s s'"
  using assms by (auto simp: thenR_eq_Inr)

lemma keeps_for_upto:
  assumes "for_upto f i n s = Inr r" "\<And>j s r. f j s = Inr r \<Longrightarrow> keeps s (flow_state r)"
  shows "keeps s (flow_state r)"
  by (rule for_upto_invariant [OF assms(1), of "keeps s"]) (auto intro: keeps_trans assms(2))

subsection \<open>The operations\<close>

lemma keeps_step_over: "step_over H s = Inr s' \<Longrightarrow> keeps s s'"
  by (auto simp: step_over_def intro!: keeps_rules split: prod.splits wait_result.splits)

lemma keeps_plant_word: "plant_word H i a s = Inr r \<Longrightarrow> keeps s (flow_state r)"
  by (auto simp: plant_word_def Let_def intro!: keeps_rules split: prod.splits if_splits)

lemma keeps_patch_bp:
  assumes "patch_bp H i s = Inr r"
  shows "keeps s (flow_state r)"
proof -
  have "keeps s (flow_state r)" if "s1 = s \<or> step_over H s = Inr s1" "plant_word H i a s1 = Inr r" for s1 a
    using that keeps_plant_word [OF that(2)] by (auto intro: keeps_trans dest: keeps_step_over)
  then show ?thesis using assms by (fastforce simp: patch_bp_def thenR_eq_Inr split: if_splits)
qed

lemma keeps_patch_all: "sdb_patch_all_bp H s = Inr s' \<Longrightarrow> keeps s s'"
  by (auto simp: sdb_patch_all_bp_def thenR_eq_Inr intro: keeps_for_upto keeps_patch_bp)

lemma keeps_set_break: "sdb_set_break H a s = Inr s' \<Longrightarrow> keeps s s'"
  by (auto simp: sdb_set_break_def thenR_eq_Inr Let_def intro!: keeps_rules split: if_splits)
     (metis keeps_patch_all keeps_refl keeps_set_bpI keeps_trans)

lemma keeps_delete: "keeps s (sdb_delete H i s)"
  by (auto simp: sdb_delete_def Let_def intro!: keeps_rules)

lemma keeps_list: "keeps s (sdb_list s)"
  by (simp add: sdb_list_def fold_printf keeps_def)

lemma keeps_spawn: "spawn H s = Inr (st, s') \<Longrightarrow> keeps s s'"
  by (auto simp: spawn_def Let_def intro!: keeps_rules split: prod.splits if_splits wait_result.splits)

lemma keeps_start: "sdb_start H s = Inr s' \<Longrightarrow> keeps s s'"
  by (auto simp: sdb_start_def thenR_eq_Inr intro!: keeps_rules dest: keeps_spawn split: if_splits option.splits)
     (blast intro: keeps_trans keeps_spawn keeps_patch_all)

lemma keeps_step: "sdb_step H s = Inr s' \<Longrightarrow> keeps s s'"
  by (auto simp: sdb_step_def Let_def intro!: keeps_rules split: prod.splits if_splits wait_result.splits)

lemma keeps_hit_bp: "hit_bp H i a regs s = Inr s' \<Longrightarrow> keeps s s'"
  by (auto simp: hit_bp_def thenR_eq_Inr Let_def intro!: keeps_rules split: if_splits)

lemma keeps_stop_bp: "stop_bp H regs i s = Inr r \<Longrightarrow> keeps s (flow_state r)"
  by (auto simp: stop_bp_def thenR_eq_Inr dest: keeps_hit_bp split: if_splits)

lemma keeps_check_stop: "check_stop H s = Inr r \<Longrightarrow> keeps s (flow_state r)"
  unfolding check_stop_def by (rule keeps_for_upto) (auto dest: keeps_stop_bp)

lemma keeps_wait:
  assumes "wait_for_break H status s = Some (Inr (e, s'))"
  shows "keeps s s'"
  by (rule wait_for_break_rule [OF assms, of "keeps s"])
     (auto intro: keeps_osI keeps_trans dest: keeps_check_stop [of _ _ "Return _", simplified])

lemma keeps_report: "report_exit st s = Inr s' \<Longrightarrow> keeps s s'"
  by (auto simp: report_exit_def thenR_eq_Inr intro!: keeps_rules)

lemma keeps_resume: "resume H status s = Some (Inr s') \<Longrightarrow> keeps s s'"
proof -
  assume r: "resume H status s = Some (Inr s')"
  have k: "keeps s (s\<lparr>os := h_cont H (pid (sdb s)) (os s)\<rparr>)" by (simp add: keeps_osI)
  from r obtain e t where t: "wait_for_break H status (s\<lparr>os := h_cont H (pid (sdb s)) (os s)\<rparr>) = Some (Inr (e, t))"
    by (auto simp: resume_def split: option.splits sum.splits)
  have "keeps s t" using k keeps_wait [OF t] by (rule keeps_trans)
  with r t show ?thesis
    by (cases e) (auto simp: resume_def intro: keeps_trans dest: keeps_report)
qed

lemma keeps_cont: "sdb_cont H s = Some (Inr s') \<Longrightarrow> keeps s s'"
  by (auto simp: sdb_cont_def intro!: keeps_rules dest!: keeps_patch_all keeps_resume
      intro: keeps_trans split: if_splits sum.splits)

lemma keeps_run: "sdb_run H s = Some (Inr s') \<Longrightarrow> keeps s s'"
proof -
  assume r: "sdb_run H s = Some (Inr s')"
  have *: "keeps s s'" if "keeps s t" "sdb_patch_all_bp H t = Inr u" "resume H st u = Some (Inr s')" for t u st
    using that keeps_patch_all [OF that(2)] keeps_resume [OF that(3)] by (blast intro: keeps_trans)
  show ?thesis
    using r by (auto simp: sdb_run_def intro: * intro!: keeps_emitI
        split: if_splits sum.splits option.splits) (erule keeps_spawn, erule (2) * [OF keeps_spawn])
qed

subsection \<open>Memory, registers, maps, loading\<close>

lemma keeps_print_insns: "print_insns insns s = Inr s' \<Longrightarrow> keeps s s'"
  by (auto simp: print_insns_eq keeps_def wf_sdb_def split: if_splits)

lemma keeps_disasm_addr: "disasm_addr a s = Inr (r, s') \<Longrightarrow> keeps s s'"
  by (auto simp: disasm_addr_def Let_def thenR_eq_Inr intro!: keeps_rules split: if_splits)

lemma keeps_restore_bp: "restore_bp H i s = Inr r \<Longrightarrow> keeps s (flow_state r)"
  by (auto simp: restore_bp_def thenR_eq_Inr Let_def intro!: keeps_rules split: prod.splits if_splits)

lemma keeps_disasm_process: "disasm_process H a s = Inr (b, s') \<Longrightarrow> keeps s s'"
  by (auto simp: disasm_process_def thenR_eq_Inr Let_def)
     (blast intro: keeps_trans keeps_for_upto keeps_restore_bp keeps_patch_all)

lemma keeps_disasm_file: "disasm_file H a s = Inr (b, s') \<Longrightarrow> keeps s s'"
  by (auto simp: disasm_file_def thenR_eq_Inr intro!: keeps_rules split: option.splits)

lemma keeps_disasm: 
  assumes "sdb_disasm H a s = Inr s'"
  shows "keeps s s'"
proof -
  obtain r s1 where s1: "disasm_addr a s = Inr (r, s1)" using assms by (auto simp: sdb_disasm_def thenR_eq_Inr)
  have k1: "keeps s s1" by (rule keeps_disasm_addr [OF s1])
  show ?thesis
  proof (cases r)
    case None
    with assms s1 k1 show ?thesis by (simp add: sdb_disasm_def)
  next
    case (Some addr)
    obtain b s2 where s2: "(if \<not> sdb_is_running (sdb s1) then disasm_file H addr s1 else disasm_process H addr s1) = Inr (b, s2)"
      and r: "(case b of None \<Rightarrow> Inr s2 | Some bs \<Rightarrow> print_disasm (h_disasm H bs addr) s2) = Inr s'"
      using assms s1 Some by (auto simp: sdb_disasm_def thenR_eq_Inr simp del: split_paired_Ex)
    have "keeps s1 s2" using s2 by (auto intro: keeps_disasm_file keeps_disasm_process split: if_splits)
    moreover have "keeps s2 s'"
      using r by (auto simp: print_disasm_def intro!: keeps_rules dest: keeps_print_insns split: option.splits if_splits)
    ultimately show ?thesis using k1 by (blast intro: keeps_trans)
  qed
qed

lemma keeps_dump_row: "dump_row a buf i s = Inr r \<Longrightarrow> keeps s (flow_state r)"
  by (auto simp: dump_row_def intro!: keeps_rules split: if_splits)

lemma keeps_dump: "sdb_dump H a s = Inr s' \<Longrightarrow> keeps s s'"
  unfolding sdb_dump_def Let_def thenR_eq_Inr
  by (auto simp: thenR_eq_Inr intro: keeps_emitI dest: keeps_for_upto [OF _ keeps_dump_row] split: if_splits)

lemma keeps_get: "sdb_get H n s = Inr (v, s') \<Longrightarrow> keeps s s'"
  by (auto simp: sdb_get_def thenR_eq_Inr intro!: keeps_rules)

lemma keeps_set: "keeps s (sdb_set H raw n v s)"
  by (auto simp: sdb_set_def Let_def intro!: keeps_rules split: prod.splits)

lemma keeps_getregs: "sdb_getregs H s = Inr s' \<Longrightarrow> keeps s s'"
  by (auto simp: sdb_getregs_def thenR_eq_Inr intro!: keeps_rules)

lemma keeps_all_maps: "print_all_maps ls s = Inr s' \<Longrightarrow> keeps s s'"
  by (induction ls s rule: print_all_maps.induct)
     (auto simp: thenR_eq_Inr print_vm_maps_def intro: keeps_emit_first)

lemma keeps_vmmap: "sdb_vmmap H s = Inr s' \<Longrightarrow> keeps s s'"
  by (auto simp: sdb_vmmap_def thenR_eq_Inr intro!: keeps_rules dest: keeps_all_maps split: if_splits option.splits)

lemma keeps_load_rest: "sdb_load_rest fn e s = Inr s' \<Longrightarrow> keeps s s'"
  by (auto simp: sdb_load_rest_def thenR_eq_Inr Let_def store_s_def keeps_def wf_sdb_def emit_def
      split: option.splits if_splits)

lemma keeps_load:
  assumes "sdb_load E fn s = Inr s'"
  shows "keeps s s'"
proof -
  define s1 where "s1 = (case eh (sdb s) of
                  None \<Rightarrow> s
                | Some e \<Rightarrow> on_sdb (\<lambda>d. d\<lparr>eh := None\<rparr>) (s\<lparr>released := released s @ elf_close (Some e)\<rparr>))"
  have s1: "keeps s s1" by (auto simp: s1_def keeps_def wf_sdb_def split: option.splits)
  obtain h where h: "elf_open E fn = Inr h"
    using assms unfolding sdb_load_def Let_def thenR_eq_Inr by blast
  show ?thesis
  proof (cases h)
    case None
    with assms h s1 show ?thesis
      by (auto simp: sdb_load_def Let_def simp flip: s1_def intro!: keeps_emitI)
  next
    case (Some e0)
    with assms h obtain ok e where la: "elf_load_all E e0 = Inr (ok, e)"
      by (auto simp: sdb_load_def thenR_eq_Inr Let_def)
    have s2: "keeps s (on_sdb (\<lambda>d. d\<lparr>eh := Some e\<rparr>) s1)" using s1 by (auto intro!: keeps_sdbI)
    with assms h Some la show ?thesis
      by (auto simp: sdb_load_def Let_def simp flip: s1_def intro: keeps_emitI keeps_trans keeps_load_rest
          split: if_splits)
  qed
qed

subsection \<open>The commands as instances\<close>

interpretation cmd_break: sdb_command "\<lambda>s. Some (sdb_set_break H a s)" for H a
  by unfold_locales (auto dest: keeps_set_break)

interpretation cmd_delete: sdb_command "\<lambda>s. Some (Inr (sdb_delete H i s))" for H i
  by unfold_locales (auto simp: keeps_delete)

interpretation cmd_list: sdb_command "\<lambda>s. Some (Inr (sdb_list s))"
  by unfold_locales (auto simp: keeps_list)

interpretation cmd_start: sdb_command "\<lambda>s. Some (sdb_start H s)" for H
  by unfold_locales (auto dest: keeps_start)

interpretation cmd_step: sdb_command "\<lambda>s. Some (sdb_step H s)" for H
  by unfold_locales (auto dest: keeps_step)

interpretation cmd_cont: sdb_command "sdb_cont H" for H
  by unfold_locales (rule keeps_cont)

interpretation cmd_run: sdb_command "sdb_run H" for H
  by unfold_locales (rule keeps_run)

interpretation cmd_disasm: sdb_command "\<lambda>s. Some (sdb_disasm H a s)" for H a
  by unfold_locales (auto dest: keeps_disasm)

interpretation cmd_dump: sdb_command "\<lambda>s. Some (sdb_dump H a s)" for H a
  by unfold_locales (auto dest: keeps_dump)

interpretation cmd_get: sdb_command "\<lambda>s. Some (thenR (sdb_get H n s) (\<lambda>(v, s). Inr s))" for H n
  by unfold_locales (auto simp: thenR_eq_Inr dest: keeps_get)

interpretation cmd_set: sdb_command "\<lambda>s. Some (Inr (sdb_set H raw n v s))" for H raw n v
  by unfold_locales (auto simp: keeps_set)

interpretation cmd_getregs: sdb_command "\<lambda>s. Some (sdb_getregs H s)" for H
  by unfold_locales (auto dest: keeps_getregs)

interpretation cmd_vmmap: sdb_command "\<lambda>s. Some (sdb_vmmap H s)" for H
  by unfold_locales (auto dest: keeps_vmmap)

interpretation cmd_load: sdb_command "\<lambda>s. Some (sdb_load E fn s)" for E fn
  by unfold_locales (auto dest: keeps_load)

end
