(* ===== verification/Sdb_Main.thy ===== *)
theory Sdb_Main
  imports Sdb_Commands
begin

text \<open>
  The command loop of \<^verbatim>\<open>hw4/main.c\<close>.  A line is what \<open>getline\<close> delivers, \<open>command\<close> is
  \<open>main\<close>'s buffer of that name: \<open>None\<close> until the first \<open>sscanf\<close> stores into it, and kept
  from one line to the next.  The argument buffers are fresh in every iteration, so an
  argument that the line does not give is an object that was never assigned.
\<close>

record 'k session =
  command :: "string option"
  dbg :: "'k sys"

text \<open>What the commands depend on besides the state.\<close>

record 'k env =
  host_of :: "'k host"
  elf_of :: elf_host
  raw_regs :: user_regs    \<comment> \<open>the indeterminate contents of a fresh register structure\<close>

subsection \<open>Scanning the line\<close>

text \<open>
  The command word, and the text behind it; a blank line gives neither.
\<close>

definition scan_command :: "string \<Rightarrow> string option \<Rightarrow> (string \<times> string) res" where
  "scan_command line old =
     (case scan_s line of
        None \<Rightarrow> thenR (need Uninit_Read old) (\<lambda>c. Inr (c, []))
      | Some (c, rest) \<Rightarrow> thenR (store_s 64 c) (\<lambda>c. Inr (c, rest)))"

text \<open>The next word of the line, stored in \<open>char buf[n]\<close>.\<close>

definition scan_word :: "nat \<Rightarrow> string \<Rightarrow> (string option \<times> string) res" where
  "scan_word n rest =
     (case scan_s rest of
        None \<Rightarrow> Inr (None, [])
      | Some (w, rest') \<Rightarrow> thenR (store_s n w) (\<lambda>w. Inr (Some w, rest')))"

text \<open>One word argument of \<open>n\<close> bytes for a command that reads it.\<close>

definition with_word :: "nat \<Rightarrow> string \<Rightarrow> (string \<Rightarrow> 'k sys res) \<Rightarrow> 'k sys res" where
  "with_word n rest f =
     thenR (scan_word n rest) (\<lambda>(w, _). thenR (need Uninit_Read w) f)"

definition set_value :: "string \<Rightarrow> u64 option" where
  "set_value oprand2 =
     (if take 2 oprand2 = ''0x'' then scan_llx (drop 2 oprand2) else scan_llu oprand2)"

subsection \<open>The commands\<close>

definition run_break :: "'k env \<Rightarrow> string \<Rightarrow> 'k sys \<Rightarrow> 'k sys res" where
  "run_break V rest s =
     thenR (scan_word 16 rest) (\<lambda>(w, _).
       case w of
         Some arg \<Rightarrow> sdb_set_break (host_of V) arg s
       | None \<Rightarrow> if sdb_is_loaded (sdb s) then Inl Uninit_Read else sdb_set_break (host_of V) [] s)"

definition run_delete :: "'k env \<Rightarrow> string \<Rightarrow> 'k sys \<Rightarrow> 'k sys res" where
  "run_delete V rest s =
     thenR (need Uninit_Read (scan_d rest)) (\<lambda>index. Inr (sdb_delete (host_of V) index s))"

definition run_disasm :: "'k env \<Rightarrow> string \<Rightarrow> 'k sys \<Rightarrow> 'k sys res" where
  "run_disasm V rest s =
     thenR (scan_word 16 rest) (\<lambda>(w, _).
       sdb_disasm (host_of V) (case w of None \<Rightarrow> '''' | Some addr \<Rightarrow> addr) s)"

definition run_get :: "'k env \<Rightarrow> string \<Rightarrow> 'k sys \<Rightarrow> 'k sys res" where
  "run_get V rest s = with_word 16 rest (\<lambda>n. thenR (sdb_get (host_of V) n s) (\<lambda>(v, s). Inr s))"

definition run_set :: "'k env \<Rightarrow> string \<Rightarrow> 'k sys \<Rightarrow> 'k sys res" where
  "run_set V rest s =
     thenR (scan_word 16 rest) (\<lambda>(w1, rest1).
     thenR (scan_word 16 rest1) (\<lambda>(w2, _).
     thenR (need Uninit_Read w2) (\<lambda>oprand2.
     thenR (need Uninit_Read w1) (\<lambda>oprand1.
     thenR (need Uninit_Read (set_value oprand2)) (\<lambda>val.
       Inr (sdb_set (host_of V) (raw_regs V) oprand1 val s))))))"

definition help_msg :: string where
  "help_msg = concat (map (\<lambda>l. l @ newline)
     [''- break {instruction-address}: add a break point'', ''- cont: continue execution'',
      ''- delete {break-point-id}: remove a break point'',
      ''- disasm addr: disassemble instructions in a file or a memory region'',
      ''- dump addr [length]: dump memory content'', ''- exit: terminate the debugger'',
      ''- get reg: get a single value from a register'', ''- getregs: show registers'',
      ''- help: show this message'', ''- list: list break points'',
      ''- load {path/to/a/program}: load a program'', ''- run: run the program'',
      ''- vmmap: show memory layout'', ''- set reg val: get a single value to a register'',
      ''- si: step into instruction'', ''- start: start the program and stop at the first instruction''])"

text \<open>
  The \<open>if\<close> chain, without \<open>exit\<close>: \<open>None\<close> is a command that runs for ever.
\<close>

definition dispatch :: "'k env \<Rightarrow> string \<Rightarrow> string \<Rightarrow> 'k sys \<Rightarrow> 'k sys res option" where
  "dispatch V c rest s =
     (let H = host_of V in
      if c = ''break'' \<or> c = ''b'' then Some (run_break V rest s)
      else if c = ''cont'' \<or> c = ''c'' then sdb_cont H s
      else if c = ''delete'' then Some (run_delete V rest s)
      else if c = ''disasm'' \<or> c = ''d'' then Some (run_disasm V rest s)
      else if c = ''dump'' then Some (with_word 16 rest (\<lambda>addr. sdb_dump H addr s))
      else if c = ''get'' \<or> c = ''g'' then Some (run_get V rest s)
      else if c = ''getregs'' then Some (sdb_getregs H s)
      else if c = ''help'' \<or> c = ''h'' then Some (Inr (printf help_msg s))
      else if c = ''list'' \<or> c = ''l'' then Some (Inr (sdb_list s))
      else if c = ''load'' then Some (with_word 64 rest (\<lambda>new_filename. sdb_load (elf_of V) new_filename s))
      else if c = ''run'' \<or> c = ''r'' then sdb_run H s
      else if c = ''vmmap'' \<or> c = ''m'' then Some (sdb_vmmap H s)
      else if c = ''set'' \<or> c = ''s'' then Some (run_set V rest s)
      else if c = ''si'' then Some (sdb_step H s)
      else if c = ''start'' then Some (sdb_start H s)
      else Some (Inr (printf (''Unknown command: '' @ c @ newline) s)))"

definition is_exit :: "string \<Rightarrow> bool" where
  "is_exit c \<longleftrightarrow> c = ''exit'' \<or> c = ''q''"

text \<open>One iteration of the loop; \<open>Return\<close> is the \<open>break\<close> of the \<open>exit\<close> command.\<close>

definition main_step :: "'k env \<Rightarrow> string \<Rightarrow> 'k session \<Rightarrow> 'k session flow res option" where
  "main_step V line m =
     (let s = printf ''sdb> '' (dbg m) in
      case scan_command line (command m) of
        Inl e \<Rightarrow> Some (Inl e)
      | Inr (c, rest) \<Rightarrow>
          if is_exit c then Some (Inr (Return \<lparr>command = Some c, dbg = s\<rparr>))
          else map_option (map_sum id (\<lambda>s'. Next \<lparr>command = Some c, dbg = s'\<rparr>)) (dispatch V c rest s))"

text \<open>
  The loop on the given lines of the input, or up to an \<open>exit\<close>.  What the code does when the
  input ends (the last line is run again, for ever) is not part of it.
\<close>

fun main_loop :: "'k env \<Rightarrow> string list \<Rightarrow> 'k session \<Rightarrow> 'k session flow res option" where
  "main_loop V [] m = Some (Inr (Next m))"
| "main_loop V (line # lines) m =
     (case main_step V line m of
        None \<Rightarrow> None
      | Some (Inl e) \<Rightarrow> Some (Inl e)
      | Some (Inr (Return m')) \<Rightarrow> Some (Inr (Return m'))
      | Some (Inr (Next m')) \<Rightarrow> main_loop V lines m')"

definition main_start :: "'k env \<Rightarrow> (nat \<Rightarrow> bp_t) \<Rightarrow> string list \<Rightarrow> 'k \<Rightarrow> 'k session res" where
  "main_start V raw args k =
     (let s = \<lparr>sdb = sdb_create raw, os = k, out = [], released = []\<rparr> in
      case args of
        [file] \<Rightarrow> thenR (sdb_load (elf_of V) file s) (\<lambda>s. Inr \<lparr>command = None, dbg = s\<rparr>)
      | _ \<Rightarrow> Inr \<lparr>command = None, dbg = s\<rparr>)"

subsection \<open>What every session keeps\<close>

lemma keeps_with_word:
  assumes "with_word n rest f = Inr s'" "\<And>w. f w = Inr s' \<Longrightarrow> keeps s s'"
  shows "keeps s s'"
  using assms by (auto simp: with_word_def thenR_eq_Inr)

lemma keeps_run_break: "run_break V rest s = Inr s' \<Longrightarrow> keeps s s'"
  by (auto simp: run_break_def thenR_eq_Inr dest: keeps_set_break split: option.splits if_splits)

lemma keeps_run_delete: "run_delete V rest s = Inr s' \<Longrightarrow> keeps s s'"
  by (auto simp: run_delete_def thenR_eq_Inr keeps_delete)

lemma keeps_run_disasm: "run_disasm V rest s = Inr s' \<Longrightarrow> keeps s s'"
  by (auto simp: run_disasm_def thenR_eq_Inr dest: keeps_disasm)

lemma keeps_run_get: "run_get V rest s = Inr s' \<Longrightarrow> keeps s s'"
  unfolding run_get_def by (erule keeps_with_word) (auto simp: thenR_eq_Inr dest: keeps_get)

lemma keeps_run_set: "run_set V rest s = Inr s' \<Longrightarrow> keeps s s'"
  by (auto simp: run_set_def thenR_eq_Inr keeps_set)

lemmas keeps_commands = keeps_run_break keeps_run_delete keeps_run_disasm keeps_run_get keeps_run_set
  keeps_cont keeps_run keeps_getregs keeps_vmmap keeps_step keeps_start

text \<open>The same as a property of a result, for the branches of the \<open>if\<close> chain.\<close>

definition kept :: "'k sys \<Rightarrow> 'k sys res option \<Rightarrow> bool" where
  "kept s r \<longleftrightarrow> (\<forall>s'. r = Some (Inr s') \<longrightarrow> keeps s s')"

lemma kept_if: "kept s a \<Longrightarrow> kept s b \<Longrightarrow> kept s (if P then a else b)"
  by simp

lemma kept_dispatch: "kept s (dispatch V c rest s)"
  unfolding dispatch_def Let_def
  by (intro kept_if; unfold kept_def; intro allI impI)
     (auto simp: keeps_list intro!: keeps_emitI intro: keeps_commands
        dest: keeps_with_word [OF _ keeps_dump] keeps_with_word [OF _ keeps_load])

interpretation cmd_line: sdb_command "dispatch V c rest" for V c rest
  using kept_dispatch [unfolded kept_def] by unfold_locales blast

lemma main_step_keeps:
  assumes "main_step V line m = Some (Inr fl)"
  shows "keeps (dbg m) (dbg (flow_state fl))"
proof -
  let ?s = "printf ''sdb> '' (dbg m)"
  obtain c rest where c: "scan_command line (command m) = Inr (c, rest)"
    using assms by (auto simp: main_step_def Let_def split: sum.splits)
  show ?thesis
  proof (cases "is_exit c")
    case True
    with assms c show ?thesis by (auto simp: main_step_def Let_def keeps_emitI)
  next
    case False
    with assms c obtain r where r: "dispatch V c rest ?s = Some r"
      "map_sum id (\<lambda>s'. Next \<lparr>command = Some c, dbg = s'\<rparr>) r = Inr fl"
      by (auto simp: main_step_def Let_def)
    then obtain s' where "r = Inr s'" "fl = Next \<lparr>command = Some c, dbg = s'\<rparr>" by (cases r) auto
    with r cmd_line.run_keeps [of V c rest ?s s'] show ?thesis by (auto intro: keeps_emit_first)
  qed
qed

lemma main_loop_keeps: "main_loop V lines m = Some (Inr fl) \<Longrightarrow> keeps (dbg m) (dbg (flow_state fl))"
proof (induction V lines m rule: main_loop.induct)
  case (2 V line lines m)
  then obtain fl1 where fl1: "main_step V line m = Some (Inr fl1)" by (auto split: option.splits sum.splits)
  note k = main_step_keeps [OF fl1]
  show ?case
  proof (cases fl1)
    case (Next m1)
    with 2 fl1 have "keeps (dbg m1) (dbg (flow_state fl))" by simp
    with k Next show ?thesis by (auto intro: keeps_trans)
  qed (use 2 fl1 k in auto)
qed auto

subsection \<open>Lines\<close>

definition word_of_line :: "string \<Rightarrow> bool" where
  "word_of_line w \<longleftrightarrow> w \<noteq> [] \<and> (\<forall>c \<in> set w. \<not> c_space c)"

lemma scan_s_space: "c_space d \<Longrightarrow> scan_s (d # s) = scan_s s"
  by (simp add: scan_s_def)

lemma scan_s_word:
  assumes "word_of_line w" "c_space d"
  shows "scan_s (w @ d # s) = Some (w, d # s)"
proof -
  obtain c u where w: "w = c # u" "\<not> c_space c" using assms(1) by (cases w) (auto simp: word_of_line_def)
  have "dropWhile c_space (w @ d # s) = w @ d # s" using w by simp
  moreover have "takeWhile (\<lambda>c. \<not> c_space c) (w @ d # s) = w" "dropWhile (\<lambda>c. \<not> c_space c) (w @ d # s) = d # s"
    using assms by (simp_all add: word_of_line_def takeWhile_append dropWhile_append)
  ultimately show ?thesis using w by (simp add: scan_s_def)
qed

lemma space_chars [simp]: "c_space (CHR '' '')" "c_space (CHR 0x0A)"
  by (simp_all add: c_space_def)

lemma scan_blank: "(\<forall>c \<in> set s. c_space c) \<longleftrightarrow> scan_s s = None"
proof -
  have "takeWhile (\<lambda>c. \<not> c_space c) (dropWhile c_space s) = [] \<longleftrightarrow> dropWhile c_space s = []"
    by (metis (mono_tags) hd_dropWhile takeWhile_eq_Nil_iff takeWhile.simps(1))
  then show ?thesis by (auto simp: scan_s_def Let_def dropWhile_eq_Nil_conv)
qed

lemma scan_word_newline: "scan_word n newline = scan_word n []"
  by (simp add: scan_word_def scan_s_def)

lemma scan_d_newline: "scan_d newline = scan_d []"
  by (simp add: scan_d_def)

lemma dispatch_newline: "dispatch V c newline s = dispatch V c [] s"
  by (simp add: dispatch_def run_break_def run_delete_def run_disasm_def run_get_def run_set_def with_word_def
      scan_word_newline scan_d_newline cong: if_cong)

text \<open>
  an empty line.  After the command \<open>c\<close>, a line of white space runs \<open>c\<close> again, as if the
  line were the command word alone (without the arguments it had before).
\<close>

theorem blank_line_repeats:
  assumes "command m = Some c" "word_of_line c" "length c < 64" "\<forall>x \<in> set line. c_space x"
  shows "main_step V line m = main_step V (c @ newline) m"
proof -
  have "scan_command line (command m) = Inr (c, [])"
    using assms(1,4) by (simp add: scan_blank scan_command_def)
  moreover have "scan_command (c @ newline) (command m) = Inr (c, newline)"
    using assms(2,3) by (simp add: scan_command_def scan_s_word store_s_def)
  ultimately show ?thesis by (cases "is_exit c") (simp_all add: main_step_def Let_def dispatch_newline)
qed

subsection \<open>The table commands refine a numbered store\<close>

datatype table_cmd = Set_Bp u64 | Del_Bp nat | List_Bps

definition table_line :: "table_cmd \<Rightarrow> string" where
  "table_line c = (case c of
     Set_Bp a \<Rightarrow> ''break 0x'' @ show_llx a @ newline
   | Del_Bp i \<Rightarrow> ''delete '' @ show_d (int i) @ newline
   | List_Bps \<Rightarrow> ''list'' @ newline)"

text \<open>The abstract effect; \<open>None\<close> where there is no free number.\<close>

definition table_step :: "table_cmd \<Rightarrow> (nat \<Rightarrow> u64 option) \<Rightarrow> (nat \<Rightarrow> u64 option) option" where
  "table_step c t = (case c of
     Set_Bp a \<Rightarrow> map_option (\<lambda>i. t(i \<mapsto> a)) (find (\<lambda>i. t i = None) [0..<MAX_BREAK])
   | Del_Bp i \<Rightarrow> Some (t(i := None))
   | List_Bps \<Rightarrow> Some t)"

fun table_run :: "table_cmd list \<Rightarrow> (nat \<Rightarrow> u64 option) \<Rightarrow> (nat \<Rightarrow> u64 option) option" where
  "table_run [] t = Some t"
| "table_run (c # cs) t = (case table_step c t of None \<Rightarrow> None | Some t' \<Rightarrow> table_run cs t')"

text \<open>An address that fits \<open>char bp_addr[16]\<close>, a number that fits \<open>int\<close>.\<close>

definition table_cmd_ok :: "table_cmd \<Rightarrow> bool" where
  "table_cmd_ok c = (case c of
     Set_Bp a \<Rightarrow> length (show_llx a) \<le> 13 | Del_Bp i \<Rightarrow> i < 2 ^ 31 | List_Bps \<Rightarrow> True)"

definition idle_session :: "'k session \<Rightarrow> bool" where
  "idle_session m \<longleftrightarrow> wf_sdb (sdb (dbg m)) \<and> sdb_is_loaded (sdb (dbg m)) \<and> \<not> sdb_is_running (sdb (dbg m))"

lemma word_of_line_0x: "word_of_line (CHR ''0'' # CHR ''x'' # show_llx (a :: u64))"
proof -
  have "\<not> c_space (CHR ''0'')" "\<not> c_space (CHR ''x'')" by (simp_all add: c_space_def)
  then show ?thesis by (auto simp: word_of_line_def dest: show_llx_digits digit_not_special(1))
qed

lemma word_of_line_d: "word_of_line (show_d (int i))"
proof -
  have "\<not> c_space c" if "c \<in> set (show_base 10 i)" for c
    by (rule digit_not_special(1), rule is_digit_of_mono [of 10]) (use show_base_digits [of 10 c i] that in simp_all)
  then show ?thesis using show_base_nonempty by (auto simp: word_of_line_def show_d_def)
qed

lemma scan_d_line: "i < 2 ^ 31 \<Longrightarrow> scan_d (CHR '' '' # show_d (int i) @ newline) = Some (int i)"
  using scan_d_show_d [of i newline] by (simp add: scan_d_blank is_digit_of_def digit_val_def)

lemma idle_frame:
  assumes "wf_sdb (sdb s)" "sdb_is_loaded (sdb s)" "\<not> sdb_is_running (sdb s)"
  shows "wf_sdb (sdb (printf t s)) \<and> sdb_is_loaded (sdb (printf t s)) \<and> \<not> sdb_is_running (sdb (printf t s))"
  using assms by simp

lemma break_idle:
  assumes "wf_sdb (sdb s)" "sdb_is_loaded (sdb s)" "\<not> sdb_is_running (sdb s)"
  shows "sdb_set_break H (CHR ''0'' # CHR ''x'' # show_llx a) s =
    (case find (\<lambda>i. bp_table (sdb s) i = None) [0..<MAX_BREAK] of
       None \<Rightarrow> Inl Uninit_Read
     | Some i \<Rightarrow> Inr (set_bp i (\<lambda>b. b\<lparr>is_used := True, bp_addr := a\<rparr>) s))"
proof -
  have "first_free (breaks (sdb s)) = find (\<lambda>i. bp_table (sdb s) i = None) [0..<MAX_BREAK]"
    using assms(1) unfolding first_free_def by (intro find_cong) (auto simp: bp_table_def wf_sdb_def)
  then show ?thesis
    using assms(2,3) by (auto simp: sdb_set_break_def skip_0x_def Let_def sdb_is_running_def split: option.splits)
qed

lemma set_bp_table:
  assumes "wf_sdb (sdb s)" "i < MAX_BREAK"
  shows "bp_table (sdb (set_bp i (\<lambda>b. b\<lparr>is_used := True, bp_addr := a\<rparr>) s)) = (bp_table (sdb s))(i \<mapsto> a)"
  using assms by (auto simp: bp_table_def wf_sdb_def fun_eq_iff nth_list_update)

lemma delete_idle:
  assumes "wf_sdb (sdb s)"
  shows "bp_table (sdb (sdb_delete H (int i) s)) = (bp_table (sdb s))(i := None) \<and>
    pid (sdb (sdb_delete H (int i) s)) = pid (sdb s) \<and> path (sdb (sdb_delete H (int i) s)) = path (sdb s)"
proof -
  have "bp_table (sdb (sdb_delete H (int i) s)) = (bp_table (sdb s))(i := None)"
    using sdb_delete_eq [OF assms, of "int i" H] sdb_delete_unused [OF assms, of "int i" H] bps.remove_lookup [OF assms, of i]
    by (cases "bp_table (sdb s) i = None") auto
  then show ?thesis by (simp add: sdb_delete_def Let_def)
qed

lemma scan_line:
  assumes "word_of_line w" "length w < 64"
  shows "scan_command (w @ CHR '' '' # rest) old = Inr (w, CHR '' '' # rest)"
    "scan_command (w @ newline) old = Inr (w, newline)"
  using assms by (simp_all add: scan_command_def scan_s_word store_s_def)

lemma scan_arg:
  assumes "word_of_line w" "length w < n"
  shows "scan_word n (CHR '' '' # w @ newline) = Inr (Some w, newline)"
  using assms by (simp add: scan_word_def scan_s_space scan_s_word store_s_def)

lemma table_words: "word_of_line ''break''" "word_of_line ''delete''" "word_of_line ''list''"
  by (simp_all add: word_of_line_def c_space_def)

lemma table_dispatch:
  "dispatch V ''break'' rest s = Some (run_break V rest s)"
  "dispatch V ''delete'' rest s = Some (run_delete V rest s)"
  "dispatch V ''list'' rest s = Some (Inr (sdb_list s))"
  "\<not> is_exit ''break''" "\<not> is_exit ''delete''" "\<not> is_exit ''list''"
  by (simp_all add: dispatch_def is_exit_def)

lemma table_step_refines:
  assumes idle: "idle_session m" and ok: "table_cmd_ok c"
  shows "case table_step c (bp_table (sdb (dbg m))) of
      None \<Rightarrow> main_step V (table_line c) m = Some (Inl Uninit_Read)
    | Some t \<Rightarrow> \<exists>m'. main_step V (table_line c) m = Some (Inr (Next m')) \<and> idle_session m' \<and>
        bp_table (sdb (dbg m')) = t"
proof -
  let ?s = "printf ''sdb> '' (dbg m)"
  have wf: "wf_sdb (sdb ?s)" and ld: "sdb_is_loaded (sdb ?s)" and run: "\<not> sdb_is_running (sdb ?s)"
    using idle by (simp_all add: idle_session_def)
  show ?thesis
  proof (cases c)
    case (Set_Bp a)
    let ?w = "CHR ''0'' # CHR ''x'' # show_llx a"
    have "table_line c = ''break'' @ CHR '' '' # ?w @ newline" by (simp add: Set_Bp table_line_def)
    then have sc: "scan_command (table_line c) (command m) = Inr (''break'', CHR '' '' # ?w @ newline)"
      using scan_line(1) [OF table_words(1)] by simp
    have "scan_word 16 (CHR '' '' # ?w @ newline) = Inr (Some ?w, newline)"
      using ok by (intro scan_arg word_of_line_0x) (simp add: Set_Bp table_cmd_ok_def)
    then have rb: "run_break V (CHR '' '' # ?w @ newline) ?s = sdb_set_break (host_of V) ?w ?s"
      unfolding run_break_def by simp
    have st: "main_step V (table_line c) m =
        Some (map_sum id (\<lambda>s'. Next \<lparr>command = Some ''break'', dbg = s'\<rparr>) (sdb_set_break (host_of V) ?w ?s))"
      by (simp add: main_step_def sc rb table_dispatch del: append_Cons)
    show ?thesis
    proof (cases "find (\<lambda>i. bp_table (sdb (dbg m)) i = None) [0..<MAX_BREAK]")
      case None
      then show ?thesis using st break_idle [OF wf ld run] by (simp add: Set_Bp table_step_def)
    next
      case (Some i)
      then have "i < MAX_BREAK" by (auto simp: find_Some_iff)
      with Some st break_idle [OF wf ld run] set_bp_table [OF wf] idle show ?thesis
        by (simp add: Set_Bp table_step_def idle_session_def wf_sdb_def sdb_is_loaded_def sdb_is_running_def)
    qed
  next
    case (Del_Bp i)
    have "table_line c = ''delete'' @ CHR '' '' # show_d (int i) @ newline" by (simp add: Del_Bp table_line_def)
    then have sc: "scan_command (table_line c) (command m) = Inr (''delete'', CHR '' '' # show_d (int i) @ newline)"
      using scan_line(1) [OF table_words(2)] by simp
    have "run_delete V (CHR '' '' # show_d (int i) @ newline) ?s = Inr (sdb_delete (host_of V) (int i) ?s)"
      using ok by (simp add: run_delete_def scan_d_line Del_Bp table_cmd_ok_def)
    with sc have "main_step V (table_line c) m =
        Some (Inr (Next \<lparr>command = Some ''delete'', dbg = sdb_delete (host_of V) (int i) ?s\<rparr>))"
      by (simp add: main_step_def table_dispatch)
    then show ?thesis
      using delete_idle [OF wf, of "host_of V" i] keeps_delete [of ?s "host_of V" "int i"] wf ld run
      by (simp add: Del_Bp table_step_def idle_session_def sdb_is_loaded_def sdb_is_running_def keeps_def)
  next
    case List_Bps
    have sc: "scan_command (table_line c) (command m) = Inr (''list'', newline)"
      using scan_line(2) [OF table_words(3)] by (simp add: List_Bps table_line_def)
    have "sdb (sdb_list ?s) = sdb (dbg m)" by (simp add: sdb_list_def fold_printf)
    with sc idle show ?thesis
      by (simp add: main_step_def table_dispatch List_Bps table_step_def idle_session_def)
  qed
qed

text \<open>
  C5: the table commands as a whole.  On a loaded program that is not running, any sequence
  of \<open>break\<close>, \<open>delete\<close> and \<open>list\<close> lines acts on the breakpoint table as the same sequence
  of abstract operations acts on a store of ten numbered slots, and the run goes wrong
  exactly where the abstract one has no free slot.
\<close>

theorem table_session_refines:
  assumes "idle_session m" "\<forall>c \<in> set cs. table_cmd_ok c"
  shows "case table_run cs (bp_table (sdb (dbg m))) of
      None \<Rightarrow> main_loop V (map table_line cs) m = Some (Inl Uninit_Read)
    | Some t \<Rightarrow> \<exists>m'. main_loop V (map table_line cs) m = Some (Inr (Next m')) \<and>
        bp_table (sdb (dbg m')) = t"
  using assms
proof (induction cs arbitrary: m)
  case Nil
  then show ?case by simp
next
  case (Cons c cs)
  have step: "case table_step c (bp_table (sdb (dbg m))) of
      None \<Rightarrow> main_step V (table_line c) m = Some (Inl Uninit_Read)
    | Some t \<Rightarrow> \<exists>m'. main_step V (table_line c) m = Some (Inr (Next m')) \<and> idle_session m' \<and>
        bp_table (sdb (dbg m')) = t"
    using Cons.prems by (intro table_step_refines) simp_all
  show ?case
  proof (cases "table_step c (bp_table (sdb (dbg m)))")
    case None
    with step show ?thesis by simp
  next
    case (Some t)
    with step obtain m' where m': "main_step V (table_line c) m = Some (Inr (Next m'))" "idle_session m'"
        "bp_table (sdb (dbg m')) = t" by auto
    have eq: "main_loop V (map table_line (c # cs)) m = main_loop V (map table_line cs) m'"
      "table_run (c # cs) (bp_table (sdb (dbg m))) = table_run cs (bp_table (sdb (dbg m')))"
      using m' Some by simp_all
    show ?thesis unfolding eq using Cons.IH [OF m'(2)] Cons.prems by simp
  qed
qed

end
