(* ===== verification/Sdb_Registers.thy ===== *)
theory Sdb_Registers
  imports Sdb_Main
begin

text \<open>
  The lines \<open>set\<close> and \<open>get\<close> of a session against a register file: from the characters that
  the user types, over \<^verbatim>\<open>main.c\<close>, \<open>sdb_set\<close>, \<open>sdb_get\<close> and \<open>ptrace\<close>, to the text that is
  printed.
\<close>

datatype reg_cmd = Set_Hex string u64 | Set_Dec string u64 | Get_Reg string

definition reg_line :: "reg_cmd \<Rightarrow> string" where
  "reg_line c = (case c of
     Set_Hex n v \<Rightarrow> ''set'' @ CHR '' '' # n @ CHR '' '' # (CHR ''0'' # CHR ''x'' # show_llx v) @ newline
   | Set_Dec n v \<Rightarrow> ''set'' @ CHR '' '' # n @ CHR '' '' # show_llu v @ newline
   | Get_Reg n \<Rightarrow> ''get'' @ CHR '' '' # n @ newline)"

text \<open>A register file, and what the lines do to it and show of it.\<close>

definition reg_shown :: "string \<Rightarrow> u64 \<Rightarrow> out_event" where
  "reg_shown n v = Stdout (n @ '' = '' @ show_llu v @ '' (0x'' @ show_llx v @ '')'' @ newline)"

fun reg_step :: "reg_cmd \<Rightarrow> (string \<Rightarrow> u64) \<Rightarrow> (string \<Rightarrow> u64) \<times> out_event list" where
  "reg_step (Set_Hex n v) \<rho> = (\<rho>(n := v), [])"
| "reg_step (Set_Dec n v) \<rho> = (\<rho>(n := v), [])"
| "reg_step (Get_Reg n) \<rho> = (\<rho>, [reg_shown n (\<rho> n)])"

fun reg_run :: "reg_cmd list \<Rightarrow> (string \<Rightarrow> u64) \<Rightarrow> (string \<Rightarrow> u64) \<times> out_event list" where
  "reg_run [] \<rho> = (\<rho>, [])"
| "reg_run (c # cs) \<rho> =
     (let (\<rho>1, shown1) = reg_step c \<rho>; (\<rho>2, shown2) = reg_run cs \<rho>1
      in (\<rho>2, Stdout ''sdb> '' # shown1 @ shown2))"

text \<open>
  The flags can be shown but not be set at will; a value must fit \<open>char oprand2[16]\<close>.
\<close>

definition reg_cmd_ok :: "reg_cmd \<Rightarrow> bool" where
  "reg_cmd_ok c = (case c of
     Set_Hex n v \<Rightarrow> n \<in> reg_names - {''eflags''} \<and> length (show_llx v) \<le> 13
   | Set_Dec n v \<Rightarrow> n \<in> reg_names - {''eflags''} \<and> length (show_llu v) \<le> 15
   | Get_Reg n \<Rightarrow> n \<in> reg_names)"

definition reg_file :: "user_regs \<Rightarrow> string \<Rightarrow> u64" where
  "reg_file regs n = (case match_reg_name reg_table n regs None of None \<Rightarrow> 0 | Some v \<Rightarrow> v)"

subsection \<open>The words of the lines\<close>

lemma reg_name_word: "n \<in> reg_names \<Longrightarrow> word_of_line n \<and> length n < 16"
  by (auto simp: reg_table_def word_of_line_def c_space_def)

lemma match_reg_file:
  assumes "n \<in> reg_names"
  shows "match_reg_name reg_table n regs None = Some (reg_file regs n)"
proof -
  have "map_of reg_table n \<noteq> None" using assms by (simp add: map_of_eq_None_iff)
  then show ?thesis unfolding reg_file_def match_reg_name_map_of [OF distinct_reg_table] by auto
qed

lemma word_of_line_llu: "word_of_line (show_llu (v :: u64))"
proof -
  have "\<not> c_space c" if "c \<in> set (show_base 10 i)" for c i
    by (rule digit_not_special(1), rule is_digit_of_mono [of 10]) (use show_base_digits [of 10 c i] that in simp_all)
  then show ?thesis using show_base_nonempty by (auto simp: word_of_line_def show_llu_def)
qed

lemma set_value_hex: "set_value (CHR ''0'' # CHR ''x'' # show_llx v) = Some v"
  by (simp add: set_value_def)

lemma set_value_dec: "set_value (show_llu v) = Some v"
proof -
  have "\<not> take 2 (show_llu v) = ''0x''"
  proof
    assume "take 2 (show_llu v) = ''0x''"
    then have "CHR ''x'' \<in> set (show_llu v)" by (metis in_set_takeD list.set_intros)
    then have "is_digit_of 10 (CHR ''x'')" using show_base_digits [of 10 "CHR ''x''"] by (simp add: show_llu_def)
    then show False by (simp add: is_digit_of_def digit_val_def)
  qed
  then show ?thesis by (simp add: set_value_def)
qed

lemma scan_first_arg:
  assumes "word_of_line w" "length w < n"
  shows "scan_word n (CHR '' '' # w @ CHR '' '' # rest) = Inr (Some w, CHR '' '' # rest)"
  using assms by (simp add: scan_word_def scan_s_space scan_s_word store_s_def)

lemma reg_words: "word_of_line ''set''" "word_of_line ''get''"
  by (simp_all add: word_of_line_def c_space_def)

lemma reg_dispatch:
  "dispatch V ''set'' rest s = Some (run_set V rest s)"
  "dispatch V ''get'' rest s = Some (run_get V rest s)"
  "\<not> is_exit ''set''" "\<not> is_exit ''get''"
  by (simp_all add: dispatch_def is_exit_def)

subsection \<open>One line\<close>

lemma main_step_set:
  assumes "n \<in> reg_names" "word_of_line w" "length w < 16" "set_value w = Some v"
  shows "main_step V (''set'' @ CHR '' '' # n @ CHR '' '' # w @ newline) m =
    Some (Inr (Next \<lparr>command = Some ''set'', dbg = sdb_set (host_of V) (raw_regs V) n v (printf ''sdb> '' (dbg m))\<rparr>))"
proof -
  have "run_set V (CHR '' '' # n @ CHR '' '' # w @ newline) s = Inr (sdb_set (host_of V) (raw_regs V) n v s)" for s
    using scan_first_arg [of n 16 "w @ newline"] scan_arg [OF assms(2,3)] reg_name_word [OF assms(1)] assms(4)
    by (simp add: run_set_def)
  then show ?thesis
    using scan_line(1) [OF reg_words(1), of "n @ CHR '' '' # w @ newline"] by (simp add: main_step_def reg_dispatch)
qed

lemma main_step_get:
  assumes "n \<in> reg_names" "h_getregs (host_of V) (pid (sdb (dbg m))) (os (dbg m)) = Some regs"
  shows "\<exists>m'. main_step V (''get'' @ CHR '' '' # n @ newline) m = Some (Inr (Next m')) \<and>
    sdb (dbg m') = sdb (dbg m) \<and> os (dbg m') = os (dbg m) \<and>
    out (dbg m') = out (dbg m) @ [Stdout ''sdb> '', reg_shown n (reg_file regs n)]"
proof -
  let ?s = "printf ''sdb> '' (dbg m)"
  have "sdb_get (host_of V) n ?s = Inr (reg_file regs n, emit (reg_shown n (reg_file regs n)) ?s)"
    using assms(2) match_reg_file [OF assms(1)] by (simp add: sdb_get_def reg_shown_def)
  then have "run_get V (CHR '' '' # n @ newline) ?s = Inr (emit (reg_shown n (reg_file regs n)) ?s)"
    using scan_arg [of n 16] reg_name_word [OF assms(1)] by (simp add: run_get_def with_word_def)
  then have "main_step V (''get'' @ CHR '' '' # n @ newline) m =
      Some (Inr (Next \<lparr>command = Some ''get'', dbg = emit (reg_shown n (reg_file regs n)) ?s\<rparr>))"
    using scan_line(1) [OF reg_words(2), of "n @ newline"] by (simp add: main_step_def reg_dispatch)
  then show ?thesis by simp
qed

lemma reg_table_control: "\<forall>(m, g, u)\<in>set reg_table. m \<noteq> ''eflags'' \<longrightarrow> same_control r (u v r)"
  by (simp add: reg_table_def same_control_def)

lemma set_same_control:
  assumes "n \<noteq> ''eflags''"
  shows "same_control regs (set_if_matched reg_table n v regs)"
  using reg_table_control [of regs v] assms unfolding set_if_matched_map_of [OF distinct_reg_table]
  by (auto simp: same_control_def split: option.split dest!: map_of_SomeD)

lemma reg_file_set:
  assumes "n \<in> reg_names"
  shows "reg_file (set_if_matched reg_table n v regs) = (reg_file regs)(n := v)"
  using assms by (auto simp: fun_eq_iff reg_file_def read_after_set)

lemma set_running:
  assumes "ptrace_host H mem_of" "h_getregs H (pid (sdb s)) (os s) = Some regs" "n \<noteq> ''eflags''"
  shows "sdb (sdb_set H raw n v s) = sdb s \<and> out (sdb_set H raw n v s) = out s \<and>
    h_getregs H (pid (sdb s)) (os (sdb_set H raw n v s)) = Some (set_if_matched reg_table n v regs)"
  using ptrace_host.setregs_regs [OF assms(1,2) set_same_control [OF assms(3), of regs v]] assms(2)
  by (simp add: sdb_set_def split_beta Let_def)

lemma reg_step_line:
  assumes "ptrace_host (host_of V) mem_of" "h_getregs (host_of V) (pid (sdb (dbg m))) (os (dbg m)) = Some regs"
    and "reg_cmd_ok c"
  shows "\<exists>m' regs'. main_step V (reg_line c) m = Some (Inr (Next m')) \<and> sdb (dbg m') = sdb (dbg m) \<and>
    h_getregs (host_of V) (pid (sdb (dbg m))) (os (dbg m')) = Some regs' \<and> same_control regs regs' \<and>
    reg_step c (reg_file regs) = (reg_file regs', drop (Suc (length (out (dbg m)))) (out (dbg m'))) \<and>
    take (Suc (length (out (dbg m)))) (out (dbg m')) = out (dbg m) @ [Stdout ''sdb> '']"
proof -
  have set: ?thesis if c: "c = Set_Hex n v \<or> c = Set_Dec n v" "n \<in> reg_names" "n \<noteq> ''eflags''"
    and w: "reg_line c = ''set'' @ CHR '' '' # n @ CHR '' '' # w @ newline" "word_of_line w" "length w < 16" "set_value w = Some v"
    for n v w
  proof -
    let ?s = "printf ''sdb> '' (dbg m)"
    let ?s' = "sdb_set (host_of V) (raw_regs V) n v ?s"
    have "h_getregs (host_of V) (pid (sdb ?s)) (os ?s) = Some regs" using assms(2) by simp
    from set_running [OF assms(1) this c(3), of "raw_regs V" v] show ?thesis
      using c(1) main_step_set [OF c(2) w(2-4), of V m] set_same_control [OF c(3), of regs v]
      by (intro exI [of _ "\<lparr>command = Some ''set'', dbg = ?s'\<rparr>"] exI [of _ "set_if_matched reg_table n v regs"])
        (auto simp: w(1) reg_file_set [OF c(2)])
  qed
  show ?thesis
  proof (cases c)
    case (Set_Hex n v)
    with assms(3) show ?thesis
      by (intro set [of n v "CHR ''0'' # CHR ''x'' # show_llx v"])
        (simp_all add: reg_cmd_ok_def reg_line_def set_value_hex word_of_line_0x)
  next
    case (Set_Dec n v)
    with assms(3) show ?thesis
      by (intro set [of n v "show_llu v"]) (simp_all add: reg_cmd_ok_def reg_line_def set_value_dec word_of_line_llu)
  next
    case (Get_Reg n)
    with assms(3) have "n \<in> reg_names" by (simp add: reg_cmd_ok_def)
    from main_step_get [OF this assms(2)] show ?thesis
      using assms(2) by (force simp: Get_Reg reg_line_def same_control_def)
  qed
qed

text \<open>
  C18: setting and getting registers.  On a process whose registers can be read, any sequence
  of lines that set registers, in hexadecimal or in decimal, or get registers does not fail and
  prints what a register file shows under the same operations: a register has the value that was last set,
  every other one the value it had; the flags keep theirs.
\<close>

theorem register_session_refines:
  assumes "ptrace_host (host_of V) mem_of" "h_getregs (host_of V) (pid (sdb (dbg m))) (os (dbg m)) = Some regs"
    and "\<forall>c \<in> set cs. reg_cmd_ok c"
  shows "\<exists>m' regs'. main_loop V (map reg_line cs) m = Some (Inr (Next m')) \<and>
    h_getregs (host_of V) (pid (sdb (dbg m))) (os (dbg m')) = Some regs' \<and> same_control regs regs' \<and>
    reg_file regs' = fst (reg_run cs (reg_file regs)) \<and>
    out (dbg m') = out (dbg m) @ snd (reg_run cs (reg_file regs))"
  using assms(2,3)
proof (induction cs arbitrary: m regs)
  case Nil
  then show ?case by (simp add: same_control_def)
next
  case (Cons c cs)
  obtain m1 regs1 where step: "main_step V (reg_line c) m = Some (Inr (Next m1))" "sdb (dbg m1) = sdb (dbg m)"
      "h_getregs (host_of V) (pid (sdb (dbg m))) (os (dbg m1)) = Some regs1" "same_control regs regs1"
      "reg_step c (reg_file regs) = (reg_file regs1, drop (Suc (length (out (dbg m)))) (out (dbg m1)))"
      "take (Suc (length (out (dbg m)))) (out (dbg m1)) = out (dbg m) @ [Stdout ''sdb> '']"
    using reg_step_line [OF assms(1) Cons.prems(1), of c] Cons.prems(2) by auto
  have o: "out (dbg m1) = out (dbg m) @ Stdout ''sdb> '' # drop (Suc (length (out (dbg m)))) (out (dbg m1))"
    by (metis append.assoc append_Cons append_Nil append_take_drop_id step(6))
  have regs1: "h_getregs (host_of V) (pid (sdb (dbg m1))) (os (dbg m1)) = Some regs1" using step(2,3) by simp
  obtain m' regs' where rest: "main_loop V (map reg_line cs) m1 = Some (Inr (Next m'))"
      "h_getregs (host_of V) (pid (sdb (dbg m1))) (os (dbg m')) = Some regs'" "same_control regs1 regs'"
      "reg_file regs' = fst (reg_run cs (reg_file regs1))"
      "out (dbg m') = out (dbg m1) @ snd (reg_run cs (reg_file regs1))"
    using Cons.IH [OF regs1] Cons.prems(2) by auto
  have "out (dbg m') = out (dbg m) @ snd (reg_run (c # cs) (reg_file regs))"
    using rest(5) o by (simp add: step(5) split_beta)
  with step rest show ?case
    by (intro exI [of _ m'] exI [of _ regs']) (simp add: same_control_def split_beta)
qed

end
