(* ===== verification/Command_Sessions.thy ===== *)
theory Command_Sessions
  imports Table_Sessions Sdb_Registers
begin

text \<open>
  Closed examples for the memory commands and the command loop.
\<close>

subsection \<open>Disassembling and dumping\<close>

definition seen :: "machine sys" where
  "seen = demo nops (machine_at demo_mem zero_regs)"

lemma seen_fields [simp]:
  "pid (sdb seen) = 42" "os seen = machine_at demo_mem zero_regs" "out seen = []"
  "sdb_is_running (sdb seen)" "fixed_address seen"
  by (simp_all add: seen_def sdb_is_running_def fixed_address_def)

lemma seen_debugged: "debugged tiny_host machine_mem demo_mem {} seen"
  using demo_placed [of tiny_host nops] by (simp add: debugged_def armed_def) (simp add: seen_def)

lemma seen_armed: "armed tiny_host demo_mem (planted tiny_host seen MAX_BREAK) seen"
  by (auto simp: armed_def seen_def demo_planted demo_used demo_live_of demo_read)
     (simp_all add: demo_breaks_def)

lemma seen_away: "\<forall>i<MAX_BREAK. not_standing_at tiny_host seen (os seen) i"
  by (auto simp: not_standing_at_def seen_def demo_used demo_live_of)

lemma demo_mapped: "mapped_bytes demo_mem 0x1000 64"
  by (auto simp: mapped_bytes_def demo_mem_def word_less_nat_alt unat_of_nat take_bit_nat_eq_self)

theorem disasm_shows_program_witness:
  "\<exists>t. sdb_disasm tiny_host (CHR ''0'' # CHR ''x'' # show_llx (0x1000 :: u64)) seen =
         print_disasm (h_disasm tiny_host (mem_bytes demo_mem 0x1000 64) 0x1000) t \<and>
       debugged tiny_host machine_mem demo_mem (planted tiny_host t MAX_BREAK) t"
proof -
  have "(0x1000 :: u64) < 0x1000 + 64" by simp
  from disasm_shows_program [OF tiny.ptrace_host_axioms seen_fields(4) seen_debugged seen_armed
      seen_fields(5) seen_away demo_mapped this]
  show ?thesis by blast
qed

theorem print_disasm_lines_witness:
  "print_disasm [\<lparr>insn_address = 0x1000, insn_bytes = [0x48, 0xb8, 1, 2, 3, 4], mnemonic = ''movabs'', op_str = ''''\<rparr>] seen =
     Inl Buffer_Overflow"
  using print_disasm_lines [where insns =
      "[\<lparr>insn_address = 0x1000, insn_bytes = [0x48, 0xb8, 1, 2, 3, 4], mnemonic = ''movabs'', op_str = ''''\<rparr>]"
      and s = seen]
  by simp

definition file_state :: "machine sys" where
  "file_state = \<lparr>sdb = (demo_sdb 0)\<lparr>pid := - 1, eh := Some (demo_handle\<lparr>eh_shdr := Some [raw_zero\<lparr>sh_addr := 0x400, sh_size := 0x20, sh_offset := 2\<rparr>], shnum := 1\<rparr>)\<rparr>,
     os = (machine_at demo_mem zero_regs)\<lparr>m_files := [(''/bin/demo'', [1, 2, 0x90, 0xf4])]\<rparr>, out = [], released = []\<rparr>"

theorem disasm_reads_file_witness:
  "\<exists>t. sdb_disasm tiny_host (CHR ''0'' # CHR ''x'' # show_llx (0x401 :: u64)) file_state =
     print_disasm (tiny_disasm [0xf4] 0x401) t"
proof -
  let ?sh = "raw_zero\<lparr>sh_addr := 0x400, sh_size := 0x20, sh_offset := 2\<rparr>"
  have h: "\<not> sdb_is_running (sdb file_state)"
    "eh (sdb file_state) = Some (demo_handle\<lparr>eh_shdr := Some [?sh], shnum := 1\<rparr>)"
    "eh_shdr (demo_handle\<lparr>eh_shdr := Some [?sh], shnum := 1\<rparr>) = Some [?sh]"
    "length [?sh] = shnum (demo_handle\<lparr>eh_shdr := Some [?sh], shnum := 1\<rparr>)"
    "h_file tiny_host (path (sdb file_state)) (os file_state) = Some [1, 2, 0x90, 0xf4]"
    "\<forall>sh \<in> set [?sh]. 0 \<le> sint (sh_offset sh + 0x401 - sh_addr sh)"
    by (simp_all add: file_state_def sdb_is_running_def)
  from disasm_reads_file [OF h] show ?thesis by auto
qed

text \<open>The example memory ends after 64 bytes; the other one is mapped everywhere.\<close>

definition letters :: mem where "letters x = Some 0x41"

definition seen_letters :: "machine sys" where
  "seen_letters = bare (machine_at letters zero_regs)"

theorem sdb_dump_shows_memory_witness:
  "sdb_dump tiny_host (CHR ''0'' # CHR ''x'' # show_llx (0x1000 :: u64)) seen = Inl Uninit_Read \<and>
   (\<exists>t. sdb_dump tiny_host (CHR ''0'' # CHR ''x'' # show_llx (0x1000 :: u64)) seen_letters = Inr t \<and>
     out t = map (\<lambda>i. Stdout (dump_line (0x1000 + of_nat (16 * i)) (replicate 16 0x41))) [0..<5])"
proof
  have a: "(0x1000 :: u64) < 0x1000 + 80" by simp
  have "demo_mem (0x1000 + of_nat 64) = None" "(64 :: nat) < 80" by (simp_all add: demo_mem_def)
  then have "\<not> mapped_bytes demo_mem 0x1000 80" unfolding mapped_bytes_def by blast
  then show "sdb_dump tiny_host (CHR ''0'' # CHR ''x'' # show_llx (0x1000 :: u64)) seen = Inl Uninit_Read"
    using sdb_dump_shows_memory [OF tiny.ptrace_host_axioms seen_fields(4) a] by simp
  have run: "sdb_is_running (sdb seen_letters)" by (simp add: seen_letters_def)
  have mem: "machine_mem (pid (sdb seen_letters)) (os seen_letters) = letters" by (simp add: seen_letters_def)
  have all: "mapped_bytes letters 0x1000 80" by (simp add: mapped_bytes_def letters_def)
  have bytes: "mem_bytes letters x 16 = replicate 16 0x41" for x
    by (simp add: mem_bytes_def letters_def map_replicate_const)
  show "\<exists>t. sdb_dump tiny_host (CHR ''0'' # CHR ''x'' # show_llx (0x1000 :: u64)) seen_letters = Inr t \<and>
     out t = map (\<lambda>i. Stdout (dump_line (0x1000 + of_nat (16 * i)) (replicate 16 0x41))) [0..<5]"
    using sdb_dump_shows_memory [OF tiny.ptrace_host_axioms run a] all
    unfolding mem bytes by (simp add: seen_letters_def)
qed

subsection \<open>The command loop\<close>

definition env :: "machine env" where
  "env = \<lparr>host_of = tiny_host, elf_of = lib, raw_regs = zero_regs\<rparr>"

theorem blank_line_repeats_witness:
  "main_step env ''  '' \<lparr>command = Some ''cont'', dbg = seen\<rparr> =
   main_step env (''cont'' @ newline) \<lparr>command = Some ''cont'', dbg = seen\<rparr>"
  by (rule blank_line_repeats) (simp_all add: word_of_line_def c_space_def)

theorem table_session_refines_witness:
  "\<exists>m'. main_loop env (map table_line [Set_Bp 0x1010, Del_Bp 0, List_Bps, Set_Bp 0x1020])
       \<lparr>command = None, dbg = idle one_used\<rparr> = Some (Inr (Next m')) \<and>
     bp_table (sdb (dbg m')) = [0 \<mapsto> 0x1020, 1 \<mapsto> 0x1010]"
proof -
  let ?m = "\<lparr>command = None, dbg = idle one_used\<rparr>" and ?cs = "[Set_Bp 0x1010, Del_Bp 0, List_Bps, Set_Bp 0x1020]"
  have idle: "idle_session ?m" by (simp add: idle_session_def)
  have ok: "\<forall>c \<in> set ?cs. table_cmd_ok c"
    by (simp add: table_cmd_ok_def show_llx_def show_base.simps)
  have t: "bp_table (sdb (idle one_used)) = [0 \<mapsto> 0x1004]"
    by (auto simp: bp_table_def one_used_def fun_eq_iff some_bp_def no_bp_def nth_Cons split: nat.splits)
  have "table_run ?cs [0 \<mapsto> 0x1004] = Some [0 \<mapsto> 0x1020, 1 \<mapsto> 0x1010]"
    by (auto simp: table_step_def MAX_BREAK_def upt_rec fun_eq_iff)
  with table_session_refines [OF idle ok, of env] show ?thesis by (simp add: t)
qed

theorem register_session_refines_witness:
  "\<exists>m'. main_loop env (map reg_line [Set_Hex ''rax'' 0x2a, Get_Reg ''rax'', Set_Dec ''rbx'' 7, Get_Reg ''rax''])
       \<lparr>command = None, dbg = seen\<rparr> = Some (Inr (Next m')) \<and>
     out (dbg m') = out seen @ [Stdout ''sdb> '', Stdout ''sdb> '', reg_shown ''rax'' 42, Stdout ''sdb> '', Stdout ''sdb> '', reg_shown ''rax'' 42]"
proof -
  let ?m = "\<lparr>command = None, dbg = seen\<rparr>"
    and ?cs = "[Set_Hex ''rax'' 0x2a, Get_Reg ''rax'', Set_Dec ''rbx'' 7, Get_Reg ''rax'']"
  have host: "ptrace_host (host_of env) machine_mem" by (simp add: env_def tiny.ptrace_host_axioms)
  have "h_getregs (host_of env) (pid (sdb (dbg ?m))) (os (dbg ?m)) = Some zero_regs"
    by (simp add: env_def seen_def)
  moreover have "\<forall>c\<in>set ?cs. reg_cmd_ok c"
    by (simp add: reg_cmd_ok_def reg_table_def show_llx_def show_llu_def show_base.simps)
  ultimately show ?thesis
    using register_session_refines [OF host, of ?m zero_regs ?cs] by auto
qed

end
