(* ===== verification/Sdb_Careful.thy ===== *)
theory Sdb_Careful
  imports Sdb_Main
begin

text \<open>
  Whole sessions of the debugger on a program at fixed addresses.  A session is careful when
  the user loads no second program and sets breakpoints only at sites: addresses inside the
  program's code, eight bytes apart, none of them set twice.  Then, whatever the process
  does and in whatever order the commands come, the debugger never damages the program:
  its code in the process is the original one but for \<open>0xcc\<close> at used breakpoints, and for
  every breakpoint the original word is kept.
\<close>

subsection \<open>The traced program\<close>

definition alive :: "'k host \<Rightarrow> int \<Rightarrow> 'k \<Rightarrow> bool" where
  "alive H p k \<longleftrightarrow> h_getregs H p k \<noteq> None"

text \<open>From \<open>k\<close> to \<open>k'\<close> the process, if it is still there, has not changed its code.\<close>

definition keeps_code :: "'k host \<Rightarrow> (int \<Rightarrow> 'k \<Rightarrow> mem) \<Rightarrow> u64 set \<Rightarrow> int \<Rightarrow> 'k \<Rightarrow> 'k \<Rightarrow> bool" where
  "keeps_code H mem_of code p k k' \<longleftrightarrow>
     (alive H p k' \<longrightarrow> alive H p k \<and> (\<forall>x\<in>code. mem_of p k' x = mem_of p k x))"

lemma keeps_code_refl [simp]: "keeps_code H mem_of code p k k"
  by (simp add: keeps_code_def)

text \<open>
  What is assumed of the program and of \<open>fork\<close>, \<open>waitpid\<close> and the requests that run the
  process: the code is not written by the program (it is mapped read-only), a stopped or
  ended process stays so until it is resumed, \<open>fork\<close> fails with \<open>-1\<close>, and a child that
  executes \<open>prog\<close> and can be traced was waited for and has the code of \<open>img\<close>.
\<close>

locale traced_program = ptrace_host H mem_of
  for H :: "'k host" and mem_of :: "int \<Rightarrow> 'k \<Rightarrow> mem" +
  fixes prog :: string and code :: "u64 set" and img :: mem
  assumes step_code: "h_singlestep H p k = (b, k1) \<Longrightarrow> h_waitpid H p k1 = (w, k2) \<Longrightarrow>
      keeps_code H mem_of code p k k2"
    and no_step_code: "h_singlestep H p k = (False, k1) \<Longrightarrow> keeps_code H mem_of code p k k1"
    and cont_code: "h_waitpid H p (h_cont H p k) = (w, k2) \<Longrightarrow> keeps_code H mem_of code p k k2"
    and wait_code: "h_waitpid H p k = (Waited st, k1) \<Longrightarrow> h_waitpid H p k1 = (w, k2) \<Longrightarrow>
      keeps_code H mem_of code p k1 k2"
    and setoptions_code: "keeps_code H mem_of code p k (h_setoptions H p k)"
    and setregs_alive: "alive H p (snd (h_setregs H p r k)) \<Longrightarrow> alive H p k"
    and fork_fails: "h_fork H child k = (p, k1) \<Longrightarrow> p < 0 \<Longrightarrow> p = - 1"
    and fork_code: "h_fork H child k = (p, k1) \<Longrightarrow> child True True = Exec prog \<Longrightarrow> 0 \<le> p \<Longrightarrow>
      h_waitpid H p k1 = (w, k2) \<Longrightarrow> alive H p k2 \<Longrightarrow>
      (\<exists>st. w = Waited st) \<and> (\<forall>x\<in>code. mem_of p k2 x = img x)"

locale breakable = traced_program H mem_of prog code img
  for H :: "'k host" and mem_of :: "int \<Rightarrow> 'k \<Rightarrow> mem" and prog code img +
  fixes sites :: "u64 set"
  assumes site_code: "a \<in> sites \<Longrightarrow> j < 8 \<Longrightarrow> a + of_nat j \<in> code"
    and site_mapped: "a \<in> sites \<Longrightarrow> mapped_word img a"
    and site_clean: "a \<in> sites \<Longrightarrow> img a \<noteq> Some 0xcc"
    and site_apart: "a \<in> sites \<Longrightarrow> b \<in> sites \<Longrightarrow> a \<noteq> b \<Longrightarrow> \<not> b - a < 8"

subsection \<open>The invariant\<close>

abbreviation addr_at :: "'k sys \<Rightarrow> nat \<Rightarrow> u64" where
  "addr_at s i \<equiv> bp_addr (breaks (sdb s) ! i)"

text \<open>The entries in use, and the part of the invariant about the table alone.\<close>

definition entries :: "'k sys \<Rightarrow> nat set" where
  "entries s = {i. i < MAX_BREAK \<and> used_at s i}"

definition sited :: "string \<Rightarrow> u64 set \<Rightarrow> 'k sys \<Rightarrow> bool" where
  "sited prog sites s \<longleftrightarrow> wf_sdb (sdb s) \<and> path (sdb s) = prog \<and> fixed_address s \<and>
     addr_at s ` entries s \<subseteq> sites \<and> inj_on (addr_at s) (entries s)"

text \<open>
  The process: breakpoint instructions at \<open>A\<close> and nothing else changed, and the words of
  the entries in \<open>S\<close> saved, among them all whose breakpoint is planted.
\<close>

definition intact :: "(int \<Rightarrow> 'k \<Rightarrow> mem) \<Rightarrow> u64 set \<Rightarrow> mem \<Rightarrow> u64 set \<Rightarrow> nat set \<Rightarrow> 'k sys \<Rightarrow> bool" where
  "intact mem_of code img A S s \<longleftrightarrow> A \<subseteq> addr_at s ` (entries s \<inter> S) \<and>
     (\<forall>x\<in>code. mem_of (pid (sdb s)) (os s) x = with_int3 A img x) \<and>
     (\<forall>i\<in>entries s \<inter> S. read_word img (addr_at s i) = Some (original_word (breaks (sdb s) ! i)))"

definition careful ::
  "'k host \<Rightarrow> (int \<Rightarrow> 'k \<Rightarrow> mem) \<Rightarrow> string \<Rightarrow> u64 set \<Rightarrow> mem \<Rightarrow> u64 set \<Rightarrow> nat set \<Rightarrow> 'k sys \<Rightarrow> bool" where
  "careful H mem_of prog code img sites S s \<longleftrightarrow> sited prog sites s \<and>
     (sdb_is_running (sdb s) \<and> alive H (pid (sdb s)) (os s) \<longrightarrow> (\<exists>A. intact mem_of code img A S s))"

lemma entries_simps [simp]: "entries (s\<lparr>os := k\<rparr>) = entries s" "entries (emit ev s) = entries s"
  by (simp_all add: entries_def used_at_def)

lemma entries_cong: "breaks (sdb t) = breaks (sdb s) \<Longrightarrow> entries t = entries s"
  by (simp add: entries_def used_at_def)

lemma sited_cong:
  "breaks (sdb t) = breaks (sdb s) \<Longrightarrow> path (sdb t) = path (sdb s) \<Longrightarrow> eh (sdb t) = eh (sdb s) \<Longrightarrow>
     sited prog sites t = sited prog sites s"
  using entries_cong [of t s] by (simp add: sited_def wf_sdb_def fixed_address_def)

lemma careful_cong:
  "breaks (sdb t) = breaks (sdb s) \<Longrightarrow> path (sdb t) = path (sdb s) \<Longrightarrow> eh (sdb t) = eh (sdb s) \<Longrightarrow>
     pid (sdb t) = pid (sdb s) \<Longrightarrow> os t = os s \<Longrightarrow>
     careful H mem_of prog code img sites S t = careful H mem_of prog code img sites S s"
  using sited_cong [of t s] entries_cong [of t s] by (simp add: careful_def intact_def sdb_is_running_def)

lemma careful_emit [simp]:
  "careful H mem_of prog code img sites S (emit ev s) = careful H mem_of prog code img sites S s"
  by (rule careful_cong) simp_all

text \<open>Only the entries in use matter.\<close>

lemma careful_entries:
  assumes "careful H mem_of prog code img sites S s" "entries s \<inter> T = entries s \<inter> S"
  shows "careful H mem_of prog code img sites T s"
  using assms by (simp add: careful_def intact_def)

lemma careful_os:
  assumes "careful H mem_of prog code img sites S s" "keeps_code H mem_of code (pid (sdb s)) (os s) k"
  shows "careful H mem_of prog code img sites S (s\<lparr>os := k\<rparr>)"
  using assms sited_cong [of "s\<lparr>os := k\<rparr>" s prog sites]
  by (fastforce simp: careful_def intact_def keeps_code_def)

text \<open>What only prints or remembers an address.\<close>

definition looks :: "'k sys \<Rightarrow> 'k sys \<Rightarrow> bool" where
  "looks s t \<longleftrightarrow> breaks (sdb t) = breaks (sdb s) \<and> path (sdb t) = path (sdb s) \<and> eh (sdb t) = eh (sdb s) \<and>
     pid (sdb t) = pid (sdb s) \<and> os t = os s"

lemma sited_fixed: "sited prog sites s \<Longrightarrow> live_addr H s a = Inr a"
  by (auto simp: sited_def fixed_address_def live_addr_def)

lemma sited_site: "sited prog sites s \<Longrightarrow> i \<in> entries s \<Longrightarrow> addr_at s i \<in> sites"
  by (auto simp: sited_def)

lemma intact_sites: "sited prog sites s \<Longrightarrow> intact mem_of code img A S s \<Longrightarrow> A \<subseteq> sites"
  unfolding sited_def intact_def by blast

lemma write_word_at: "m x = m' x \<Longrightarrow> write_word m a w x = write_word m' a w x"
  by (simp add: write_word_def)

lemma delete_line:
  assumes "i < 2 ^ 31"
  shows "main_step V (table_line (Del_Bp i)) m =
    Some (Inr (Next \<lparr>command = Some ''delete'', dbg = sdb_delete (host_of V) (int i) (printf ''sdb> '' (dbg m))\<rparr>))"
proof -
  have "scan_command (table_line (Del_Bp i)) (command m) = Inr (''delete'', CHR '' '' # show_d (int i) @ newline)"
    using scan_line(1) [OF table_words(2), of "show_d (int i) @ newline"] by (simp add: table_line_def)
  then show ?thesis
    using assms by (simp add: main_step_def table_dispatch run_delete_def scan_d_line)
qed

subsection \<open>Careful sessions\<close>

text \<open>The address that a \<open>break\<close> with these arguments sets.\<close>

definition break_address :: "string \<Rightarrow> u64 option" where
  "break_address rest =
     (case scan_word 16 rest of
        Inr (Some w, _) \<Rightarrow> (case skip_0x w of Inr str \<Rightarrow> scan_llx str | Inl _ \<Rightarrow> None)
      | _ \<Rightarrow> None)"

text \<open>
  What a careful user types: no \<open>load\<close>, and breakpoints only at sites where none is set.  A
  session is a sequence of such lines.
\<close>

definition careful_command :: "u64 set \<Rightarrow> string \<Rightarrow> string \<Rightarrow> 'k sys \<Rightarrow> bool" where
  "careful_command sites c rest s \<longleftrightarrow> c \<noteq> ''load'' \<and>
     (c = ''break'' \<or> c = ''b'' \<longrightarrow> (case break_address rest of
        None \<Rightarrow> True | Some a \<Rightarrow> a \<in> sites \<and> a \<notin> addr_at s ` entries s))"

lemma careful_command_emit [simp]: "careful_command sites c rest (emit ev s) = careful_command sites c rest s"
  by (cases "break_address rest") (simp_all add: careful_command_def)

definition careful_line :: "u64 set \<Rightarrow> string \<Rightarrow> 'k session \<Rightarrow> bool" where
  "careful_line sites line m \<longleftrightarrow>
     (case scan_command line (command m) of
        Inl _ \<Rightarrow> True | Inr (c, rest) \<Rightarrow> careful_command sites c rest (dbg m))"

inductive careful_session :: "'k env \<Rightarrow> u64 set \<Rightarrow> 'k session \<Rightarrow> 'k session \<Rightarrow> bool"
  for V :: "'k env" and sites :: "u64 set" and m :: "'k session" where
  Begin: "careful_session V sites m m"
| Line: "careful_session V sites m m' \<Longrightarrow> careful_line sites line m' \<Longrightarrow>
    main_step V line m' = Some (Inr (Next m'')) \<Longrightarrow> careful_session V sites m m''"

inductive_cases careful_sessionE: "careful_session V sites m m'"

context breakable
begin

lemma window:
  assumes "\<forall>x\<in>code. mem x = with_int3 A img x" "a \<in> sites"
  shows "mapped_word mem a" "read_word mem a = read_word (with_int3 A img) a"
proof -
  have w: "mem (a + of_nat j) = with_int3 A img (a + of_nat j)" if "j < 8" for j
    using assms site_code that by blast
  then show r: "read_word mem a = read_word (with_int3 A img) a" by (intro read_word_cong)
  show "mapped_word mem a"
    using mapped_with_int3 [OF site_mapped [OF assms(2)], of A] w by (simp add: mapped_word_iff)
qed

lemma apart:
  assumes "A \<subseteq> sites" "a \<in> sites" "0 < j" "j < 8"
  shows "a + of_nat j \<notin> A"
proof
  assume "a + of_nat j \<in> A"
  moreover have "a + of_nat j - a < 8" using assms(4) offset_lt8_iff [of "a + of_nat j" a] by blast
  moreover have "a \<noteq> a + of_nat j" using unat_of_nat_small [OF assms(4)] assms(3) by auto
  ultimately show False using assms(1,2) site_apart by blast
qed

text \<open>The word at a site: its low byte says whether the breakpoint is planted.\<close>

lemma site_word:
  assumes "\<forall>x\<in>code. mem_of p k x = with_int3 A img x" "A \<subseteq> sites" "a \<in> sites"
  shows "peek_value H p a k AND 0xff = 0xcc \<longleftrightarrow> a \<in> A"
    "a \<notin> A \<Longrightarrow> read_word img a = Some (peek_value H p a k)"
    "read_word (with_int3 A img) a = Some (peek_value H p a k)"
proof -
  have "read_word (mem_of p k) a = Some (peek_value H p a k)"
    using peek_value_mapped window(1) [OF assms(1,3)] by blast
  then show w: "read_word (with_int3 A img) a = Some (peek_value H p a k)"
    using window(2) [OF assms(1,3)] by simp
  then have "with_int3 A img a = Some (byte_at (peek_value H p a k) 0)" by (rule read_word_byte)
  then show "peek_value H p a k AND 0xff = 0xcc \<longleftrightarrow> a \<in> A"
    using site_clean [OF assms(3)] by (auto simp: low_byte_eq with_int3_def split: if_splits)
  assume a: "a \<notin> A"
  have "a + of_nat j \<notin> A" if "j < 8" for j
    using apart [OF assms(2,3) _ that] a by (cases "j = 0") auto
  then have "read_word (with_int3 A img) a = read_word img a"
    by (intro read_word_cong) (simp add: with_int3_def)
  with w show "read_word img a = Some (peek_value H p a k)" by simp
qed

text \<open>Writing a saved word back takes at most this one breakpoint instruction away.\<close>

lemma restore_intact:
  assumes "sited prog sites s" "intact mem_of code img A S s" "i \<in> entries s" "i \<in> S"
  shows "intact mem_of code img (A - {addr_at s i}) S
    (s\<lparr>os := snd (h_poke H (pid (sdb s)) (addr_at s i) (original_word (breaks (sdb s) ! i)) (os s))\<rparr>)"
proof -
  let ?a = "addr_at s i" and ?w = "original_word (breaks (sdb s) ! i)" and ?mem = "mem_of (pid (sdb s)) (os s)"
  have site: "?a \<in> sites" by (rule sited_site [OF assms(1,3)])
  have A: "A \<subseteq> sites" by (rule intact_sites [OF assms(1,2)])
  have code: "\<forall>x\<in>code. ?mem x = with_int3 A img x" and w: "read_word img ?a = Some ?w"
    using assms(2-4) by (auto simp: intact_def)
  have "write_word (with_int3 A img) ?a ?w = with_int3 (A - {?a}) img"
    by (rule with_int3_remove [OF apart [OF A site] w])
  then have "\<forall>x\<in>code. write_word ?mem ?a ?w x = with_int3 (A - {?a}) img x"
    using write_word_at [of ?mem _ "with_int3 A img"] code by metis
  then show ?thesis using assms(2) window(1) [OF code site] by (auto simp: intact_def poke_mem)
qed

abbreviation ok :: "nat set \<Rightarrow> 'k sys \<Rightarrow> bool" where
  "ok \<equiv> careful H mem_of prog code img sites"

lemma okI:
  assumes "sited prog sites s"
    and "sdb_is_running (sdb s) \<Longrightarrow> alive H (pid (sdb s)) (os s) \<Longrightarrow> \<exists>A. intact mem_of code img A S s"
  shows "ok S s"
  using assms by (simp add: careful_def)

lemma poke_alive: "alive H p (snd (h_poke H p a w k)) \<longleftrightarrow> alive H p k"
  by (simp add: alive_def poke_regs)

subsection \<open>Planting\<close>

lemma plant_intact:
  assumes "sited prog sites s" "intact mem_of code img A S s" "i \<in> entries s"
  shows "\<exists>t A'. plant_word H i (addr_at s i) s = Inr (Next t) \<and> intact mem_of code img A' (insert i S) t"
proof -
  let ?a = "addr_at s i" and ?p = "pid (sdb s)"
  let ?w = "peek_value H ?p ?a (os s)"
  have site: "?a \<in> sites" by (rule sited_site [OF assms(1,3)])
  have A: "A \<subseteq> sites" by (rule intact_sites [OF assms(1,2)])
  have code: "\<forall>x\<in>code. mem_of ?p (os s) x = with_int3 A img x" using assms(2) by (simp add: intact_def)
  note word = site_word [OF code A site]
  show ?thesis
  proof (cases "?a \<in> A")
    case True
    then obtain k where "k \<in> entries s \<inter> S" "addr_at s k = ?a" using assms(2) by (auto simp: intact_def)
    then have "i \<in> S" using assms(1,3) by (auto simp: sited_def inj_on_def)
    then have "insert i S = S" by blast
    moreover have "plant_word H i ?a s = Inr (Next s)" using True word(1) by (simp add: plant_word_def)
    ultimately show ?thesis using assms(2) by metis
  next
    case False
    define s1 where "s1 = set_bp i (\<lambda>b. b\<lparr>original_word := ?w\<rparr>) s"
    define t where "t = s1\<lparr>os := snd (h_poke H ?p ?a (set_low_byte ?w) (os s))\<rparr>"
    have mapped: "mapped_word (mem_of ?p (os s)) ?a" by (rule window(1) [OF code site])
    have run: "plant_word H i ?a s = Inr (Next t)"
      using False word(1) mapped by (simp add: plant_word_def Let_def split_beta poke_ok t_def s1_def set_low_byte_def)
    have i: "i < length (breaks (sdb s))" "i < MAX_BREAK"
      using assms(1,3) by (auto simp: sited_def wf_sdb_def entries_def)
    have b: "breaks (sdb t) ! k = (if k = i then (breaks (sdb s) ! i)\<lparr>original_word := ?w\<rparr> else breaks (sdb s) ! k)" for k
      using i(1) by (simp add: t_def s1_def nth_list_update)
    have e: "entries t = entries s" "addr_at t = addr_at s" by (auto simp: entries_def used_at_def b)
    have "write_word (with_int3 A img) ?a (set_low_byte ?w) = with_int3 (insert ?a A) img"
      unfolding with_int3_insert by (rule write_set_low [OF word(3)])
    then have "\<forall>x\<in>code. write_word (mem_of ?p (os s)) ?a (set_low_byte ?w) x = with_int3 (insert ?a A) img x"
      using write_word_at [of "mem_of ?p (os s)" _ "with_int3 A img"] code by metis
    then have "\<forall>x\<in>code. mem_of (pid (sdb t)) (os t) x = with_int3 (insert ?a A) img x"
      using mapped by (simp add: t_def s1_def poke_mem)
    moreover have "insert ?a A \<subseteq> addr_at t ` (entries t \<inter> insert i S)"
      using assms(2,3) unfolding e by (auto simp: intact_def)
    moreover have "\<forall>k\<in>entries t \<inter> insert i S. read_word img (addr_at t k) = Some (original_word (breaks (sdb t) ! k))"
      using assms(2) word(2) [OF False] unfolding e by (auto simp: intact_def b)
    ultimately have "intact mem_of code img (insert ?a A) (insert i S) t" unfolding intact_def by blast
    with run show ?thesis by blast
  qed
qed

lemma same_table_sited:
  assumes "same_table (sdb s) (sdb t)" "sited prog sites s"
  shows "sited prog sites t" "entries t = entries s" "\<And>i. i \<in> entries s \<Longrightarrow> addr_at t i = addr_at s i"
proof -
  have b: "is_used (breaks (sdb t) ! i) = is_used (breaks (sdb s) ! i)"
      "bp_addr (breaks (sdb t) ! i) = bp_addr (breaks (sdb s) ! i)" if "i < MAX_BREAK" for i
    using assms that by (auto simp: same_table_def same_bp_def sited_def wf_sdb_def list_all2_conv_all_nth)
  then show e: "entries t = entries s" by (auto simp: entries_def used_at_def)
  show a: "addr_at t i = addr_at s i" if "i \<in> entries s" for i using that b by (simp add: entries_def)
  have "addr_at t ` entries s = addr_at s ` entries s" "inj_on (addr_at t) (entries s) = inj_on (addr_at s) (entries s)"
    using a by (auto cong: image_cong inj_on_cong)
  then show "sited prog sites t"
    using assms same_table_wf [OF assms(1)] by (simp add: sited_def e fixed_address_def same_table_def)
qed

lemma step_over_ok: "ok S s \<Longrightarrow> step_over H s = Inr t \<Longrightarrow> ok S t"
proof -
  assume s: "ok S s" and t: "step_over H s = Inr t"
  obtain b k1 w k2 where k: "h_singlestep H (pid (sdb s)) (os s) = (b, k1)" "h_waitpid H (pid (sdb s)) k1 = (w, k2)"
    by fastforce
  have "keeps_code H mem_of code (pid (sdb s)) (os s) k2"
    by (rule step_code [OF k])
  then have "ok S (s\<lparr>os := k2\<rparr>)" by (rule careful_os [OF s])
  then show "ok S t" using t k by (auto simp: step_over_def split: wait_result.splits)
qed

lemma plant_ok:
  assumes "ok S s" "i \<in> entries s" "plant_word H i (addr_at s i) s = Inr r"
  shows "ok (insert i S) (flow_state r)" "r = Return t \<Longrightarrow> ok UNIV t"
proof -
  have sited: "sited prog sites s" using assms(1) by (simp add: careful_def)
  have st: "same_table (sdb s) (sdb (flow_state r))" by (rule plant_word_same_table [OF assms(3)])
  have sited': "sited prog sites (flow_state r)" by (rule same_table_sited(1) [OF st sited])
  have cause: "\<exists>t A'. r = Next t \<and> intact mem_of code img A' (insert i S) t"
    if live: "sdb_is_running (sdb (flow_state r))" "alive H (pid (sdb (flow_state r))) (os (flow_state r))"
  proof -
    have "pid (sdb (flow_state r)) = pid (sdb s)" using st by (simp add: same_table_def)
    moreover have "alive H p (os (flow_state r)) \<longleftrightarrow> alive H p (os s)" for p
      using assms(3) by (auto simp: plant_word_def Let_def split_beta alive_def poke_regs split: if_splits)
    ultimately obtain A where "intact mem_of code img A S s"
      using live assms(1) by (auto simp: careful_def sdb_is_running_def)
    from plant_intact [OF sited this assms(2)] assms(3) show ?thesis by auto
  qed
  show "ok (insert i S) (flow_state r)" using cause by (intro okI [OF sited']) auto
  show "ok UNIV t" if "r = Return t" using cause that sited' by (intro okI) auto
qed

lemma patch_bp_ok:
  assumes "ok S s" "i < MAX_BREAK" "patch_bp H i s = Inr r"
  shows "ok (insert i S) (flow_state r)" "r = Return t \<Longrightarrow> ok UNIV t"
proof -
  have sited: "sited prog sites s" using assms(1) by (simp add: careful_def)
  have both: "ok (insert i S) (flow_state r) \<and> (\<forall>t. r = Return t \<longrightarrow> ok UNIV t)"
  proof (cases "i \<in> entries s")
    case False
    then have "r = Next s"
      using assms(2,3) sited by (auto simp: patch_bp_def entries_def used_at_def sited_def wf_sdb_def)
    moreover have "ok (insert i S) s" using assms(1) False by (auto intro: careful_entries)
    ultimately show ?thesis by simp
  next
    case True
    then obtain s1 where s1: "s1 = s \<or> step_over H s = Inr s1" "plant_word H i (addr_at s i) s1 = Inr r"
      using assms(3) sited_fixed [OF sited, of H]
      by (auto simp: patch_bp_def thenR_eq_Inr index_at_eq_Inr entries_def used_at_def split: if_splits)
    then have same: "sdb s1 = sdb s" using step_over_sdb by blast
    have "ok S s1" using s1(1) step_over_ok [OF assms(1)] assms(1) by blast
    moreover have "i \<in> entries s1" using True same entries_cong [of s1 s] by simp
    ultimately show ?thesis using plant_ok [of S s1 i r] s1(2) same by auto
  qed
  show "ok (insert i S) (flow_state r)" using both by simp
  show "ok UNIV t" if "r = Return t" using both that by simp
qed

text \<open>Planting saves what was not saved.\<close>

lemma patch_all_ok:
  assumes "ok S s" "sdb_patch_all_bp H s = Inr t"
  shows "ok UNIV t"
proof -
  obtain r where r: "for_upto (patch_bp H) 0 MAX_BREAK s = Inr r" "t = flow_state r"
    using assms(2) by (auto simp: sdb_patch_all_bp_def thenR_eq_Inr)
  have "ok (S \<union> {..<0 + MAX_BREAK}) (flow_state r)"
  proof (rule for_upto_indexed [OF r(1), of "\<lambda>n. ok (S \<union> {..<n})"])
    show "ok (S \<union> {..<0}) s" using assms(1) by simp
    fix j u v assume j: "j < 0 + MAX_BREAK" "ok (S \<union> {..<j}) u"
    show "ok (S \<union> {..<Suc j}) v" if "patch_bp H j u = Inr (Next v)"
      using patch_bp_ok(1) [OF j(2) _ that] j(1) by (simp add: lessThan_Suc)
    show "ok (S \<union> {..<0 + MAX_BREAK}) v" if "patch_bp H j u = Inr (Return v)"
      using patch_bp_ok(2) [OF j(2) _ that] j(1) by (auto intro: careful_entries simp: entries_def)
  qed
  then show ?thesis unfolding r(2) by (rule careful_entries) (auto simp: entries_def)
qed

subsection \<open>Taking breakpoints out\<close>

lemma restore_ok:
  assumes "ok UNIV s" "i \<in> entries s"
  shows "ok UNIV (s\<lparr>os := snd (h_poke H (pid (sdb s)) (addr_at s i) (original_word (breaks (sdb s) ! i)) (os s))\<rparr>)"
proof (rule okI)
  have sited: "sited prog sites s" using assms(1) by (simp add: careful_def)
  then show "sited prog sites (s\<lparr>os := k\<rparr>)" for k using sited_cong [of "s\<lparr>os := k\<rparr>" s] by simp
  assume "sdb_is_running (sdb (s\<lparr>os := snd (h_poke H (pid (sdb s)) (addr_at s i) (original_word (breaks (sdb s) ! i)) (os s))\<rparr>))"
    and "alive H (pid (sdb (s\<lparr>os := snd (h_poke H (pid (sdb s)) (addr_at s i) (original_word (breaks (sdb s) ! i)) (os s))\<rparr>)))
      (os (s\<lparr>os := snd (h_poke H (pid (sdb s)) (addr_at s i) (original_word (breaks (sdb s) ! i)) (os s))\<rparr>))"
  then obtain A where "intact mem_of code img A UNIV s" using assms(1) by (auto simp: careful_def poke_alive)
  from restore_intact [OF sited this assms(2)]
  show "\<exists>A. intact mem_of code img A UNIV
      (s\<lparr>os := snd (h_poke H (pid (sdb s)) (addr_at s i) (original_word (breaks (sdb s) ! i)) (os s))\<rparr>)" by blast
qed

lemma restore_bp_ok:
  assumes "ok UNIV s" "restore_bp H i s = Inr r" "i < MAX_BREAK"
  shows "ok UNIV (flow_state r)"
proof (cases "i \<in> entries s")
  case True
  from restore_ok [OF assms(1) this] assms(1,2) show ?thesis
    by (auto simp: restore_bp_def thenR_eq_Inr index_at_eq_Inr Let_def split_beta split: if_splits)
next
  case False
  with assms show ?thesis
    by (auto simp: restore_bp_def thenR_eq_Inr index_at_eq_Inr entries_def used_at_def)
qed

text \<open>Freeing an entry whose breakpoint is not planted.\<close>

lemma freed:
  assumes "sited prog sites s" "i < MAX_BREAK"
  defines "t \<equiv> set_bp i (\<lambda>b. b\<lparr>is_used := False\<rparr>) s"
  shows "sited prog sites t" "intact mem_of code img A UNIV s \<Longrightarrow> addr_at s i \<notin> A \<Longrightarrow> intact mem_of code img A UNIV t"
proof -
  have i: "i < length (breaks (sdb s))" using assms(1,2) by (simp add: sited_def wf_sdb_def)
  have b: "breaks (sdb t) ! k = (if k = i then (breaks (sdb s) ! i)\<lparr>is_used := False\<rparr> else breaks (sdb s) ! k)" for k
    using i by (simp add: t_def nth_list_update)
  have e: "entries t = entries s - {i}" and addr: "\<And>k. addr_at t k = addr_at s k"
    and word: "\<And>k. original_word (breaks (sdb t) ! k) = original_word (breaks (sdb s) ! k)"
    by (auto simp: entries_def used_at_def b)
  have same: "pid (sdb t) = pid (sdb s)" "os t = os s" "path (sdb t) = path (sdb s)" "eh (sdb t) = eh (sdb s)"
    "length (breaks (sdb t)) = length (breaks (sdb s))"
    by (simp_all add: t_def)
  have "addr_at s ` (entries s - {i}) \<subseteq> sites" "inj_on (addr_at s) (entries s - {i})"
    using assms(1) by (auto simp: sited_def intro: inj_on_subset)
  then show "sited prog sites t"
    using assms(1) by (simp add: sited_def wf_sdb_def fixed_address_def same e addr)
  show "intact mem_of code img A UNIV t" if A: "intact mem_of code img A UNIV s" "addr_at s i \<notin> A"
  proof -
    have "A \<subseteq> addr_at s ` (entries s - {i})" using A unfolding intact_def by blast
    with A(1) show ?thesis by (simp add: intact_def same e addr word)
  qed
qed

lemma delete_ok:
  assumes "ok UNIV s"
  shows "ok UNIV (sdb_delete H index s)"
proof (cases "0 \<le> index \<and> index < int MAX_BREAK \<and> is_used (breaks (sdb s) ! nat index)")
  case False
  then have "sdb_delete H index s = s" unfolding sdb_delete_def by (simp only: if_False)
  with assms show ?thesis by simp
next
  case True
  define i where "i = nat index"
  define a where "a = addr_at s i"
  define s1 where "s1 = (if peek_value H (pid (sdb s)) a (os s) AND 0xff = 0xcc
      then s\<lparr>os := snd (h_poke H (pid (sdb s)) a (original_word (breaks (sdb s) ! i)) (os s))\<rparr> else s)"
  have i: "i < MAX_BREAK" "i \<in> entries s" using True by (auto simp: i_def entries_def used_at_def)
  have d: "sdb_delete H index s = printf (''** breakpoint '' @ show_d index @ '' deleted.'' @ newline)
      (set_bp i (\<lambda>b. b\<lparr>is_used := False\<rparr>) s1)"
    using True unfolding sdb_delete_def by (simp add: Let_def s1_def a_def i_def)
  have sited: "sited prog sites s" using assms by (simp add: careful_def)
  have s1: "sdb s1 = sdb s" by (simp add: s1_def)
  then have sited1: "sited prog sites s1" using sited sited_cong [of s1 s] by simp
  have "ok UNIV (set_bp i (\<lambda>b. b\<lparr>is_used := False\<rparr>) s1)"
  proof (rule okI [OF freed(1) [OF sited1 i(1)]])
    assume "sdb_is_running (sdb (set_bp i (\<lambda>b. b\<lparr>is_used := False\<rparr>) s1))"
      "alive H (pid (sdb (set_bp i (\<lambda>b. b\<lparr>is_used := False\<rparr>) s1))) (os (set_bp i (\<lambda>b. b\<lparr>is_used := False\<rparr>) s1))"
    then have "sdb_is_running (sdb s)" "alive H (pid (sdb s)) (os s)"
      by (auto simp: s1_def sdb_is_running_def poke_alive split: if_splits)
    then obtain A where A: "intact mem_of code img A UNIV s" using assms by (auto simp: careful_def)
    have code: "\<forall>x\<in>code. mem_of (pid (sdb s)) (os s) x = with_int3 A img x" using A by (simp add: intact_def)
    note word = site_word(1) [OF code intact_sites [OF sited A] sited_site [OF sited i(2)]]
    have "intact mem_of code img (A - {a}) UNIV s1"
    proof (cases "a \<in> A")
      case True
      with restore_intact [OF sited A i(2)] word show ?thesis by (simp add: s1_def a_def)
    next
      case False
      with A word show ?thesis by (simp add: s1_def a_def)
    qed
    then have "intact mem_of code img (A - {a}) UNIV (set_bp i (\<lambda>b. b\<lparr>is_used := False\<rparr>) s1)"
      by (rule freed(2) [OF sited1 i(1)]) (simp add: a_def s1)
    then show "\<exists>A. intact mem_of code img A UNIV (set_bp i (\<lambda>b. b\<lparr>is_used := False\<rparr>) s1)" by blast
  qed
  then show ?thesis unfolding d by simp
qed

subsection \<open>Setting a breakpoint\<close>

lemma grown_ok:
  assumes "ok UNIV s" "first_free (breaks (sdb s)) = Some i" "a \<in> sites" "a \<notin> addr_at s ` entries s"
  shows "ok (UNIV - {i}) (set_bp i (\<lambda>b. b\<lparr>is_used := True, bp_addr := a\<rparr>) s)"
proof -
  define t where "t = set_bp i (\<lambda>b. b\<lparr>is_used := True, bp_addr := a\<rparr>) s"
  have sited: "sited prog sites s" using assms(1) by (simp add: careful_def)
  have i: "i < MAX_BREAK" "i \<notin> entries s" using first_free_Some [OF assms(2)] by (simp_all add: entries_def used_at_def)
  then have b: "breaks (sdb t) ! k = (if k = i then (breaks (sdb s) ! i)\<lparr>is_used := True, bp_addr := a\<rparr> else breaks (sdb s) ! k)" for k
    using sited by (simp add: t_def nth_list_update sited_def wf_sdb_def)
  have e: "entries t = insert i (entries s)" using i(1) by (auto simp: entries_def used_at_def b)
  have addr: "addr_at t i = a" "\<And>k. k \<in> entries s \<Longrightarrow> addr_at t k = addr_at s k" using i(2) by (auto simp: b)
  have same: "pid (sdb t) = pid (sdb s)" "os t = os s" "path (sdb t) = path (sdb s)" "eh (sdb t) = eh (sdb s)"
    "length (breaks (sdb t)) = length (breaks (sdb s))"
    by (simp_all add: t_def)
  have im: "addr_at t ` entries s = addr_at s ` entries s" using addr(2) by (intro image_cong) auto
  have "inj_on (addr_at t) (entries s)" using sited addr(2) by (simp add: sited_def cong: inj_on_cong)
  then have "sited prog sites t"
    using sited assms(3,4) i(2) by (simp add: sited_def wf_sdb_def fixed_address_def same e im addr(1))
  moreover have "intact mem_of code img A (UNIV - {i}) t" if A: "intact mem_of code img A UNIV s" for A
  proof -
    have "entries t \<inter> (UNIV - {i}) = entries s" using e i(2) by blast
    moreover have "original_word (breaks (sdb t) ! k) = original_word (breaks (sdb s) ! k)" for k by (simp add: b)
    ultimately show ?thesis using A addr(2) im by (simp add: intact_def same)
  qed
  moreover have "sdb_is_running (sdb t) = sdb_is_running (sdb s)" by (simp add: sdb_is_running_def same)
  ultimately have "ok (UNIV - {i}) t" using assms(1) unfolding careful_def same by blast
  then show ?thesis by (simp add: t_def)
qed

lemma set_break_ok:
  assumes "ok UNIV s" "sdb_set_break H str s = Inr t"
    and "\<And>rest a. skip_0x str = Inr rest \<Longrightarrow> scan_llx rest = Some a \<Longrightarrow> a \<in> sites \<and> a \<notin> addr_at s ` entries s"
  shows "ok UNIV t"
proof (cases "sdb_is_loaded (sdb s)")
  case False
  with assms(1,2) show ?thesis by (auto simp: sdb_set_break_def)
next
  case True
  then obtain rest a i where r: "skip_0x str = Inr rest" "scan_llx rest = Some a" "first_free (breaks (sdb s)) = Some i"
    and t: "(let s1 = set_bp i (\<lambda>b. b\<lparr>is_used := True, bp_addr := a\<rparr>) s
      in if sdb_is_running (sdb s1) then sdb_patch_all_bp H s1 else Inr s1) = Inr t"
    using assms(2) unfolding sdb_set_break_def by (auto simp: thenR_eq_Inr)
  have grown: "ok (UNIV - {i}) (set_bp i (\<lambda>b. b\<lparr>is_used := True, bp_addr := a\<rparr>) s)"
    using grown_ok [OF assms(1) r(3)] assms(3) [OF r(1,2)] by blast
  show ?thesis
  proof (cases "sdb_is_running (sdb (set_bp i (\<lambda>b. b\<lparr>is_used := True, bp_addr := a\<rparr>) s))")
    case True
    with t patch_all_ok [OF grown] show ?thesis by (simp add: Let_def)
  next
    case False
    with t grown show ?thesis by (auto simp: Let_def careful_def)
  qed
qed

subsection \<open>Running the process\<close>

lemma hit_bp_ok:
  assumes "ok UNIV s" "i \<in> entries s" "hit_bp H i (addr_at s i) regs s = Inr t"
  shows "ok UNIV t"
proof -
  let ?p = "pid (sdb s)"
  let ?k = "snd (h_poke H ?p (addr_at s i) (original_word (breaks (sdb s) ! i)) (os s))"
  let ?k' = "snd (h_setregs H ?p (regs\<lparr>rip := rip regs - 1\<rparr>) ?k)"
  have "keeps_code H mem_of code ?p ?k ?k'"
    using setregs_alive by (auto simp: keeps_code_def setregs_mem)
  then have "ok UNIV (s\<lparr>os := ?k, os := ?k'\<rparr>)"
    using careful_os [OF restore_ok [OF assms(1,2)], of ?k'] by simp
  then show ?thesis
    using hit_bp_state [OF assms(3)] careful_cong [of t "s\<lparr>os := ?k'\<rparr>" H mem_of prog code img sites UNIV] by simp
qed

lemma check_stop_ok:
  assumes "ok UNIV s" "check_stop H s = Inr r"
  shows "ok UNIV (flow_state r)"
proof (rule for_upto_invariant [OF assms(2) [unfolded check_stop_def], of "ok UNIV", OF assms(1)])
  fix j u r
  assume j: "j < 0 + MAX_BREAK" and u: "ok UNIV u" and run: "stop_bp H (h_getregs H (pid (sdb s)) (os s)) j u = Inr r"
  have "live_addr H u a = Inr a" for a using u unfolding careful_def by (blast intro: sited_fixed)
  then show "ok UNIV (flow_state r)"
    using run u j hit_bp_ok [OF u, of j]
    by (auto simp: stop_bp_def thenR_eq_Inr index_at_eq_Inr entries_def used_at_def split: if_splits)
qed

text \<open>The wait loop: all that is known before the first \<open>waitpid\<close> is what its result will be.\<close>

lemma wait_ok:
  assumes "wait_for_break H status s = Some (Inr (e, t))"
    and "\<And>w k. h_waitpid H (pid (sdb s)) (os s) = (w, k) \<Longrightarrow> ok UNIV (s\<lparr>os := k\<rparr>)"
  shows "ok UNIV t"
proof (rule wait_for_break_rule [OF assms(1),
      where I = "\<lambda>s. \<forall>w k. h_waitpid H (pid (sdb s)) (os s) = (w, k) \<longrightarrow> ok UNIV (s\<lparr>os := k\<rparr>)" and Q = "ok UNIV"])
  fix s st k
  assume I: "\<forall>w k. h_waitpid H (pid (sdb s)) (os s) = (w, k) \<longrightarrow> ok UNIV (s\<lparr>os := k\<rparr>)"
    and w: "h_waitpid H (pid (sdb s)) (os s) = (Waited st, k)"
  then have "ok UNIV (s\<lparr>os := k\<rparr>)" by blast
  from careful_os [OF this] wait_code [OF w]
  show "\<forall>w k'. h_waitpid H (pid (sdb (s\<lparr>os := k\<rparr>))) (os (s\<lparr>os := k\<rparr>)) = (w, k') \<longrightarrow> ok UNIV (s\<lparr>os := k, os := k'\<rparr>)"
    by auto
qed (use assms(2) check_stop_ok in fastforce)+

lemma not_running_ok: "sited prog sites s \<Longrightarrow> \<not> sdb_is_running (sdb s) \<Longrightarrow> ok S s"
  by (simp add: careful_def)

lemma resume_ok:
  assumes "ok UNIV s" "resume H status s = Some (Inr t)"
  shows "ok UNIV t"
proof -
  let ?s = "s\<lparr>os := h_cont H (pid (sdb s)) (os s)\<rparr>"
  obtain e u where u: "wait_for_break H status ?s = Some (Inr (e, u))"
    and t: "(case e of Hit \<Rightarrow> Inr u | Gone st \<Rightarrow> report_exit st u) = Inr t"
    using assms(2) by (auto simp: resume_def split: option.splits sum.splits wait_end.splits)
  have "ok UNIV (s\<lparr>os := k\<rparr>)" if "h_waitpid H (pid (sdb ?s)) (os ?s) = (w, k)" for w k
    using careful_os [OF assms(1)] cont_code that by simp
  then have ok: "ok UNIV u" using wait_ok [OF u] by simp
  show ?thesis
  proof (cases e)
    case Hit
    with t ok show ?thesis by simp
  next
    case (Gone st)
    with t have "\<not> sdb_is_running (sdb t)" "breaks (sdb t) = breaks (sdb u)" "path (sdb t) = path (sdb u)"
        "eh (sdb t) = eh (sdb u)"
      by (auto simp: report_exit_def thenR_eq_Inr sdb_is_running_def)
    with ok sited_cong [of t u] show ?thesis by (intro not_running_ok) (auto simp: careful_def)
  qed
qed

lemma cont_ok:
  assumes "ok UNIV s" "sdb_cont H s = Some (Inr t)"
  shows "ok UNIV t"
  using assms(2) resume_ok [OF patch_all_ok [OF assms(1)]] assms(1)
  by (auto simp: sdb_cont_def split: if_splits sum.splits)

subsection \<open>Starting the process\<close>

text \<open>A new process has nothing planted, and nothing is saved for it yet.\<close>

lemma spawn_ok:
  assumes "sited prog sites s" "spawn H s = Inr (st, t)"
  shows "ok {} t" "st = None \<Longrightarrow> ok UNIV t"
proof -
  obtain p k where k: "h_fork H (sdb_child (path (sdb s))) (os s) = (p, k)" by fastforce
  obtain w k2 where k2: "h_waitpid H p k = (w, k2)" by fastforce
  define s1 where "s1 = on_sdb (\<lambda>d. d\<lparr>pid := p\<rparr>) (s\<lparr>os := k\<rparr>)"
  have child: "sdb_child (path (sdb s)) True True = Exec prog" using assms(1) by (simp add: sdb_child_def sited_def)
  have sited: "sited prog sites u" if "sdb u = sdb s1" for u :: "'k sys"
    using assms(1) sited_cong [of u s] that by (simp add: s1_def)
  have all: "ok {} t \<and> (st = None \<longrightarrow> ok UNIV t)"
  proof (cases "p < 0")
    case True
    then have "t = emit (Perror ''Failed to fork'') s1" using assms(2) k by (simp add: spawn_def s1_def)
    moreover have "\<not> sdb_is_running (sdb s1)" using fork_fails [OF k True] by (simp add: s1_def sdb_is_running_def)
    ultimately show ?thesis using sited [of s1] not_running_ok by simp
  next
    case False
    then have p: "0 \<le> p" by simp
    note fresh = fork_code [OF k child p k2]
    show ?thesis
    proof (cases w)
      case (Waited st')
      then have t: "st = Some st'" "t = printf (''** pid '' @ show_d p @ newline) (s1\<lparr>os := h_setoptions H p k2\<rparr>)"
        using assms(2) k k2 False by (simp_all add: spawn_def s1_def Let_def)
      have "ok {} (s1\<lparr>os := h_setoptions H p k2\<rparr>)"
      proof (rule okI)
        assume "alive H (pid (sdb (s1\<lparr>os := h_setoptions H p k2\<rparr>))) (os (s1\<lparr>os := h_setoptions H p k2\<rparr>))"
        then have "\<forall>x\<in>code. mem_of p (h_setoptions H p k2) x = img x"
          using setoptions_code [of p k2] fresh by (simp add: keeps_code_def s1_def)
        then have "intact mem_of code img {} {} (s1\<lparr>os := h_setoptions H p k2\<rparr>)" by (simp add: intact_def s1_def)
        then show "\<exists>A. intact mem_of code img A {} (s1\<lparr>os := h_setoptions H p k2\<rparr>)" by blast
      qed (rule sited, simp)
      then show ?thesis by (simp add: t)
    next
      case Wait_Error
      then have "t = printf (''waitpid failed'' @ newline) (s1\<lparr>os := k2\<rparr>)"
        using assms(2) k k2 False by (simp add: spawn_def s1_def Let_def)
      moreover have "\<not> alive H p k2" using fresh Wait_Error by auto
      then have "ok S (s1\<lparr>os := k2\<rparr>)" for S by (intro okI sited) (simp_all add: s1_def)
      ultimately show ?thesis by simp
    next
      case Wait_Blocks
      then show ?thesis using assms(2) k k2 False by (simp add: spawn_def Let_def)
    qed
  qed
  then show "ok {} t" "st = None \<Longrightarrow> ok UNIV t" by simp_all
qed

lemma start_ok:
  assumes "ok UNIV s" "sdb_start H s = Inr t"
  shows "ok UNIV t"
proof -
  have "sited prog sites s" using assms(1) by (simp add: careful_def)
  note spawn = spawn_ok [OF this]
  show ?thesis
    using assms spawn(2) patch_all_ok [OF spawn(1)]
    by (fastforce simp: sdb_start_def thenR_eq_Inr split: if_splits option.splits)
qed

lemma run_ok:
  assumes "ok UNIV s" "sdb_run H s = Some (Inr t)"
  shows "ok UNIV t"
proof -
  have "sited prog sites s" using assms(1) by (simp add: careful_def)
  note spawn = spawn_ok [OF this]
  consider "t = printf (''No program loaded'' @ newline) s"
    | "spawn H s = Inr (None, t)"
    | st u v where "spawn H s = Inr (Some st, u)" "sdb_patch_all_bp H u = Inr v" "resume H (Some st) v = Some (Inr t)"
    | v where "sdb_patch_all_bp H (printf (''** program '' @ path (sdb s) @ '' is already running.'' @ newline) s) = Inr v"
        "resume H None v = Some (Inr t)"
    using assms(2) by (auto simp: sdb_run_def split: if_splits sum.splits option.splits)
  then show ?thesis
  proof cases
    case 1
    with assms(1) show ?thesis by simp
  next
    case 2
    from spawn(2) [OF this] show ?thesis by simp
  next
    case 3
    from resume_ok [OF patch_all_ok [OF spawn(1) [OF 3(1)] 3(2)] 3(3)] show ?thesis .
  next
    case 4
    from resume_ok [OF patch_all_ok [OF _ 4(1)] 4(2)] assms(1) show ?thesis by simp
  qed
qed

lemma step_ok:
  assumes "ok UNIV s" "sdb_step H s = Inr t"
  shows "ok UNIV t"
proof (cases "sdb_is_running (sdb s)")
  case False
  with assms show ?thesis by (auto simp: sdb_step_def)
next
  case True
  obtain b k1 w k2 where k: "h_singlestep H (pid (sdb s)) (os s) = (b, k1)" "h_waitpid H (pid (sdb s)) k1 = (w, k2)"
    by fastforce
  note ok2 = careful_os [OF assms(1) step_code [OF k]]
  show ?thesis
  proof (cases b)
    case True
    with assms(2) k ok2 \<open>sdb_is_running (sdb s)\<close> show ?thesis
      by (auto simp: sdb_step_def Let_def split: wait_result.splits)
  next
    case False
    then have "ok UNIV (s\<lparr>os := k1\<rparr>)" using careful_os [OF assms(1)] no_step_code k(1) by simp
    with False assms(2) k \<open>sdb_is_running (sdb s)\<close> show ?thesis by (auto simp: sdb_step_def)
  qed
qed

subsection \<open>Looking at the process\<close>

lemma looks_ok: "looks s t \<Longrightarrow> ok S s \<Longrightarrow> ok S t"
  using careful_cong [of t s] by (simp add: looks_def)

lemma disasm_addr_ok: "ok UNIV s \<Longrightarrow> disasm_addr str s = Inr (a, t) \<Longrightarrow> ok UNIV t"
  by (rule looks_ok [of s]) (auto simp: disasm_addr_def Let_def thenR_eq_Inr looks_def split: if_splits)

lemma print_insns_ok: "ok UNIV s \<Longrightarrow> print_insns insns s = Inr t \<Longrightarrow> ok UNIV t"
  by (rule looks_ok [of s]) (auto simp: print_insns_eq looks_def split: if_splits)

lemma disasm_process_ok:
  assumes "ok UNIV s" "disasm_process H a s = Inr (bs, t)"
  shows "ok UNIV t"
proof -
  obtain r where r: "for_upto (restore_bp H) 0 MAX_BREAK s = Inr r" "sdb_patch_all_bp H (flow_state r) = Inr t"
    using assms(2) by (auto simp: disasm_process_def thenR_eq_Inr Let_def)
  have "ok UNIV (flow_state r)"
    by (rule for_upto_invariant [OF r(1), of "ok UNIV", OF assms(1)]) (simp add: restore_bp_ok)
  then show ?thesis using r(2) by (rule patch_all_ok)
qed

lemma disasm_ok:
  assumes "ok UNIV s" "sdb_disasm H str s = Inr t"
  shows "ok UNIV t"
proof -
  obtain a s1 where s1: "disasm_addr str s = Inr (a, s1)"
    and t: "(case a of None \<Rightarrow> Inr s1
       | Some addr \<Rightarrow>
           thenR (if \<not> sdb_is_running (sdb s1) then disasm_file H addr s1 else disasm_process H addr s1)
             (\<lambda>(buffer, s2). case buffer of None \<Rightarrow> Inr s2 | Some bs \<Rightarrow> print_disasm (h_disasm H bs addr) s2)) = Inr t"
    using assms(2) by (auto simp: sdb_disasm_def thenR_eq_Inr simp del: split_paired_Ex)
  have ok1: "ok UNIV s1" by (rule disasm_addr_ok [OF assms(1) s1])
  show ?thesis
  proof (cases a)
    case None
    with t ok1 show ?thesis by simp
  next
    case (Some addr)
    obtain bs s2 where s2: "(if \<not> sdb_is_running (sdb s1) then disasm_file H addr s1 else disasm_process H addr s1) = Inr (bs, s2)"
      and t2: "(case bs of None \<Rightarrow> Inr s2 | Some bs \<Rightarrow> print_disasm (h_disasm H bs addr) s2) = Inr t"
      using t Some by (auto simp: thenR_eq_Inr simp del: split_paired_Ex)
    have "ok UNIV s2"
    proof (cases "sdb_is_running (sdb s1)")
      case True
      with s2 disasm_process_ok [OF ok1] show ?thesis by simp
    next
      case False
      with s2 ok1 show ?thesis by (auto simp: disasm_file_def thenR_eq_Inr split: option.splits)
    qed
    with t2 show ?thesis by (auto simp: print_disasm_def dest: print_insns_ok split: option.splits if_splits)
  qed
qed

lemma dump_ok:
  assumes "ok UNIV s" "sdb_dump H str s = Inr t"
  shows "ok UNIV t"
proof (cases "str = [] \<or> \<not> sdb_is_running (sdb s)")
  case True
  with assms show ?thesis by (auto simp: sdb_dump_def split: if_splits)
next
  case False
  then obtain a bs r where r: "for_upto (dump_row a bs) 0 5 s = Inr r" "t = flow_state r"
    using assms(2) by (auto simp: sdb_dump_def thenR_eq_Inr Let_def)
  show ?thesis unfolding r(2)
    by (rule for_upto_invariant [OF r(1), of "ok UNIV", OF assms(1)]) (auto simp: dump_row_def split: if_splits)
qed

lemma get_ok: "ok UNIV s \<Longrightarrow> sdb_get H n s = Inr (v, t) \<Longrightarrow> ok UNIV t"
  using sdb_get_frame [of H n s v t] by (intro looks_ok [of s t]) (simp_all add: looks_def)

lemma getregs_ok: "ok UNIV s \<Longrightarrow> sdb_getregs H s = Inr t \<Longrightarrow> ok UNIV t"
  using sdb_getregs_frame [of H s t] by (intro looks_ok [of s t]) (simp_all add: looks_def)

lemma set_ok: "ok UNIV s \<Longrightarrow> ok UNIV (sdb_set H raw n v s)"
proof -
  assume s: "ok UNIV s"
  have "keeps_code H mem_of code (pid (sdb s)) (os s) (snd (h_setregs H (pid (sdb s)) regs (os s)))" for regs
    using setregs_alive by (auto simp: keeps_code_def setregs_mem)
  from careful_os [OF s this] show ?thesis
    by (simp add: sdb_set_def split_beta Let_def)
qed

lemma list_ok: "ok UNIV s \<Longrightarrow> ok UNIV (sdb_list s)"
proof -
  have "looks s (fold printf ls s)" for ls and s :: "'k sys"
    by (induction ls arbitrary: s) (auto simp: looks_def)
  then show "ok UNIV s \<Longrightarrow> ok UNIV (sdb_list s)" unfolding sdb_list_def by (rule looks_ok)
qed

lemma all_maps_ok: "ok UNIV s \<Longrightarrow> print_all_maps ls s = Inr t \<Longrightarrow> ok UNIV t"
proof (induction ls s rule: print_all_maps.induct)
  case (2 line lines s)
  then obtain x where "print_all_maps lines (printf x s) = Inr t" by (auto simp: thenR_eq_Inr print_vm_maps_def)
  with 2 show ?case by (metis careful_emit)
qed simp

lemma vmmap_ok: "ok UNIV s \<Longrightarrow> sdb_vmmap H s = Inr t \<Longrightarrow> ok UNIV t"
  by (auto simp: sdb_vmmap_def thenR_eq_Inr dest: all_maps_ok split: if_splits option.splits)

subsection \<open>Command lines\<close>

lemma run_break_ok:
  assumes "ok UNIV s" "careful_command sites ''break'' rest s" "run_break V rest s = Inr t" "host_of V = H"
  shows "ok UNIV t"
proof -
  consider w x where "scan_word 16 rest = Inr (Some w, x)" "sdb_set_break H w s = Inr t"
    | "sdb_set_break H [] s = Inr t" "\<not> sdb_is_loaded (sdb s)"
    using assms(3,4) by (auto simp: run_break_def thenR_eq_Inr split: option.splits if_splits)
  then show ?thesis
  proof cases
    case 1
    then show ?thesis
      using assms(2) by (intro set_break_ok [OF assms(1)]) (auto simp: careful_command_def break_address_def)
  next
    case 2
    with assms(1) show ?thesis by (auto simp: sdb_set_break_def)
  qed
qed

lemma run_args_ok:
  assumes "ok UNIV s" "host_of V = H"
  shows "run_delete V rest s = Inr t \<Longrightarrow> ok UNIV t" "run_disasm V rest s = Inr t \<Longrightarrow> ok UNIV t"
    "run_get V rest s = Inr t \<Longrightarrow> ok UNIV t" "run_set V rest s = Inr t \<Longrightarrow> ok UNIV t"
    "with_word 16 rest (\<lambda>a. sdb_dump H a s) = Inr t \<Longrightarrow> ok UNIV t"
proof -
  show "run_delete V rest s = Inr t \<Longrightarrow> ok UNIV t"
    by (auto simp: run_delete_def thenR_eq_Inr assms(2) intro: delete_ok [OF assms(1)])
  show "run_disasm V rest s = Inr t \<Longrightarrow> ok UNIV t"
    by (auto simp: run_disasm_def thenR_eq_Inr assms(2) intro: disasm_ok [OF assms(1)])
  show "run_get V rest s = Inr t \<Longrightarrow> ok UNIV t"
    by (auto simp: run_get_def with_word_def thenR_eq_Inr assms(2) intro: get_ok [OF assms(1)])
  show "run_set V rest s = Inr t \<Longrightarrow> ok UNIV t"
    by (auto simp: run_set_def thenR_eq_Inr assms(2) intro: set_ok [OF assms(1)])
  show "with_word 16 rest (\<lambda>a. sdb_dump H a s) = Inr t \<Longrightarrow> ok UNIV t"
    by (auto simp: with_word_def thenR_eq_Inr intro: dump_ok [OF assms(1)])
qed

text \<open>As a property of a result, for the branches of the \<open>if\<close> chain.\<close>

definition all_ok :: "'k sys res option \<Rightarrow> bool" where
  "all_ok r \<longleftrightarrow> (\<forall>t. r = Some (Inr t) \<longrightarrow> ok UNIV t)"

lemma all_okI:
  "(\<And>t. r = Some (Inr t) \<Longrightarrow> ok UNIV t) \<Longrightarrow> all_ok r"
  "(\<And>t. r' = Inr t \<Longrightarrow> ok UNIV t) \<Longrightarrow> all_ok (Some r')"
  "ok UNIV t' \<Longrightarrow> all_ok (Some (Inr t'))"
  by (simp_all add: all_ok_def)

lemma all_ok_if: "(P \<Longrightarrow> all_ok a) \<Longrightarrow> all_ok b \<Longrightarrow> all_ok (if P then a else b)"
  by simp

lemma dispatch_ok:
  assumes "ok UNIV s" "careful_command sites c rest s" "host_of V = H"
  shows "all_ok (dispatch V c rest s)"
proof -
  note args = run_args_ok [OF assms(1,3)]
  have brk: "all_ok (Some (run_break V rest s))" if "c = ''break'' \<or> c = ''b''"
    using run_break_ok [OF assms(1) _ _ assms(3)] that assms(2) by (auto simp: all_ok_def careful_command_def)
  have load: "c = ''load'' \<Longrightarrow> P" for P using assms(2) by (simp add: careful_command_def)
  note all = all_okI(2) [OF args(1)] all_okI(2) [OF args(2)] all_okI(2) [OF args(3)] all_okI(2) [OF args(4)]
    all_okI(2) [OF args(5)] all_okI(1) [OF cont_ok [OF assms(1)]] all_okI(1) [OF run_ok [OF assms(1)]]
    all_okI(2) [OF getregs_ok [OF assms(1)]] all_okI(2) [OF vmmap_ok [OF assms(1)]]
    all_okI(2) [OF step_ok [OF assms(1)]] all_okI(2) [OF start_ok [OF assms(1)]]
    all_okI(3) [OF list_ok [OF assms(1)]] all_okI(3) [OF careful_emit [THEN iffD2, OF assms(1)]]
  show ?thesis
    unfolding dispatch_def Let_def assms(3)
    by (intro all_ok_if, erule brk, (rule all; assumption)+, erule load, (rule all; assumption)+)
qed

lemma main_step_ok:
  assumes "ok UNIV (dbg m)" "careful_line sites line m" "main_step V line m = Some (Inr fl)" "host_of V = H"
  shows "ok UNIV (dbg (flow_state fl))"
proof -
  let ?s = "printf ''sdb> '' (dbg m)"
  obtain c rest where c: "scan_command line (command m) = Inr (c, rest)"
    using assms(3) by (auto simp: main_step_def Let_def split: sum.splits)
  show ?thesis
  proof (cases "is_exit c")
    case True
    with assms(1,3) c show ?thesis by (auto simp: main_step_def Let_def)
  next
    case False
    with assms(3) c obtain r where r: "dispatch V c rest ?s = Some r"
      "map_sum id (\<lambda>s'. Next \<lparr>command = Some c, dbg = s'\<rparr>) r = Inr fl"
      by (auto simp: main_step_def Let_def)
    then obtain t where "dispatch V c rest ?s = Some (Inr t)" "fl = Next \<lparr>command = Some c, dbg = t\<rparr>" by (cases r) auto
    moreover have "careful_command sites c rest ?s" using assms(2) c by (simp add: careful_line_def)
    ultimately show ?thesis using dispatch_ok [of ?s c rest V] assms(1,4) by (simp add: all_ok_def)
  qed
qed

lemma session_ok:
  assumes "careful_session V sites m m'" "host_of V = H" "ok UNIV (dbg m)"
  shows "ok UNIV (dbg m')"
  using assms(1)
proof induction
  case (Line m' line m'')
  from main_step_ok [OF Line.IH Line.hyps(2,3) assms(2)] show ?case by simp
qed (rule assms(3))

subsection \<open>Deleting every breakpoint\<close>

lemma delete_regs:
  "h_getregs H q (os (sdb_delete H i s)) = h_getregs H q (os s)" "pid (sdb (sdb_delete H i s)) = pid (sdb s)"
  by (simp_all add: sdb_delete_def Let_def poke_regs)

lemma delete_lines_ok:
  assumes "ok UNIV (dbg m)" "host_of V = H" "\<forall>i\<in>set is. i < 2 ^ 31"
  shows "\<exists>t. main_loop V (map (\<lambda>i. table_line (Del_Bp i)) is) m = Some (Inr (Next t)) \<and> ok UNIV (dbg t) \<and>
    bp_table (sdb (dbg t)) = (\<lambda>k. if k \<in> set is then None else bp_table (sdb (dbg m)) k) \<and>
    pid (sdb (dbg t)) = pid (sdb (dbg m)) \<and> h_getregs H (pid (sdb (dbg m))) (os (dbg t)) = h_getregs H (pid (sdb (dbg m))) (os (dbg m))"
  using assms
proof (induction "is" arbitrary: m)
  case (Cons i "is")
  define m1 where "m1 = \<lparr>command = Some ''delete'', dbg = sdb_delete H (int i) (printf ''sdb> '' (dbg m))\<rparr>"
  have step: "main_step V (table_line (Del_Bp i)) m = Some (Inr (Next m1))"
    using delete_line [of i V m] Cons.prems by (simp add: m1_def)
  have ok1: "ok UNIV (dbg m1)" using delete_ok [of "printf ''sdb> '' (dbg m)"] Cons.prems(1) by (simp add: m1_def)
  have "wf_sdb (sdb (printf ''sdb> '' (dbg m)))" using Cons.prems(1) by (simp add: careful_def sited_def)
  then have tab: "bp_table (sdb (dbg m1)) = (bp_table (sdb (dbg m)))(i := None)"
    using delete_idle [of "printf ''sdb> '' (dbg m)" H i] by (simp add: m1_def)
  have same: "pid (sdb (dbg m1)) = pid (sdb (dbg m))" "h_getregs H q (os (dbg m1)) = h_getregs H q (os (dbg m))" for q
    by (simp_all add: m1_def delete_regs)
  from Cons.IH [OF ok1 Cons.prems(2)] Cons.prems(3) step tab same show ?case
    by (fastforce simp: fun_eq_iff)
qed simp

end

text \<open>The debugger after its start, with or without a program.\<close>

lemma start_sited:
  assumes "main_start V raw args k = Inr m" "fixed_address (dbg m)"
  shows "sited (path (sdb (dbg m))) sites (dbg m) \<and> \<not> sdb_is_running (sdb (dbg m))"
proof -
  have "wf_sdb (sdb (dbg m)) \<and> (\<forall>b\<in>set (breaks (sdb (dbg m))). \<not> is_used b) \<and> \<not> sdb_is_running (sdb (dbg m))"
    using assms(1) sdb_load_cases [of "elf_of V" _ "\<lparr>sdb = sdb_create raw, os = k, out = [], released = []\<rparr>"]
    by (fastforce simp: main_start_def Let_def thenR_eq_Inr load_refused_def load_done_def clear_breaks_def
        sdb_create_def wf_sdb_def sdb_is_running_def split: list.splits)
  moreover from this have "entries (dbg m) = {}" by (fastforce simp: entries_def used_at_def wf_sdb_def)
  ultimately show ?thesis using assms(2) by (simp add: sited_def)
qed

lemma entries_table:
  "wf_sdb (sdb s) \<Longrightarrow> bp_table (sdb s) i = (if i \<in> entries s then Some (addr_at s i) else None)"
  by (simp add: entries_def used_at_def bp_table_def wf_sdb_def)

lemma entries_ran: "wf_sdb (sdb s) \<Longrightarrow> addr_at s ` entries s = ran (bp_table (sdb s))"
  by (auto simp: ran_def entries_table)

text \<open>
  C1: a careful session never damages the program.  Let a session of any lines, \<open>start\<close>,
  \<open>run\<close>, \<open>cont\<close>, \<open>si\<close>, \<open>break\<close>, \<open>delete\<close>, \<open>disasm\<close>, \<open>set\<close> and the others in any order and
  number, begin without a process and be careful.  Whenever the process is there and stopped
  afterwards, its code is the program's own but for \<open>0xcc\<close> at some of the breakpoints in the
  table, and the word saved for every breakpoint in the table is the program's own.
\<close>

theorem careful_sessions:
  assumes "breakable H mem_of prog code img sites" "host_of V = H"
    and "sited prog sites (dbg m)" "\<not> sdb_is_running (sdb (dbg m))" "careful_session V sites m m'"
    and "sdb_is_running (sdb (dbg m'))" "alive H (pid (sdb (dbg m'))) (os (dbg m'))"
  shows "\<exists>A \<subseteq> ran (bp_table (sdb (dbg m'))).
      (\<forall>x\<in>code. mem_of (pid (sdb (dbg m'))) (os (dbg m')) x = with_int3 A img x) \<and>
      (\<forall>i a. bp_table (sdb (dbg m')) i = Some a \<longrightarrow>
         read_word img a = Some (original_word (breaks (sdb (dbg m')) ! i)))"
proof -
  have "careful H mem_of prog code img sites UNIV (dbg m)" using assms(3,4) by (simp add: careful_def)
  from breakable.session_ok [OF assms(1,5,2) this]
  obtain A where wf: "wf_sdb (sdb (dbg m'))" and A: "intact mem_of code img A UNIV (dbg m')"
    using assms(6,7) by (auto simp: careful_def sited_def)
  then have "A \<subseteq> ran (bp_table (sdb (dbg m')))" by (simp add: intact_def entries_ran)
  moreover have "read_word img a = Some (original_word (breaks (sdb (dbg m')) ! i))"
    if "bp_table (sdb (dbg m')) i = Some a" for i a
    using that A wf by (auto simp: intact_def entries_table split: if_splits)
  ultimately show ?thesis using A unfolding intact_def by blast
qed

text \<open>
  C7: deleting everything gives the program back.  At any point of a careful session where
  the process is there and stopped, the lines \<open>delete 0\<close> to \<open>delete 9\<close> run without an error
  and leave an empty table, the registers as they were, and the code of the process exactly
  the program's.
\<close>

theorem delete_all_restores:
  assumes "breakable H mem_of prog code img sites" "host_of V = H"
    and "sited prog sites (dbg m)" "\<not> sdb_is_running (sdb (dbg m))" "careful_session V sites m m'"
    and "sdb_is_running (sdb (dbg m'))" "alive H (pid (sdb (dbg m'))) (os (dbg m'))"
  shows "\<exists>t. main_loop V (map (\<lambda>i. table_line (Del_Bp i)) [0..<MAX_BREAK]) m' = Some (Inr (Next t)) \<and>
      bp_table (sdb (dbg t)) = Map.empty \<and> pid (sdb (dbg t)) = pid (sdb (dbg m')) \<and>
      h_getregs H (pid (sdb (dbg t))) (os (dbg t)) = h_getregs H (pid (sdb (dbg m'))) (os (dbg m')) \<and>
      (\<forall>x\<in>code. mem_of (pid (sdb (dbg t))) (os (dbg t)) x = img x)"
proof -
  have "careful H mem_of prog code img sites UNIV (dbg m)" using assms(3,4) by (simp add: careful_def)
  note ok = breakable.session_ok [OF assms(1,5,2) this]
  have "\<forall>i\<in>set [0..<MAX_BREAK]. i < 2 ^ 31" by (simp add: MAX_BREAK_def)
  from breakable.delete_lines_ok [OF assms(1) ok assms(2) this] obtain t where
    t: "main_loop V (map (\<lambda>i. table_line (Del_Bp i)) [0..<MAX_BREAK]) m' = Some (Inr (Next t))"
      "careful H mem_of prog code img sites UNIV (dbg t)" "pid (sdb (dbg t)) = pid (sdb (dbg m'))"
      "bp_table (sdb (dbg t)) = (\<lambda>k. if k \<in> set [0..<MAX_BREAK] then None else bp_table (sdb (dbg m')) k)"
      "h_getregs H (pid (sdb (dbg m'))) (os (dbg t)) = h_getregs H (pid (sdb (dbg m'))) (os (dbg m'))"
    by blast
  have wf: "wf_sdb (sdb (dbg m'))" "wf_sdb (sdb (dbg t))" using ok t(2) by (simp_all add: careful_def sited_def)
  then have tab: "bp_table (sdb (dbg t)) = Map.empty"
    using t(4) by (auto simp: fun_eq_iff bp_table_def wf_sdb_def)
  obtain A where "intact mem_of code img A UNIV (dbg t)"
    using t(2,3,5) assms(6,7) by (auto simp: careful_def sdb_is_running_def alive_def)
  then have "A \<subseteq> ran (bp_table (sdb (dbg t)))" "\<forall>x\<in>code. mem_of (pid (sdb (dbg t))) (os (dbg t)) x = with_int3 A img x"
    using wf(2) by (simp_all add: intact_def entries_ran)
  then have "\<forall>x\<in>code. mem_of (pid (sdb (dbg t))) (os (dbg t)) x = img x" by (simp add: tab)
  then show ?thesis using t(1,3,5) tab by (intro exI [of _ t]) simp
qed

end
