(* ===== verification/Sdb_Running.thy ===== *)
theory Sdb_Running
  imports Sdb_Break
begin

text \<open>
  The breakpoint commands of \<^verbatim>\<open>hw4/sdb.h\<close> on a running process: what \<open>break\<close> and \<open>delete\<close> do
  to the memory of the process, in terms of the invariant \<open>debugged\<close> of \<open>Sdb_Break\<close>.
\<close>

text \<open>The table without the entry \<open>i\<close>, the process otherwise the same.\<close>

definition without_entry :: "'k host \<Rightarrow> nat \<Rightarrow> 'k sys \<Rightarrow> 'k sys \<Rightarrow> bool" where
  "without_entry H i s t \<longleftrightarrow>
     eh (sdb t) = eh (sdb s) \<and> path (sdb t) = path (sdb s) \<and> pid (sdb t) = pid (sdb s) \<and>
     breaks (sdb t) = (breaks (sdb s))[i := (breaks (sdb s) ! i)\<lparr>is_used := False\<rparr>] \<and>
     h_maps H (pid (sdb s)) (os t) = h_maps H (pid (sdb s)) (os s)"

lemma without_entry_live:
  assumes "without_entry H i s t" "wf_sdb (sdb s)" "k < MAX_BREAK"
  shows "used_at t k \<longleftrightarrow> k \<noteq> i \<and> used_at s k" "live_addr H t a = live_addr H s a" "live_of H t k = live_of H s k"
    "bp_addr (breaks (sdb t) ! k) = bp_addr (breaks (sdb s) ! k)"
    "original_word (breaks (sdb t) ! k) = original_word (breaks (sdb s) ! k)"
proof -
  have b: "breaks (sdb t) ! k = (if k = i then (breaks (sdb s) ! i)\<lparr>is_used := False\<rparr> else breaks (sdb s) ! k)"
    using assms by (auto simp: without_entry_def wf_sdb_def nth_list_update)
  show "used_at t k \<longleftrightarrow> k \<noteq> i \<and> used_at s k" using b by (simp add: used_at_def)
  show l: "live_addr H t a = live_addr H s a" for a
    by (rule live_addr_cong) (use assms(1) in \<open>simp_all add: without_entry_def\<close>)
  show addr: "bp_addr (breaks (sdb t) ! k) = bp_addr (breaks (sdb s) ! k)"
    "original_word (breaks (sdb t) ! k) = original_word (breaks (sdb s) ! k)" using b by simp_all
  show "live_of H t k = live_of H s k" by (simp add: live_of_def l addr)
qed

lemma without_entry_table:
  assumes "without_entry H i s t" "wf_sdb (sdb s)" "i < MAX_BREAK"
  shows "bp_table (sdb t) = (bp_table (sdb s))(i := None) \<and> wf_sdb (sdb t)"
  using assms by (auto simp: without_entry_def bp_table_def wf_sdb_def fun_eq_iff nth_list_update)

lemma without_entry_placed:
  assumes "without_entry H i s t" "well_placed H m s" "A \<subseteq> planted H s MAX_BREAK" "armed H m A s"
  shows "well_placed H m t \<and> A - {live_of H s i} \<subseteq> planted H t MAX_BREAK \<and> armed H m (A - {live_of H s i}) t"
proof -
  have wf: "wf_sdb (sdb s)" using assms(2) by (simp add: well_placed_def entry_live_def)
  note w = without_entry_live [OF assms(1) wf]
  have "wf_sdb (sdb t)" using assms(1) wf by (simp add: without_entry_def wf_sdb_def)
  then have "well_placed H m t"
    using assms(2) by (simp add: well_placed_def entry_live_def separated_def clean_code_def w)
  moreover have "A - {live_of H s i} \<subseteq> planted H t MAX_BREAK"
  proof
    fix x assume x: "x \<in> A - {live_of H s i}"
    then obtain k where "k < MAX_BREAK" "used_at s k" "x = live_of H s k" using assms(3) by (auto simp: planted_def)
    with x w(1,3) [of k] have "used_at t k" "x = live_of H t k" by auto
    with \<open>k < MAX_BREAK\<close> show "x \<in> planted H t MAX_BREAK" unfolding planted_def by blast
  qed
  moreover have "armed H m (A - {live_of H s i}) t" using assms(4) by (simp add: armed_def w)
  ultimately show ?thesis by blast
qed

context ptrace_host
begin

lemma delete_without_entry:
  assumes "wf_sdb (sdb s)" "i < MAX_BREAK" "used_at s i"
  shows "without_entry H i s (sdb_delete H (int i) s)"
  using assms by (simp add: sdb_delete_def without_entry_def used_at_def wf_sdb_def Let_def poke_maps)

lemma delete_memory:
  assumes deb: "debugged H mem_of m A s" and i: "i < MAX_BREAK" "used_at s i"
    and same: "live_of H s i = bp_addr (breaks (sdb s) ! i)"
  shows "mem_of (pid (sdb s)) (os (sdb_delete H (int i) s)) = with_int3 (A - {live_of H s i}) m"
proof -
  let ?a = "live_of H s i" and ?p = "pid (sdb s)"
  let ?w = "peek_value H ?p ?a (os s)"
  have mem: "mem_of ?p (os s) = with_int3 A m" and A: "A \<subseteq> planted H s MAX_BREAK" "armed H m A s"
    and place: "well_placed H m s" using deb by (simp_all add: debugged_def)
  have mapped: "mapped_word (with_int3 A m) ?a" and clean: "m ?a \<noteq> Some 0xcc"
    using place i by (auto simp: well_placed_def entry_live_def clean_code_def intro: mapped_with_int3)
  have "read_word (with_int3 A m) ?a = Some ?w" using peek_value_mapped [of ?p "os s" ?a] mapped mem by simp
  then have "with_int3 A m ?a = Some (byte_at ?w 0)" by (rule read_word_byte)
  then have low: "?w AND 0xff = 0xcc \<longleftrightarrow> ?a \<in> A" using clean by (auto simp: low_byte_eq with_int3_def split: if_splits)
  show ?thesis
  proof (cases "?a \<in> A")
    case True
    have "read_word m ?a = Some (original_word (breaks (sdb s) ! i))" using A(2) i True by (simp add: armed_def)
    moreover have "?a + of_nat j \<notin> A" if "0 < j" "j < 8" for j
      using planted_window [OF _ i that(2)] place A(1) that(1) by (auto simp: well_placed_def)
    ultimately have "write_word (with_int3 A m) ?a (original_word (breaks (sdb s) ! i)) = with_int3 (A - {?a}) m"
      by (intro with_int3_remove) auto
    with True low i mem mapped show ?thesis
      by (simp add: sdb_delete_def used_at_def Let_def poke_mem flip: same)
  next
    case False
    with low i mem show ?thesis by (simp add: sdb_delete_def used_at_def Let_def flip: same)
  qed
qed

lemma delete_debugged:
  assumes "debugged H mem_of m A s" "i < MAX_BREAK" "used_at s i" "live_of H s i = bp_addr (breaks (sdb s) ! i)"
  shows "debugged H mem_of m (A - {live_of H s i}) (sdb_delete H (int i) s)"
proof -
  have "wf_sdb (sdb s)" using assms(1) by (simp add: debugged_def well_placed_def entry_live_def)
  note w = delete_without_entry [OF this assms(2,3)]
  then have "pid (sdb (sdb_delete H (int i) s)) = pid (sdb s)" by (simp add: without_entry_def)
  then show ?thesis
    using delete_memory [OF assms] without_entry_placed [OF w, of m A] assms(1) by (simp add: debugged_def)
qed

text \<open>Deleting at an address that the process does not have mapped changes nothing in it.\<close>

lemma delete_unmapped:
  assumes "\<not> mapped_word (mem_of (pid (sdb s)) (os s)) (bp_addr (breaks (sdb s) ! i))"
  shows "mem_of (pid (sdb s)) (os (sdb_delete H (int i) s)) = mem_of (pid (sdb s)) (os s)"
  using assms by (simp add: sdb_delete_def Let_def poke_mem)

end

text \<open>
  C12: deleting a breakpoint of a running process.  In a program at fixed addresses the
  process gets exactly the byte of this breakpoint back and the invariant holds for the
  others.  In a relocated program, where the address of the entry is not mapped, the entry
  disappears from the table but the breakpoint instruction stays in the process.
\<close>

theorem delete_running:
  assumes "ptrace_host H mem_of" "debugged H mem_of m A s" "i < MAX_BREAK" "used_at s i"
    and "live_of H s i = bp_addr (breaks (sdb s) ! i) \<or> \<not> mapped_word (with_int3 A m) (bp_addr (breaks (sdb s) ! i))"
  shows "bp_table (sdb (sdb_delete H (int i) s)) = (bp_table (sdb s))(i := None) \<and>
    (if live_of H s i = bp_addr (breaks (sdb s) ! i)
     then debugged H mem_of m (A - {live_of H s i}) (sdb_delete H (int i) s)
     else mem_of (pid (sdb s)) (os (sdb_delete H (int i) s)) = with_int3 A m)"
proof -
  have wf: "wf_sdb (sdb s)" and mem: "mem_of (pid (sdb s)) (os s) = with_int3 A m"
    using assms(2) by (simp_all add: debugged_def well_placed_def entry_live_def)
  have "without_entry H i s (sdb_delete H (int i) s)"
    by (rule ptrace_host.delete_without_entry [OF assms(1) wf assms(3,4)])
  then have "bp_table (sdb (sdb_delete H (int i) s)) = (bp_table (sdb s))(i := None)"
    using without_entry_table wf assms(3) by blast
  then show ?thesis
    using ptrace_host.delete_debugged [OF assms(1-4)] ptrace_host.delete_unmapped [OF assms(1), of s i] assms(5) mem by auto
qed

subsection \<open>Setting a breakpoint\<close>

lemma grown_table:
  assumes "wf_sdb (sdb s)" "i < MAX_BREAK" "\<not> used_at s i"
    and "s1 = set_bp i (\<lambda>b. b\<lparr>is_used := True, bp_addr := a\<rparr>) s"
  shows "A \<subseteq> planted H s MAX_BREAK \<Longrightarrow> A \<subseteq> planted H s1 MAX_BREAK"
    and "A \<subseteq> planted H s MAX_BREAK \<Longrightarrow> armed H m A s \<Longrightarrow> well_placed H m s1 \<Longrightarrow> armed H m A s1"
proof -
  have other: "used_at s1 k = used_at s k" "live_of H s1 k = live_of H s k"
    "original_word (breaks (sdb s1) ! k) = original_word (breaks (sdb s) ! k)" if "k < MAX_BREAK" "k \<noteq> i" for k
    using that live_addr_cong [of H s1 s] by (simp_all add: assms(4) used_at_def live_of_def)
  have i: "used_at s1 i" using assms(1,2) by (simp add: assms(4) used_at_def wf_sdb_def)
  show sub: "A \<subseteq> planted H s1 MAX_BREAK" if A: "A \<subseteq> planted H s MAX_BREAK"
  proof
    fix x assume "x \<in> A"
    with A obtain k where k: "k < MAX_BREAK" "used_at s k" "x = live_of H s k" by (auto simp: planted_def)
    then have "k \<noteq> i" using assms(3) by blast
    with k other [of k] have "used_at s1 k" "x = live_of H s1 k" by simp_all
    with k(1) show "x \<in> planted H s1 MAX_BREAK" unfolding planted_def by blast
  qed
  show "armed H m A s1" if A: "A \<subseteq> planted H s MAX_BREAK" and arm: "armed H m A s" and place: "well_placed H m s1"
  proof -
    have "live_of H s1 i \<notin> A"
    proof
      assume "live_of H s1 i \<in> A"
      with A obtain k where k: "k < MAX_BREAK" "used_at s k" "live_of H s1 i = live_of H s k" by (auto simp: planted_def)
      then have "k \<noteq> i" using assms(3) by blast
      with k other [of k] have "used_at s1 k" "k \<noteq> i" "live_of H s1 k - live_of H s1 i < 8" by simp_all
      with place k(1) assms(2) i show False unfolding well_placed_def separated_def by blast
    qed
    with arm other show ?thesis unfolding armed_def by metis
  qed
qed

text \<open>
  C11: setting a breakpoint on a running process.  The entry with the least free number
  takes the address; if the table with it is well placed (mapped, at least eight bytes from
  the others, no breakpoint instruction of the program's own) and the process is not
  stopped at any breakpoint, the process afterwards is the program with all breakpoints
  planted, the new one among them.
\<close>

theorem break_running:
  assumes "ptrace_host H mem_of" "debugged H mem_of m A s" "sdb_is_loaded (sdb s)" "sdb_is_running (sdb s)"
    and "first_free (breaks (sdb s)) = Some i"
    and "s1 = set_bp i (\<lambda>b. b\<lparr>is_used := True, bp_addr := a\<rparr>) s" "well_placed H m s1"
    and "\<forall>k<MAX_BREAK. not_standing_at H s1 (os s1) k"
  shows "\<exists>t. sdb_set_break H (CHR ''0'' # CHR ''x'' # show_llx a) s = Inr t \<and>
    bp_table (sdb t) = (bp_table (sdb s))(i \<mapsto> a) \<and> out t = out s \<and>
    h_getregs H (pid (sdb s)) (os t) = h_getregs H (pid (sdb s)) (os s) \<and>
    debugged H mem_of m (planted H t MAX_BREAK) t \<and> live_of H t i \<in> planted H t MAX_BREAK"
proof -
  have wf: "wf_sdb (sdb s)" and mem: "mem_of (pid (sdb s)) (os s) = with_int3 A m"
    and A: "A \<subseteq> planted H s MAX_BREAK" "armed H m A s"
    using assms(2) by (simp_all add: debugged_def well_placed_def entry_live_def)
  have i: "i < MAX_BREAK" "\<not> used_at s i" using first_free_Some [OF assms(5)] by (simp_all add: used_at_def)
  note grown = grown_table [OF wf i assms(6)]
  have "debugged H mem_of m A s1"
    using mem A assms(7) grown by (simp add: debugged_def assms(6))
  from ptrace_host.patch_debugged [OF assms(1) this assms(8)] obtain t where
    t: "sdb_patch_all_bp H s1 = Inr t" "same_table (sdb s1) (sdb t)" "out t = out s1"
      "h_getregs H (pid (sdb s1)) (os t) = h_getregs H (pid (sdb s1)) (os s1)" "debugged H mem_of m (planted H t MAX_BREAK) t" by blast
  have "bp_table (sdb t) = (bp_table (sdb s))(i \<mapsto> a)"
    using same_table_bp_table [OF t(2)] wf i(1) by (auto simp: assms(6) bp_table_def wf_sdb_def fun_eq_iff nth_list_update)
  moreover have "used_at t i"
    using t(2) wf i(1) by (auto simp: assms(6) same_table_def same_bp_def used_at_def list_all2_conv_all_nth wf_sdb_def)
  ultimately show ?thesis
    using t assms(3-6) i(1) by (auto simp: sdb_set_break_def skip_0x_def Let_def sdb_is_running_def planted_def)
qed

subsection \<open>Breakpoints that share a word\<close>

context ptrace_host
begin

lemma delete_writes:
  assumes "i < MAX_BREAK" "used_at s i" "a = bp_addr (breaks (sdb s) ! i)" "pid (sdb s) = p"
    and "mapped_word (mem_of p (os s)) a" "mem_of p (os s) a = Some 0xcc"
  shows "mem_of p (os (sdb_delete H (int i) s)) = write_word (mem_of p (os s)) a (original_word (breaks (sdb s) ! i))"
proof -
  have "read_word (mem_of p (os s)) a = Some (peek_value H p a (os s))" by (rule peek_value_mapped [OF assms(5)])
  from read_word_byte [OF this] assms(6) have "peek_value H p a (os s) AND 0xff = 0xcc" by (simp add: low_byte_eq)
  with assms show ?thesis by (simp add: sdb_delete_def used_at_def Let_def poke_mem)
qed

lemma planted_pair:
  assumes "\<And>n. n < MAX_BREAK \<Longrightarrow> used_at s n \<longleftrightarrow> n = i \<or> n = k" "i < k" "k < MAX_BREAK"
  shows "planted H s i = {}" "planted H s k = {live_of H s i}" "planted H s MAX_BREAK = {live_of H s i, live_of H s k}"
  using assms by (auto simp: planted_def)

lemma close_pair_planted:
  assumes "entry_live H (mem_of (pid (sdb s)) (os s)) s" "\<forall>n<MAX_BREAK. not_standing_at H s (os s) n"
    and "i < k" "k < MAX_BREAK" "\<And>n. n < MAX_BREAK \<Longrightarrow> used_at s n \<longleftrightarrow> n = i \<or> n = k"
    and "m = mem_of (pid (sdb s)) (os s)" "a = live_of H s k" "b = live_of H s i" "a \<noteq> b"
    and "m a \<noteq> Some 0xcc" "m b \<noteq> Some 0xcc"
  shows "\<exists>t w0 w1. sdb_patch_all_bp H s = Inr t \<and> same_table (sdb s) (sdb t) \<and>
    mem_of (pid (sdb s)) (os t) = with_int3 {b, a} m \<and>
    original_word (breaks (sdb t) ! i) = w0 \<and> original_word (breaks (sdb t) ! k) = w1 \<and>
    read_word m b = Some w0 \<and> read_word (with_int3 {b} m) a = Some w1"
proof -
  obtain t where t: "sdb_patch_all_bp H s = Inr t" "patched_to H m s (os s) MAX_BREAK t"
      "mem_of (pid (sdb s)) (os t) = with_int3 (planted H s MAX_BREAK) m"
    using patch_all [OF assms(1,2)] by (auto simp: assms(6))
  have used: "used_at s i" "used_at s k" "i < MAX_BREAK" using assms(3-5) by auto
  then have mapped: "mapped_word m a" "mapped_word m b" using assms(1,4) by (simp_all add: entry_live_def assms(6-8))
  note pl = planted_pair [OF assms(5,3,4), folded assms(7,8)]
  have "saved_word H m s i = the (read_word m b)" "saved_word H m s k = the (read_word (with_int3 {b} m) a)"
    using assms(9-11) by (simp_all add: saved_word_def pl with_int3_def flip: assms(7,8))
  then have "original_word (breaks (sdb t) ! i) = the (read_word m b)"
    "original_word (breaks (sdb t) ! k) = the (read_word (with_int3 {b} m) a)"
    using t(2) used assms(4) by (simp_all add: patched_to_def)
  moreover have "\<exists>w. read_word m b = Some w" "\<exists>w. read_word (with_int3 {b} m) a = Some w"
    using mapped mapped_with_int3 [OF mapped(1), of "{b}"] by (simp_all add: read_word_def)
  ultimately show ?thesis using t by (auto simp: pl patched_to_def)
qed

end

text \<open>
  C10: breakpoints closer than eight bytes damage the program.  Breakpoint \<open>i\<close> lies up to
  seven bytes behind breakpoint \<open>k\<close>, which has the higher number; both are planted, first
  \<open>i\<close>, then \<open>k\<close>, whose saved word then contains the breakpoint instruction of \<open>i\<close>.  Deleting
  \<open>i\<close> and then \<open>k\<close> empties the table, but the breakpoint instruction of \<open>i\<close> is back in the
  program, for good.
\<close>

theorem close_breakpoints_damage:
  assumes "ptrace_host H mem_of" "entry_live H (mem_of (pid (sdb s)) (os s)) s"
    and "\<forall>n<MAX_BREAK. not_standing_at H s (os s) n"
    and "i < k" "k < MAX_BREAK" "\<And>n. n < MAX_BREAK \<Longrightarrow> used_at s n \<longleftrightarrow> n = i \<or> n = k"
    and "\<And>n. live_addr H s n = Inr n" "bp_addr (breaks (sdb s) ! k) = a" "bp_addr (breaks (sdb s) ! i) = a + of_nat j"
    and "0 < j" "j < 8" "m = mem_of (pid (sdb s)) (os s)" "m a \<noteq> Some 0xcc" "m (a + of_nat j) \<noteq> Some 0xcc"
  shows "\<exists>t u. sdb_patch_all_bp H s = Inr t \<and> u = sdb_delete H (int k) (sdb_delete H (int i) t) \<and>
    bp_table (sdb u) = Map.empty \<and> mem_of (pid (sdb s)) (os u) = m(a + of_nat j \<mapsto> 0xcc)"
proof -
  let ?p = "pid (sdb s)" and ?b = "a + of_nat j"
  have wf: "wf_sdb (sdb s)" and used: "used_at s i" "used_at s k" "i < MAX_BREAK"
    using assms(2,4-6) by (auto simp: entry_live_def)
  have live: "live_of H s i = ?b" "live_of H s k = a" by (simp_all add: live_of_def assms(7-9))
  have off: "x + of_nat n \<noteq> x" if "0 < n" "n < 16" for x :: u64 and n
  proof -
    have "unat (of_nat n :: u64) = n" using that(2) by (simp add: unat_of_nat take_bit_nat_eq_self)
    with that(1) show ?thesis by auto
  qed
  have ab: "a \<noteq> ?b" using off [of j a] assms(10,11) by simp
  obtain t w0 w1 where t: "sdb_patch_all_bp H s = Inr t" "same_table (sdb s) (sdb t)" "mem_of ?p (os t) = with_int3 {?b, a} m"
      "original_word (breaks (sdb t) ! i) = w0" "original_word (breaks (sdb t) ! k) = w1"
      "read_word m ?b = Some w0" "read_word (with_int3 {?b} m) a = Some w1"
    using ptrace_host.close_pair_planted [OF assms(1-6,12), of a ?b] live ab assms(13,14) by auto
  have mapped: "mapped_word m a" "mapped_word m ?b"
  proof -
    have "mapped_word m (live_of H s n)" if "n < MAX_BREAK" "used_at s n" for n
      using assms(2) that by (simp add: entry_live_def assms(12))
    from this [of k] this [of i] show "mapped_word m a" "mapped_word m ?b" using used assms(5) live by simp_all
  qed
  have wt: "wf_sdb (sdb t)" and pt: "pid (sdb t) = ?p" using same_table_wf [OF t(2)] t(2) wf by (simp_all add: same_table_def)
  have same: "used_at t n = used_at s n" "bp_addr (breaks (sdb t) ! n) = bp_addr (breaks (sdb s) ! n)" if "n < MAX_BREAK" for n
    using t(2) wf that by (simp_all add: same_table_def same_bp_def wf_sdb_def list_all2_conv_all_nth used_at_def)
  define t1 where "t1 = sdb_delete H (int i) t"
  have w1: "without_entry H i t t1"
    unfolding t1_def by (rule ptrace_host.delete_without_entry [OF assms(1) wt used(3)]) (simp add: same used)
  note e1 = without_entry_live [OF w1 wt] and tab1 = without_entry_table [OF w1 wt used(3)]
  have "mapped_word (mem_of ?p (os t)) ?b" "mem_of ?p (os t) ?b = Some 0xcc"
    unfolding t(3) using mapped_with_int3 [OF mapped(2)] by (blast, simp add: with_int3_def)
  then have "mem_of ?p (os t1) = write_word (with_int3 {?b, a} m) ?b w0"
    using ptrace_host.delete_writes [OF assms(1) used(3), of t ?b ?p] same used t(3,4) pt assms(9) by (simp add: t1_def)
  also have "\<dots> = with_int3 ({?b, a} - {?b}) m"
  proof (rule with_int3_remove [OF _ t(6)])
    fix l :: nat assume l: "0 < l" "l < 8"
    have "a + of_nat (j + l) \<noteq> a" "?b + of_nat l \<noteq> ?b" using off [of "j + l" a] off [of l ?b] l assms(10,11) by auto
    then show "?b + of_nat l \<notin> {?b, a}" by (simp add: add.assoc)
  qed
  also have "{?b, a} - {?b} = {a}" using ab by auto
  finally have m1: "mem_of ?p (os t1) = with_int3 {a} m" .
  define u where "u = sdb_delete H (int k) t1"
  have used1: "used_at t1 k" using e1(1) [OF assms(5)] used assms(4,5) same by simp
  have w2: "without_entry H k t1 u"
    unfolding u_def by (rule ptrace_host.delete_without_entry [OF assms(1) conjunct2 [OF tab1] assms(5) used1])
  note tab2 = without_entry_table [OF w2 conjunct2 [OF tab1] assms(5)]
  have "mapped_word (mem_of ?p (os t1)) a" "mem_of ?p (os t1) a = Some 0xcc"
    unfolding m1 using mapped_with_int3 [OF mapped(1)] by (blast, simp add: with_int3_def)
  then have "mem_of ?p (os u) = write_word (with_int3 {a} m) a w1"
    using ptrace_host.delete_writes [OF assms(1,5) used1, of a ?p] e1(4,5) [OF assms(5)] same(2) [OF assms(5)]
      t(5) w1 pt m1 assms(8) by (simp add: u_def without_entry_def)
  also have "\<dots> = with_int3 {?b} m"
  proof (rule write_word_restore [OF t(7)])
    fix x assume "\<not> x - a < 8"
    moreover from this have "x \<noteq> ?b" using assms(11) by (auto simp: offset_lt8_iff)
    ultimately show "with_int3 {a} m x = with_int3 {?b} m x" by (auto simp: with_int3_def)
  qed
  finally have "mem_of ?p (os u) = m(?b \<mapsto> 0xcc)" by (auto simp: with_int3_def)
  moreover have "bp_table (sdb t) n = None" if "n \<noteq> i" "n \<noteq> k" for n
    using wt same(1) [of n] assms(6) [of n] that by (simp add: bp_table_def wf_sdb_def used_at_def)
  then have "bp_table (sdb u) = Map.empty" using tab1 tab2 by (auto simp: fun_eq_iff)
  ultimately show ?thesis using t(1) by (auto simp: u_def t1_def)
qed

end
