(* ===== verification/Running_Sessions.thy ===== *)
theory Running_Sessions
  imports Sessions Sdb_Running
begin

text \<open>Closed examples for the breakpoint commands on a running process.\<close>

theorem delete_running_witness:
  "debugged tiny_host machine_mem demo_mem {} (sdb_delete tiny_host 1 at_first) \<and>
   bp_table (sdb (sdb_delete tiny_host 1 at_first)) 1 = None"
proof -
  have "bp_addr (breaks (sdb at_first) ! 1) = 0x1010" by (simp add: at_first_def demo_breaks_def)
  then show ?thesis
    using delete_running [OF tiny.ptrace_host_axioms at_first_debugged at_first_simps(5,6)] at_first_simps(7) by simp
qed

text \<open>A third breakpoint at \<open>0x1020\<close>.\<close>

definition third :: "machine sys" where
  "third = set_bp 2 (\<lambda>b. b\<lparr>is_used := True, bp_addr := 0x1020\<rparr>) fresh"

lemma third_used: "k < MAX_BREAK \<Longrightarrow> used_at third k \<longleftrightarrow> k = 0 \<or> k = 1 \<or> k = 2"
  by (auto simp: less_MAX_BREAK used_at_def third_def fresh_def demo_breaks_def nth_list_update numeral_2_eq_2 nth_Cons split: nat.splits)

lemma third_live: "live_addr H third a = Inr a"
  by (simp add: live_addr_def third_def fresh_def)

lemma third_live_of: "live_of H third 0 = 0x1004" "live_of H third 1 = 0x1010" "live_of H third (Suc 0) = 0x1010" "live_of H third 2 = 0x1020"
  by (simp_all add: live_of_def third_live) (simp_all add: third_def fresh_def demo_breaks_def)

lemma demo_word_mapped:
  assumes "a \<in> {0x1004, 0x1010, 0x1020}"
  shows "mapped_word demo_mem a"
  unfolding mapped_word_iff
proof (intro allI impI)
  fix i :: nat assume "i < 8"
  from less_8_cases [OF this] assms show "demo_mem (a + of_nat i) \<noteq> None" by (auto simp: demo_mem_def)
qed

lemma third_placed: "well_placed H demo_mem third"
proof -
  have clean: "demo_mem a \<noteq> Some 0xcc" if "a \<in> {0x1004, 0x1010, 0x1020}" for a
    using that by (auto simp: demo_mem_def)
  have live: "live_of H third k \<in> {0x1004, 0x1010, 0x1020}" "k = 0 \<or> k = 1 \<or> k = 2"
    if "k < MAX_BREAK" "used_at third k" for k
    using that third_used [OF that(1)] by (auto simp: third_live_of)
  have "live_addr H third (bp_addr (breaks (sdb third) ! k)) = Inr (live_of H third k)" for k
    by (simp add: live_of_def third_live)
  moreover have "wf_sdb (sdb third)" by (simp add: third_def fresh_def wf_sdb_def)
  ultimately have "entry_live H demo_mem third" unfolding entry_live_def using demo_word_mapped live(1) by blast
  moreover have "separated H third"
    unfolding separated_def
  proof (intro allI impI)
    fix i k assume a: "i < MAX_BREAK" "k < MAX_BREAK" "used_at third i \<and> used_at third k \<and> i \<noteq> k"
    then have "(i, k) \<in> {(0, 1), (0, 2), (1, 0), (1, 2), (2, 0), (2, 1)}"
      using live(2) [of i] live(2) [of k] by blast
    then show "\<not> live_of H third k - live_of H third i < 8"
      by (simp only: insert_iff empty_iff prod.inject, elim disjE conjE FalseE) (simp_all only: third_live_of, simp_all)
  qed
  moreover have "clean_code H demo_mem third" unfolding clean_code_def using clean live(1) by blast
  ultimately show ?thesis by (simp add: well_placed_def)
qed

theorem break_running_witness:
  "\<exists>t. sdb_set_break tiny_host (CHR ''0'' # CHR ''x'' # show_llx (0x1020 :: u64)) fresh = Inr t \<and>
     bp_table (sdb t) 2 = Some 0x1020 \<and> debugged tiny_host machine_mem demo_mem (planted tiny_host t MAX_BREAK) t"
proof -
  have free: "first_free (breaks (sdb fresh)) = Some 2"
    by (simp add: first_free_def fresh_def demo_breaks_def MAX_BREAK_def upt_rec)
  have run: "sdb_is_loaded (sdb fresh)" "sdb_is_running (sdb fresh)"
    by (simp_all add: fresh_def sdb_is_loaded_def sdb_is_running_def)
  have away: "\<forall>k<MAX_BREAK. not_standing_at tiny_host third (os third) k"
    by (auto simp: not_standing_at_def third_used third_live_of) (simp_all add: third_def)
  show ?thesis
    using break_running [OF tiny.ptrace_host_axioms fresh_debugged run free third_def third_placed away]
    by auto
qed

text \<open>The second breakpoint at \<open>0x1002\<close>, two bytes before the first.\<close>

definition close_pair :: "machine sys" where
  "close_pair = set_bp 1 (\<lambda>b. b\<lparr>bp_addr := 0x1002\<rparr>) fresh"

lemma close_used: "n < MAX_BREAK \<Longrightarrow> used_at close_pair n \<longleftrightarrow> n = 0 \<or> n = 1"
  by (auto simp: less_MAX_BREAK used_at_def close_pair_def fresh_def demo_breaks_def)

lemma close_live: "live_addr H close_pair a = Inr a" "live_of H close_pair 0 = 0x1004" "live_of H close_pair (Suc 0) = 0x1002"
proof -
  show l: "live_addr H close_pair a = Inr a" for a by (simp add: live_addr_def close_pair_def fresh_def)
  show "live_of H close_pair 0 = 0x1004" "live_of H close_pair (Suc 0) = 0x1002"
    by (simp_all add: live_of_def l) (simp_all add: close_pair_def fresh_def demo_breaks_def)
qed

theorem close_breakpoints_damage_witness:
  "\<exists>t. sdb_patch_all_bp tiny_host close_pair = Inr t \<and>
     bp_table (sdb (sdb_delete tiny_host 1 (sdb_delete tiny_host 0 t))) = Map.empty \<and>
     machine_mem 42 (os (sdb_delete tiny_host 1 (sdb_delete tiny_host 0 t))) = demo_mem(0x1004 \<mapsto> 0xcc)"
proof -
  have os: "os close_pair = machine_at demo_mem zero_regs" "pid (sdb close_pair) = 42"
    by (simp_all add: close_pair_def)
  have mapped: "mapped_word demo_mem a" if "a \<in> {0x1002, 0x1004}" for a
    unfolding mapped_word_iff
  proof (intro allI impI)
    fix i :: nat assume "i < 8"
    from less_8_cases [OF this] that show "demo_mem (a + of_nat i) \<noteq> None" by (auto simp: demo_mem_def)
  qed
  have "wf_sdb (sdb close_pair)" by (simp add: close_pair_def fresh_def wf_sdb_def)
  moreover have "live_addr tiny_host close_pair (bp_addr (breaks (sdb close_pair) ! n)) = Inr (live_of tiny_host close_pair n)" for n
    by (simp add: live_of_def close_live)
  ultimately have live: "entry_live tiny_host (machine_mem (pid (sdb close_pair)) (os close_pair)) close_pair"
    using mapped by (auto simp: entry_live_def os close_used close_live)
  have away: "\<forall>n<MAX_BREAK. not_standing_at tiny_host close_pair (os close_pair) n"
    by (auto simp: not_standing_at_def close_used close_live os)
  have k: "(0::nat) < 1" "1 < MAX_BREAK" by (simp_all add: MAX_BREAK_def)
  have addr: "bp_addr (breaks (sdb close_pair) ! 1) = 0x1002" "bp_addr (breaks (sdb close_pair) ! 0) = 0x1002 + of_nat 2"
    by (simp_all add: close_pair_def fresh_def demo_breaks_def)
  have mem: "demo_mem = machine_mem (pid (sdb close_pair)) (os close_pair)" by (simp add: os)
  have clean: "demo_mem 0x1002 \<noteq> Some 0xcc" "demo_mem (0x1002 + of_nat 2) \<noteq> Some 0xcc" by (simp_all add: demo_mem_def)
  from close_breakpoints_damage [OF tiny.ptrace_host_axioms live away k close_used close_live(1) addr _ _ mem clean]
  show ?thesis by (auto simp: os(2))
qed

end
