(* ===== verification/Careful_Sessions.thy ===== *)
theory Careful_Sessions
  imports Sdb_Careful Running_Sessions Table_Sessions
begin

text \<open>
  Closed examples for whole sessions: the example program of \<open>Sessions\<close> on a system whose
  \<open>fork\<close> starts it afresh, with three sites for breakpoints.
\<close>

definition demo_host :: "machine host" where
  "demo_host = tiny_host\<lparr>h_fork := (\<lambda>child m. (42,
     case child True True of
       Exec _ \<Rightarrow> machine_at demo_mem zero_regs\<lparr>m_events := [sigtrap_stop]\<rparr>
     | Child_Exit _ \<Rightarrow> m\<lparr>m_alive := False, m_events := [0xff00]\<rparr>))\<rparr>"

lemma demo_host_simps [simp]:
  "h_peek demo_host = h_peek tiny_host" "h_poke demo_host = h_poke tiny_host"
  "h_getregs demo_host = h_getregs tiny_host" "h_setregs demo_host = h_setregs tiny_host"
  "h_maps demo_host = h_maps tiny_host" "h_cont demo_host = h_cont tiny_host"
  "h_setoptions demo_host = h_setoptions tiny_host" "h_waitpid demo_host = h_waitpid tiny_host"
  "h_singlestep demo_host = h_singlestep tiny_host" "h_disasm demo_host = h_disasm tiny_host"
  by (simp_all add: demo_host_def)

interpretation demo: ptrace_host demo_host machine_mem
  using tiny.ptrace_host_axioms by (simp add: ptrace_host_def)

definition demo_code :: "u64 set" where "demo_code = {x. x - 0x1000 < 64}"
definition demo_sites :: "u64 set" where "demo_sites = {0x1004, 0x1010, 0x1020}"

subsection \<open>The machine does not write its code\<close>

text \<open>From \<open>m\<close> to \<open>m'\<close>: the same process with the same memory, which may have ended.\<close>

definition same_program :: "machine \<Rightarrow> machine \<Rightarrow> bool" where
  "same_program m m' \<longleftrightarrow> m_pid m' = m_pid m \<and> m_mem m' = m_mem m \<and> (m_alive m' \<longrightarrow> m_alive m)"

lemma same_program_keeps: "same_program m m' \<Longrightarrow> keeps_code demo_host machine_mem C p m m'"
  by (auto simp: same_program_def keeps_code_def alive_def machine_mem_def here_def)

lemma same_program_refl [simp]: "same_program m m"
  by (simp add: same_program_def)

lemma same_program_trans: "same_program a b \<Longrightarrow> same_program b c \<Longrightarrow> same_program a c"
  by (simp add: same_program_def)

lemma exec_same: "same_program m (fst (exec_insn m))"
  by (auto simp: exec_insn_def Let_def same_program_def split: option.splits)

lemma run_same: "same_program m (run_machine n m)"
proof (induction n arbitrary: m)
  case (Suc n)
  obtain m1 ev where e: "exec_insn m = (m1, ev)" by fastforce
  then have "same_program m m1" using exec_same [of m] by simp
  with e Suc [of m1] show ?case
    by (auto simp: same_program_def split: option.splits)
qed simp

lemma wait_same: "h_waitpid tiny_host p m = (w, m') \<Longrightarrow> same_program m m'"
  by (auto simp: same_program_def split: if_splits list.splits)

lemma step_same: "h_singlestep tiny_host p m = (b, m') \<Longrightarrow> same_program m m'"
  using exec_same [of m] by (auto simp: same_program_def split: if_splits prod.splits)

interpretation demo: traced_program demo_host machine_mem "''/bin/demo''" demo_code demo_mem
proof unfold_locales
  fix p :: int and k k1 k2 :: machine and w b st r and child :: "bool \<Rightarrow> bool \<Rightarrow> child_end"
  show "keeps_code demo_host machine_mem demo_code p k k2"
    if "h_singlestep demo_host p k = (b, k1)" "h_waitpid demo_host p k1 = (w, k2)"
    using that unfolding demo_host_simps by (blast intro: same_program_keeps same_program_trans step_same wait_same)
  show "keeps_code demo_host machine_mem demo_code p k k1" if "h_singlestep demo_host p k = (False, k1)"
    using that by (intro same_program_keeps step_same) simp
  show "keeps_code demo_host machine_mem demo_code p k k2"
    if w: "h_waitpid demo_host p (h_cont demo_host p k) = (w, k2)"
  proof -
    have "same_program k (h_cont demo_host p k)" by (simp add: run_same)
    moreover have "same_program (h_cont demo_host p k) k2"
      by (rule wait_same [of p _ w]) (use w in \<open>simp only: demo_host_simps\<close>)
    ultimately show ?thesis by (blast intro: same_program_keeps same_program_trans)
  qed
  show "keeps_code demo_host machine_mem demo_code p k1 k2"
    if "h_waitpid demo_host p k = (Waited st, k1)" "h_waitpid demo_host p k1 = (w, k2)"
    using that by (intro same_program_keeps wait_same) simp
  show "alive demo_host p k" if "alive demo_host p (snd (h_setregs demo_host p r k))"
    using that by (simp add: alive_def split: if_splits)
  show "p = - 1" if "h_fork demo_host child k = (p, k1)" "p < 0"
    using that by (auto simp: demo_host_def)
  show "(\<exists>st. w = Waited st) \<and> (\<forall>x\<in>demo_code. machine_mem p k2 x = demo_mem x)"
    if "h_fork demo_host child k = (p, k1)" "child True True = Exec ''/bin/demo''" "0 \<le> p"
      "h_waitpid demo_host p k1 = (w, k2)" "alive demo_host p k2"
    using that by (auto simp: demo_host_def)
qed simp

lemma demo_sites_breakable: "breakable demo_host machine_mem ''/bin/demo'' demo_code demo_mem demo_sites"
proof unfold_locales
  fix a b :: u64 and j :: nat
  show "a + of_nat j \<in> demo_code" if "a \<in> demo_sites" "j < 8"
    using less_8_cases [OF that(2)] that(1) by (auto simp: demo_sites_def demo_code_def)
  show "mapped_word demo_mem a" if "a \<in> demo_sites"
    using that demo_word_mapped by (simp add: demo_sites_def)
  show "demo_mem a \<noteq> Some 0xcc" if "a \<in> demo_sites"
    using that by (auto simp: demo_mem_def)
  show "\<not> b - a < 8" if "a \<in> demo_sites" "b \<in> demo_sites" "a \<noteq> b"
    using that by (simp only: demo_sites_def insert_iff empty_iff) (elim disjE FalseE; simp)
qed

subsection \<open>The session \<open>start\<close>\<close>

definition demo_env :: "machine env" where
  "demo_env = \<lparr>host_of = demo_host, elf_of = lib, raw_regs = zero_regs\<rparr>"

definition before_start :: "machine session" where
  "before_start = \<lparr>command = None, dbg = fresh\<lparr>sdb := (demo_sdb 0)\<lparr>pid := - 1\<rparr>\<rparr>\<rparr>"

definition started :: "machine sys" where
  "started = printf (''** pid '' @ show_d 42 @ newline) (printf ''sdb> '' fresh)"

lemma started_simps [simp]: "sdb started = demo_sdb 0" "os started = machine_at demo_mem zero_regs"
  by (simp_all add: started_def) (simp add: fresh_def)

lemma demo_entries: "entries (demo w m) = {0, 1}"
  using demo_used [of _ w m] by (auto simp: entries_def MAX_BREAK_def)

lemma before_start_sited: "sited ''/bin/demo'' demo_sites (dbg before_start)" "\<not> sdb_is_running (sdb (dbg before_start))"
proof -
  have "entries (dbg before_start) = {0, 1}"
    using demo_entries [of 0] entries_cong [of "dbg before_start" "demo 0 (machine_at demo_mem zero_regs)"]
    by (simp add: before_start_def)
  then show "sited ''/bin/demo'' demo_sites (dbg before_start)"
    by (simp add: sited_def before_start_def wf_sdb_def fixed_address_def demo_sites_def) (simp add: demo_breaks_def)
  show "\<not> sdb_is_running (sdb (dbg before_start))" by (simp add: before_start_def sdb_is_running_def)
qed

lemma spawn_demo: "spawn demo_host (printf ''sdb> '' (dbg before_start)) = Inr (Some sigtrap_stop, started)"
proof -
  have "sdb_child ''/bin/demo'' True True = Exec ''/bin/demo''" by (simp add: sdb_child_def)
  then show ?thesis
    by (simp add: spawn_def before_start_def demo_host_def started_def)
       (simp add: machine_at_def fresh_def demo_def demo_sdb_def emit_def)
qed

lemma start_demo:
  "\<exists>t. sdb_start demo_host (printf ''sdb> '' (dbg before_start)) = Inr t \<and> pid (sdb t) = 42 \<and>
     alive demo_host 42 (os t)"
proof -
  have live: "live_of demo_host started k = live_of demo_host fresh k" "used_at started k = used_at fresh k" for k
    by (simp_all add: live_of_def live_addr_def used_at_def) (simp_all add: fresh_def)
  have "well_placed demo_host demo_mem fresh" using demo_placed [of demo_host 0] by (simp add: fresh_def)
  then have "well_placed demo_host demo_mem started"
    using well_placed_same [of fresh started demo_host demo_mem] by (simp add: fresh_def)
  then have "debugged demo_host machine_mem demo_mem {} started" by (simp add: debugged_def armed_def)
  moreover have "\<forall>i<MAX_BREAK. not_standing_at demo_host started (os started) i"
    using fresh_away by (simp add: not_standing_at_def live live_of_def live_addr_def) (simp add: fresh_def)
  ultimately obtain t where t: "sdb_patch_all_bp demo_host started = Inr t" "same_table (sdb started) (sdb t)"
      "h_getregs demo_host 42 (os t) = h_getregs demo_host 42 (os started)"
    using demo.patch_debugged [of demo_mem "{}" started] by auto
  have "sdb_is_loaded (sdb (printf ''sdb> '' (dbg before_start)))" by (simp add: before_start_def sdb_is_loaded_def)
  with t(1) spawn_demo have "sdb_start demo_host (printf ''sdb> '' (dbg before_start)) = Inr t"
    by (simp add: sdb_start_def)
  with t(2,3) show ?thesis by (auto simp: same_table_def alive_def)
qed

lemma demo_session:
  "\<exists>m. careful_session demo_env demo_sites before_start m \<and> sdb_is_running (sdb (dbg m)) \<and>
     alive demo_host (pid (sdb (dbg m))) (os (dbg m)) \<and> pid (sdb (dbg m)) = 42"
proof -
  obtain t where t: "sdb_start demo_host (printf ''sdb> '' (dbg before_start)) = Inr t" "pid (sdb t) = 42"
      "alive demo_host 42 (os t)"
    using start_demo by blast
  have "word_of_line ''start''" by (simp add: word_of_line_def c_space_def)
  then have sc: "scan_command (''start'' @ newline) old = Inr (''start'', newline)" for old
    using scan_line(2) [of "''start''"] by simp
  have "dispatch demo_env ''start'' newline s = Some (sdb_start demo_host s)" for s
    by (simp add: dispatch_def demo_env_def)
  then have "main_step demo_env (''start'' @ newline) before_start = Some (Inr (Next \<lparr>command = Some ''start'', dbg = t\<rparr>))"
    using t(1) by (simp add: main_step_def sc is_exit_def del: append_Cons)
  moreover have "careful_line demo_sites (''start'' @ newline) before_start"
    by (simp add: careful_line_def sc careful_command_def del: append_Cons)
  ultimately have "careful_session demo_env demo_sites before_start \<lparr>command = Some ''start'', dbg = t\<rparr>"
    by (blast intro: careful_session.intros)
  with t(2,3) show ?thesis by (fastforce simp: sdb_is_running_def)
qed

theorem careful_sessions_witness:
  "\<exists>m A. careful_session demo_env demo_sites before_start m \<and> A \<subseteq> ran (bp_table (sdb (dbg m))) \<and>
     (\<forall>x\<in>demo_code. machine_mem 42 (os (dbg m)) x = with_int3 A demo_mem x)"
proof -
  obtain m where m: "careful_session demo_env demo_sites before_start m" "sdb_is_running (sdb (dbg m))"
      "alive demo_host (pid (sdb (dbg m))) (os (dbg m))" "pid (sdb (dbg m)) = 42"
    using demo_session by blast
  have "host_of demo_env = demo_host" by (simp add: demo_env_def)
  from careful_sessions [OF demo_sites_breakable this before_start_sited m(1-3)] m(1,4) show ?thesis
    by auto
qed

theorem delete_all_restores_witness:
  "\<exists>m t. careful_session demo_env demo_sites before_start m \<and>
     main_loop demo_env (map (\<lambda>i. table_line (Del_Bp i)) [0..<MAX_BREAK]) m = Some (Inr (Next t)) \<and>
     (\<forall>x\<in>demo_code. machine_mem 42 (os (dbg t)) x = demo_mem x)"
proof -
  obtain m where m: "careful_session demo_env demo_sites before_start m" "sdb_is_running (sdb (dbg m))"
      "alive demo_host (pid (sdb (dbg m))) (os (dbg m))" "pid (sdb (dbg m)) = 42"
    using demo_session by blast
  have "host_of demo_env = demo_host" by (simp add: demo_env_def)
  from delete_all_restores [OF demo_sites_breakable this before_start_sited m(1-3)] m(1,4) show ?thesis
    by metis
qed

end
