(* ===== verification/Sdb_Trace.thy ===== *)
theory Sdb_Trace
  imports Sdb_Main
begin

text \<open>
  The debugger against the program that it debugs.  The program is a machine that executes
  one instruction after the other, with no debugger in sight; its run from one breakpoint
  address to the next is compared with what repeated \<open>cont\<close> commands show.
\<close>

subsection \<open>The program\<close>

text \<open>
  The state of the process as the program itself sees it (what else the system keeps for
  it is \<open>p_env\<close>), and what executing one instruction leads to: the next state, the end of
  the process with an exit code, or a signal.
\<close>

record 'e process =
  p_env :: 'e
  p_mem :: mem
  p_regs :: user_regs

datatype 'p outcome = Goes 'p | Exits nat | Faults

type_synonym 'e cpu = "'e process \<Rightarrow> 'e process outcome"

abbreviation pc :: "'e process \<Rightarrow> u64" where
  "pc \<sigma> \<equiv> rip (p_regs \<sigma>)"

text \<open>Running until the program counter is in \<open>B\<close>, or to the end.\<close>

inductive runs_to :: "'e cpu \<Rightarrow> u64 set \<Rightarrow> 'e process \<Rightarrow> nat + 'e process \<Rightarrow> bool"
  for cpu :: "'e cpu" and B :: "u64 set" where
  Arrive: "pc \<sigma> \<in> B \<Longrightarrow> runs_to cpu B \<sigma> (Inr \<sigma>)"
| End: "pc \<sigma> \<notin> B \<Longrightarrow> cpu \<sigma> = Exits c \<Longrightarrow> runs_to cpu B \<sigma> (Inl c)"
| Move: "pc \<sigma> \<notin> B \<Longrightarrow> cpu \<sigma> = Goes \<sigma>1 \<Longrightarrow> runs_to cpu B \<sigma>1 r \<Longrightarrow> runs_to cpu B \<sigma> r"

text \<open>
  The states in which the program comes to an address in \<open>B\<close>, one after the other, and the
  exit code where the list goes up to the end of the program.
\<close>

definition departs :: "'e cpu \<Rightarrow> u64 set \<Rightarrow> 'e process \<Rightarrow> 'e process \<Rightarrow> bool" where
  "departs cpu B \<sigma> \<sigma>1 \<longleftrightarrow> (if pc \<sigma> \<in> B then cpu \<sigma> = Goes \<sigma>1 else \<sigma>1 = \<sigma>)"

inductive visits :: "'e cpu \<Rightarrow> u64 set \<Rightarrow> 'e process \<Rightarrow> 'e process list \<Rightarrow> nat option \<Rightarrow> bool"
  for cpu :: "'e cpu" and B :: "u64 set" where
  Here: "visits cpu B \<sigma> [] None"
| Exit: "departs cpu B \<sigma> \<sigma>1 \<Longrightarrow> runs_to cpu B \<sigma>1 (Inl c) \<Longrightarrow> visits cpu B \<sigma> [] (Some c)"
| Visit: "departs cpu B \<sigma> \<sigma>1 \<Longrightarrow> runs_to cpu B \<sigma>1 (Inr \<sigma>') \<Longrightarrow> visits cpu B \<sigma>' vs e \<Longrightarrow>
    visits cpu B \<sigma> (\<sigma>' # vs) e"

inductive_cases visits_ConsE: "visits cpu B \<sigma> (\<sigma>' # vs) e"
inductive_cases visits_ExitE: "visits cpu B \<sigma> [] (Some c)"

lemma runs_to_arrives: "runs_to cpu B \<sigma> r \<Longrightarrow> r = Inr \<sigma>' \<Longrightarrow> pc \<sigma>' \<in> B"
  by (induction rule: runs_to.induct) auto

subsection \<open>The process under \<open>ptrace\<close>\<close>

text \<open>
  The process \<open>p\<close> is stopped in the state \<open>\<sigma>\<close> of the program with breakpoint instructions at
  \<open>A\<close>, and nothing waits to be reported of it.
\<close>

definition process_at ::
  "'k host \<Rightarrow> (int \<Rightarrow> 'k \<Rightarrow> mem) \<Rightarrow> (int \<Rightarrow> 'k \<Rightarrow> 'e option) \<Rightarrow> int \<Rightarrow> 'k \<Rightarrow> u64 set \<Rightarrow> 'e process \<Rightarrow> bool" where
  "process_at H mem_of env_of p k A \<sigma> \<longleftrightarrow>
     mem_of p k = with_int3 A (p_mem \<sigma>) \<and> h_getregs H p k = Some (p_regs \<sigma>) \<and> env_of p k = Some (p_env \<sigma>)"

text \<open>
  What is assumed of the program and the system: the program does not write its code at the
  sites (and is not disturbed by breakpoint instructions there that it does not execute);
  \<open>PTRACE_SINGLESTEP\<close> executes one instruction of it, or the breakpoint instruction;
  \<open>PTRACE_CONT\<close> runs it until it has executed a breakpoint instruction, which leaves the
  program counter behind it, or to its end.
\<close>

locale cpu_host = ptrace_host H mem_of
  for H :: "'k host" and mem_of :: "int \<Rightarrow> 'k \<Rightarrow> mem" +
  fixes env_of :: "int \<Rightarrow> 'k \<Rightarrow> 'e option" and cpu :: "'e cpu" and sites :: "u64 set"
  assumes poke_env: "env_of p (snd (h_poke H p a w k)) = env_of p k"
    and setregs_env: "env_of p (snd (h_setregs H p r k)) = env_of p k"
    and cpu_code: "cpu \<sigma> = Goes \<sigma>' \<Longrightarrow> a \<in> sites \<Longrightarrow> j < 8 \<Longrightarrow>
      p_mem \<sigma>' (a + of_nat j) = p_mem \<sigma> (a + of_nat j)"
    and step_goes: "process_at H mem_of env_of p k A \<sigma> \<Longrightarrow> A \<subseteq> sites \<Longrightarrow> pc \<sigma> \<notin> A \<Longrightarrow> cpu \<sigma> = Goes \<sigma>' \<Longrightarrow>
      \<exists>st k1 k2. h_singlestep H p k = (True, k1) \<and> h_waitpid H p k1 = (Waited st, k2) \<and>
        process_at H mem_of env_of p k2 A \<sigma>' \<and> h_maps H p k2 = h_maps H p k"
    and step_traps: "process_at H mem_of env_of p k A \<sigma> \<Longrightarrow> A \<subseteq> sites \<Longrightarrow> pc \<sigma> \<in> A \<Longrightarrow>
      \<exists>st k1 k2. h_singlestep H p k = (True, k1) \<and> h_waitpid H p k1 = (Waited st, k2) \<and>
        process_at H mem_of env_of p k2 A (\<sigma>\<lparr>p_regs := (p_regs \<sigma>)\<lparr>rip := pc \<sigma> + 1\<rparr>\<rparr>) \<and> h_maps H p k2 = h_maps H p k"
    and cont_stops: "process_at H mem_of env_of p k A \<sigma> \<Longrightarrow> A \<subseteq> sites \<Longrightarrow> runs_to cpu A \<sigma> (Inr \<sigma>') \<Longrightarrow>
      \<exists>st k2. h_waitpid H p (h_cont H p k) = (Waited st, k2) \<and> WIFSTOPPED st \<and>
        process_at H mem_of env_of p k2 A (\<sigma>'\<lparr>p_regs := (p_regs \<sigma>')\<lparr>rip := pc \<sigma>' + 1\<rparr>\<rparr>) \<and> h_maps H p k2 = h_maps H p k"
    and cont_exits: "process_at H mem_of env_of p k A \<sigma> \<Longrightarrow> A \<subseteq> sites \<Longrightarrow> runs_to cpu A \<sigma> (Inl c) \<Longrightarrow>
      \<exists>k1 k2. h_waitpid H p (h_cont H p k) = (Waited (of_nat (256 * c)), k1) \<and> c < 256 \<and>
        h_waitpid H p k1 = (Wait_Error, k2)"

subsection \<open>The debugger's view\<close>

text \<open>
  The debugger holds the process stopped in the state \<open>\<sigma>\<close>: before an instruction that no
  breakpoint instruction covers at the moment, with breakpoints at sites and a disassembler
  whose answers fit the code's buffers.
\<close>

definition paused ::
  "'k host \<Rightarrow> (int \<Rightarrow> 'k \<Rightarrow> mem) \<Rightarrow> (int \<Rightarrow> 'k \<Rightarrow> 'e option) \<Rightarrow> u64 set \<Rightarrow> 'e process \<Rightarrow> 'k sys \<Rightarrow> bool" where
  "paused H mem_of env_of sites \<sigma> s \<longleftrightarrow>
     sdb_is_running (sdb s) \<and> all_live H s \<and> planted H s MAX_BREAK \<subseteq> sites \<and>
     (\<forall>j<MAX_BREAK. used_at s j \<longrightarrow> insn_fits H j (live_of H s j)) \<and>
     (\<exists>A. debugged H mem_of (p_mem \<sigma>) A s \<and> process_at H mem_of env_of (pid (sdb s)) (os s) A \<sigma> \<and> pc \<sigma> \<notin> A)"

text \<open>
  Where \<open>cont\<close> would step from a breakpoint onto one with a higher number, see below.
\<close>

definition orderly :: "'k host \<Rightarrow> 'e cpu \<Rightarrow> 'k sys \<Rightarrow> 'e process \<Rightarrow> bool" where
  "orderly H cpu s \<sigma> \<longleftrightarrow> (\<forall>i k \<sigma>1. i < k \<longrightarrow> k < MAX_BREAK \<longrightarrow> used_at s i \<longrightarrow> used_at s k \<longrightarrow>
     pc \<sigma> = live_of H s i \<longrightarrow> cpu \<sigma> = Goes \<sigma>1 \<longrightarrow> pc \<sigma>1 \<noteq> live_of H s k)"

text \<open>What planting leaves as it is when the process is not stepped.\<close>

definition quiet :: "'k host \<Rightarrow> (int \<Rightarrow> 'k \<Rightarrow> 'e option) \<Rightarrow> 'k sys \<Rightarrow> user_regs \<Rightarrow> 'e \<Rightarrow> 'k sys \<Rightarrow> bool" where
  "quiet H env_of s g e t \<longleftrightarrow> same_table (sdb s) (sdb t) \<and>
     h_maps H (pid (sdb s)) (os t) = h_maps H (pid (sdb s)) (os s) \<and>
     h_getregs H (pid (sdb s)) (os t) = Some g \<and> env_of (pid (sdb s)) (os t) = Some e"

context cpu_host
begin

lemma plant_word_quiet:
  assumes "plant_word H i a t = Inr r" "quiet H env_of s g e t"
  shows "quiet H env_of s g e (flow_state r)"
proof -
  have "pid (sdb t) = pid (sdb s)" using assms(2) by (simp add: quiet_def same_table_def)
  moreover have "same_table (sdb s) (sdb (flow_state r))"
    using plant_word_same_table [OF assms(1)] assms(2) by (auto simp: quiet_def intro: same_table_trans)
  ultimately show ?thesis
    using assms by (auto simp: plant_word_def quiet_def Let_def split_beta poke_maps poke_regs poke_env split: if_splits)
qed

lemma patch_bp_quiet:
  assumes "patch_bp H j t = Inr r" "quiet H env_of s g e t" "wf_sdb (sdb s)" "j < MAX_BREAK"
    and "used_at s j \<Longrightarrow> rip g \<noteq> live_of H s j"
  shows "quiet H env_of s g e (flow_state r)"
proof -
  have t: "same_table (sdb s) (sdb t)" "h_maps H (pid (sdb s)) (os t) = h_maps H (pid (sdb s)) (os s)"
    "h_getregs H (pid (sdb t)) (os t) = Some g" using assms(2) by (simp_all add: quiet_def same_table_def)
  have len: "length (breaks (sdb t)) = MAX_BREAK" using same_table_wf [OF t(1)] assms(3) by (simp add: wf_sdb_def)
  note same = same_table_live [OF t(1) assms(3) t(2) assms(4)]
  show ?thesis
  proof (cases "used_at s j")
    case False
    with assms(1,2,4) same(1) len show ?thesis by (auto simp: patch_bp_def used_at_def)
  next
    case True
    with assms(1,4) t(3) len same(1) obtain a where a: "live_addr H t (bp_addr (breaks (sdb t) ! j)) = Inr a"
        "(if rip g = a then thenR (step_over H t) (plant_word H j a) else plant_word H j a t) = Inr r"
      by (auto simp: patch_bp_def used_at_def thenR_eq_Inr split: if_splits)
    have "rip g \<noteq> a" using a(1) assms(5) [OF True] same(4) by (simp add: live_of_def)
    with a(2) plant_word_quiet [OF _ assms(2)] show ?thesis by simp
  qed
qed

lemma range_quiet:
  assumes "for_upto (patch_bp H) i n t = Inr r" "quiet H env_of s g e t" "wf_sdb (sdb s)" "i + n \<le> MAX_BREAK"
    and "\<And>j. i \<le> j \<Longrightarrow> j < i + n \<Longrightarrow> used_at s j \<Longrightarrow> rip g \<noteq> live_of H s j"
  shows "quiet H env_of s g e (flow_state r)"
proof (rule for_upto_invariant [OF assms(1), of "quiet H env_of s g e", OF assms(2)])
  fix j u r
  assume j: "i \<le> j" "j < i + n" "quiet H env_of s g e u" "patch_bp H j u = Inr r"
  then show "quiet H env_of s g e (flow_state r)"
    using assms(4,5) by (intro patch_bp_quiet [OF j(4,3) assms(3)]) auto
qed

lemma not_standing: "separated H s \<Longrightarrow> i < MAX_BREAK \<Longrightarrow> used_at s i \<Longrightarrow> j < i \<Longrightarrow> used_at s j \<Longrightarrow>
    live_of H s i \<noteq> live_of H s j"
  using not_planted_before [of H s i] by (auto simp: planted_def)

text \<open>The code at the breakpoints while the program runs.\<close>

lemma same_code_goes: "cpu \<sigma> = Goes \<sigma>1 \<Longrightarrow> planted H s MAX_BREAK \<subseteq> sites \<Longrightarrow> same_code H s (p_mem \<sigma>) (p_mem \<sigma>1)"
  using cpu_code by (auto simp: same_code_def planted_def)

lemma same_code_runs:
  assumes "planted H s MAX_BREAK \<subseteq> sites"
  shows "runs_to cpu B \<sigma> r \<Longrightarrow> r = Inr \<sigma>' \<Longrightarrow> same_code H s (p_mem \<sigma>) (p_mem \<sigma>')"
proof (induction rule: runs_to.induct)
  case (Move \<sigma> \<sigma>1 r)
  then have "same_code H s (p_mem \<sigma>) (p_mem \<sigma>1)" "same_code H s (p_mem \<sigma>1) (p_mem \<sigma>')"
    using same_code_goes [OF _ assms] by blast+
  then show ?case by (simp add: same_code_def)
qed simp_all

subsection \<open>Leaving a breakpoint\<close>

lemma prefix_planted:
  assumes deb: "debugged H mem_of (p_mem \<sigma>) B s"
    and proc: "process_at H mem_of env_of (pid (sdb s)) (os s) B \<sigma>"
    and i: "i \<le> MAX_BREAK" "\<And>j. j < i \<Longrightarrow> used_at s j \<Longrightarrow> pc \<sigma> \<noteq> live_of H s j"
  shows "\<exists>t. for_upto (patch_bp H) 0 i s = Inr (Next t) \<and> quiet H env_of s (p_regs \<sigma>) (p_env \<sigma>) t \<and>
    process_at H mem_of env_of (pid (sdb s)) (os t) (planted H s i \<union> B) \<sigma>"
proof -
  let ?m = "with_int3 B (p_mem \<sigma>)"
  have live: "entry_live H ?m s" and mem: "mem_of (pid (sdb s)) (os s) = ?m" and wf: "wf_sdb (sdb s)"
    using deb entry_live_with_int3 [of "p_mem \<sigma>" s B] by (auto simp: debugged_def well_placed_def entry_live_def)
  have g: "h_getregs H (pid (sdb s)) (os s) = Some (p_regs \<sigma>)" "env_of (pid (sdb s)) (os s) = Some (p_env \<sigma>)"
    using proc by (simp_all add: process_at_def)
  have "not_standing_at H s (os s) j" if "j < i" for j
    using i(2) [OF that] g by (simp add: not_standing_at_def)
  with patch_range [OF live, of 0 i "os s" s] i(1) mem obtain t where
    t: "for_upto (patch_bp H) 0 i s = Inr (Next t)" "mem_of (pid (sdb s)) (os t) = with_int3 (planted H s i) ?m"
    by (auto simp: patched_to_0)
  have "quiet H env_of s (p_regs \<sigma>) (p_env \<sigma>) s" using g by (simp add: quiet_def)
  from range_quiet [OF t(1) this wf] i have "quiet H env_of s (p_regs \<sigma>) (p_env \<sigma>) t" by simp
  with t show ?thesis by (simp add: process_at_def quiet_def with_int3_Un)
qed

text \<open>
  At a breakpoint the loop comes to its entry with the breakpoints before it planted, and
  steps the process over it.
\<close>

lemma step_body:
  assumes deb: "debugged H mem_of (p_mem \<sigma>) B s" and i: "i < MAX_BREAK" "used_at s i" "pc \<sigma> = live_of H s i"
    and t: "quiet H env_of s (p_regs \<sigma>) (p_env \<sigma>) t" "patch_bp H i t = Inr r"
    and k: "h_singlestep H (pid (sdb s)) (os t) = (ok, k1)" "h_waitpid H (pid (sdb s)) k1 = (Waited st, k2)"
      "h_getregs H (pid (sdb s)) k2 = Some g" "env_of (pid (sdb s)) k2 = Some e"
      "h_maps H (pid (sdb s)) k2 = h_maps H (pid (sdb s)) (os t)"
  shows "plant_word H i (live_of H s i) (t\<lparr>os := k2\<rparr>) = Inr r" "quiet H env_of s g e (t\<lparr>os := k2\<rparr>)"
proof -
  have live: "entry_live H (p_mem \<sigma>) s" using deb by (simp add: debugged_def well_placed_def)
  then have wf: "wf_sdb (sdb s)" by (simp add: entry_live_def)
  have q: "same_table (sdb s) (sdb t)" "h_maps H (pid (sdb s)) (os t) = h_maps H (pid (sdb s)) (os s)"
    "h_getregs H (pid (sdb s)) (os t) = Some (p_regs \<sigma>)" using t(1) by (simp_all add: quiet_def)
  have pid: "pid (sdb t) = pid (sdb s)" using q(1) by (simp add: same_table_def)
  have len: "i < length (breaks (sdb t))" using same_table_wf [OF q(1)] wf i(1) by (simp add: wf_sdb_def)
  note same = same_table_live [OF q(1) wf q(2) i(1)]
  have "live_addr H t (bp_addr (breaks (sdb t) ! i)) = Inr (live_of H s i)"
    using live i(1,2) same(2,3) by (simp add: entry_live_def)
  then have "patch_bp H i t = thenR (step_over H t) (plant_word H i (live_of H s i))"
    using i q(3) len same(1) by (simp add: patch_bp_def used_at_def pid)
  then show "plant_word H i (live_of H s i) (t\<lparr>os := k2\<rparr>) = Inr r"
    using t(2) k(1,2) by (simp add: step_over_def pid)
  show "quiet H env_of s g e (t\<lparr>os := k2\<rparr>)" using q k by (simp add: quiet_def)
qed

lemma rest_quiet:
  assumes wf: "wf_sdb (sdb s)" and i: "i < MAX_BREAK"
    and t: "for_upto (patch_bp H) 0 i s = Inr (Next t)" "sdb_patch_all_bp H s = Inr u"
    and body: "\<And>r. patch_bp H i t = Inr r \<Longrightarrow> quiet H env_of s g e (flow_state r)"
    and away: "\<And>j. i < j \<Longrightarrow> j < MAX_BREAK \<Longrightarrow> used_at s j \<Longrightarrow> rip g \<noteq> live_of H s j"
  shows "quiet H env_of s g e u"
proof -
  obtain r where r: "for_upto (patch_bp H) 0 (i + Suc (MAX_BREAK - Suc i)) s = Inr r" "u = flow_state r"
    using t(2) i by (auto simp: sdb_patch_all_bp_def thenR_eq_Inr)
  then obtain r1 where r1: "patch_bp H i t = Inr r1"
      "r = r1 \<or> (\<exists>t1. r1 = Next t1 \<and> for_upto (patch_bp H) (Suc i) (MAX_BREAK - Suc i) t1 = Inr r)"
    unfolding for_upto_split by (auto simp: t(1) split: sum.splits flow.splits)
  from r1(2) show ?thesis
  proof
    assume "r = r1"
    with body [OF r1(1)] r(2) show ?thesis by simp
  next
    assume "\<exists>t1. r1 = Next t1 \<and> for_upto (patch_bp H) (Suc i) (MAX_BREAK - Suc i) t1 = Inr r"
    then obtain t1 where t1: "r1 = Next t1" "for_upto (patch_bp H) (Suc i) (MAX_BREAK - Suc i) t1 = Inr r" by blast
    then have "quiet H env_of s g e t1" using body [OF r1(1)] by simp
    from range_quiet [OF t1(2) this wf] i away show ?thesis by (simp add: r(2))
  qed
qed

lemma departs_planted:
  assumes pau: "paused H mem_of env_of sites \<sigma> s" and dep: "departs cpu (planted H s MAX_BREAK) \<sigma> \<sigma>1"
    and ord: "orderly H cpu s \<sigma>"
  shows "\<exists>t. sdb_patch_all_bp H s = Inr t \<and> same_table (sdb s) (sdb t) \<and>
    h_maps H (pid (sdb s)) (os t) = h_maps H (pid (sdb s)) (os s) \<and>
    debugged H mem_of (p_mem \<sigma>1) (planted H t MAX_BREAK) t \<and>
    process_at H mem_of env_of (pid (sdb s)) (os t) (planted H t MAX_BREAK) \<sigma>1"
proof -
  let ?p = "pid (sdb s)" and ?B = "planted H s MAX_BREAK"
  obtain A where A: "debugged H mem_of (p_mem \<sigma>) A s" "process_at H mem_of env_of ?p (os s) A \<sigma>" "pc \<sigma> \<notin> A"
    and sub: "?B \<subseteq> sites" using pau by (auto simp: paused_def)
  have AB: "A \<subseteq> ?B" and sep: "separated H s" and wf: "wf_sdb (sdb s)"
    using A(1) by (simp_all add: debugged_def well_placed_def entry_live_def)
  have g: "h_getregs H ?p (os s) = Some (p_regs \<sigma>)" "env_of ?p (os s) = Some (p_env \<sigma>)"
    using A(2) by (simp_all add: process_at_def)
  have finish: ?thesis
    if t: "sdb_patch_all_bp H s = Inr t" "debugged H mem_of (p_mem \<sigma>1) (planted H t MAX_BREAK) t"
      and q: "quiet H env_of s (p_regs \<sigma>1) (p_env \<sigma>1) t" for t
  proof -
    have "pid (sdb t) = ?p" using q by (simp add: quiet_def same_table_def)
    then have "process_at H mem_of env_of ?p (os t) (planted H t MAX_BREAK) \<sigma>1"
      using t(2) q by (simp add: process_at_def quiet_def debugged_def)
    with t q show ?thesis by (auto simp: quiet_def)
  qed
  show ?thesis
  proof (cases "pc \<sigma> \<in> ?B")
    case False
    then have away: "pc \<sigma> \<noteq> live_of H s j" if "j < MAX_BREAK" "used_at s j" for j using that by (auto simp: planted_def)
    then have "\<forall>i<MAX_BREAK. not_standing_at H s (os s) i" using g by (simp add: not_standing_at_def)
    from patch_debugged [OF A(1) this] obtain t where
      t: "sdb_patch_all_bp H s = Inr t" "debugged H mem_of (p_mem \<sigma>) (planted H t MAX_BREAK) t" by blast
    obtain r where r: "for_upto (patch_bp H) 0 MAX_BREAK s = Inr r" "t = flow_state r"
      using t(1) by (auto simp: sdb_patch_all_bp_def thenR_eq_Inr)
    have "quiet H env_of s (p_regs \<sigma>) (p_env \<sigma>) s" using g by (simp add: quiet_def)
    from range_quiet [OF r(1) this wf] away have "quiet H env_of s (p_regs \<sigma>) (p_env \<sigma>) t" by (simp add: r(2))
    moreover have "\<sigma>1 = \<sigma>" using dep False by (simp add: departs_def)
    ultimately show ?thesis using finish [OF t(1)] t(2) by simp
  next
    case True
    then obtain i where i: "i < MAX_BREAK" "used_at s i" "pc \<sigma> = live_of H s i" by (auto simp: planted_def)
    have go: "cpu \<sigma> = Goes \<sigma>1" using dep True by (simp add: departs_def)
    have before: "pc \<sigma> \<noteq> live_of H s j" if "j < i" "used_at s j" for j using not_standing [OF sep i(1,2) that] i(3) by simp
    have after: "pc \<sigma>1 \<noteq> live_of H s k" if "i < k" "k < MAX_BREAK" "used_at s k" for k
      using ord that i go by (auto simp: orderly_def)
    have C: "planted H s i \<union> A \<subseteq> sites" "pc \<sigma> \<notin> planted H s i \<union> A"
      using planted_mono [of i H s] i AB sub A(3) not_planted_before [OF sep i(1,2)] by auto
    obtain t0 where t0: "for_upto (patch_bp H) 0 i s = Inr (Next t0)" "quiet H env_of s (p_regs \<sigma>) (p_env \<sigma>) t0"
        "process_at H mem_of env_of ?p (os t0) (planted H s i \<union> A) \<sigma>"
      using prefix_planted [OF A(1,2), of i] i(1) before by auto
    obtain ok st k1 k2 where k: "h_singlestep H ?p (os t0) = (ok, k1)" "h_waitpid H ?p k1 = (Waited st, k2)"
        "process_at H mem_of env_of ?p k2 (planted H s i \<union> A) \<sigma>1" "h_maps H ?p k2 = h_maps H ?p (os t0)"
      using step_goes [OF t0(3) C go] by blast
    have k2: "h_getregs H ?p k2 = Some (p_regs \<sigma>1)" "env_of ?p k2 = Some (p_env \<sigma>1)" using k(3) by (simp_all add: process_at_def)
    have "steps_to H mem_of ?p (os t) (planted H s i \<union> A) (p_mem \<sigma>1) (p_regs \<sigma>1)"
      if "for_upto (patch_bp H) 0 i s = Inr (Next t)" for t
      using that t0(1) k unfolding steps_to_def process_at_def by auto
    from patch_rearms [OF A(1) i(1,2) g(1) i(3) this same_code_goes [OF go sub] after] obtain t where
      t: "sdb_patch_all_bp H s = Inr t" "debugged H mem_of (p_mem \<sigma>1) (planted H t MAX_BREAK) t" by blast
    have "quiet H env_of s (p_regs \<sigma>1) (p_env \<sigma>1) (flow_state r)" if "patch_bp H i t0 = Inr r" for r
      using step_body [OF A(1) i t0(2) that k(1,2) k2 k(4)] plant_word_quiet by blast
    from rest_quiet [OF wf i(1) t0(1) t(1) this after] finish [OF t] show ?thesis by simp
  qed
qed

subsection \<open>The command \<open>cont\<close>\<close>

lemma cont_visits:
  assumes pau: "paused H mem_of env_of sites \<sigma> s" and dep: "departs cpu (planted H s MAX_BREAK) \<sigma> \<sigma>1"
    and ord: "orderly H cpu s \<sigma>" and run: "runs_to cpu (planted H s MAX_BREAK) \<sigma>1 (Inr \<sigma>')"
  shows "\<exists>s'. sdb_cont H s = Some (Inr s') \<and> same_table (sdb s) (sdb s') \<and>
    h_maps H (pid (sdb s)) (os s') = h_maps H (pid (sdb s)) (os s) \<and> paused H mem_of env_of sites \<sigma>' s'"
proof -
  let ?p = "pid (sdb s)" and ?B = "planted H s MAX_BREAK"
  have s: "sdb_is_running (sdb s)" "all_live H s" "?B \<subseteq> sites"
      "\<And>j. j < MAX_BREAK \<Longrightarrow> used_at s j \<Longrightarrow> insn_fits H j (live_of H s j)" "wf_sdb (sdb s)"
    using pau by (auto simp: paused_def debugged_def well_placed_def entry_live_def)
  obtain t where t: "sdb_patch_all_bp H s = Inr t" "same_table (sdb s) (sdb t)"
      "h_maps H ?p (os t) = h_maps H ?p (os s)" "debugged H mem_of (p_mem \<sigma>1) (planted H t MAX_BREAK) t"
      "process_at H mem_of env_of ?p (os t) (planted H t MAX_BREAK) \<sigma>1"
    using departs_planted [OF pau dep ord] by blast
  note same = same_table_live [OF t(2) s(5) t(3)] and live = all_live_same [OF t(2) s(5,2) t(3)]
  have pid: "pid (sdb t) = ?p" using t(2) by (simp add: same_table_def)
  have B: "planted H t MAX_BREAK = ?B" unfolding planted_def using same by (intro image_cong) auto
  obtain j where j: "j < MAX_BREAK" "used_at s j" "pc \<sigma>' = live_of H s j"
    using runs_to_arrives [OF run refl] by (auto simp: planted_def)
  obtain st k2 where k: "h_waitpid H ?p (h_cont H ?p (os t)) = (Waited st, k2)" "WIFSTOPPED st"
      "process_at H mem_of env_of ?p k2 ?B (\<sigma>'\<lparr>p_regs := (p_regs \<sigma>')\<lparr>rip := pc \<sigma>' + 1\<rparr>\<rparr>)" "h_maps H ?p k2 = h_maps H ?p (os t)"
    using cont_stops [OF t(5) _ run [folded B]] s(3) by (auto simp: B)
  have into: "runs_into H mem_of t (p_mem \<sigma>') j ((p_regs \<sigma>')\<lparr>rip := pc \<sigma>' + 1\<rparr>)"
    using k j same by (auto simp: runs_into_def process_at_def pid B)
  have code: "same_code H t (p_mem \<sigma>1) (p_mem \<sigma>')"
    using same_code_runs [of t, OF _ run refl] s(3) by (simp add: B)
  have fits: "insn_fits H j (live_of H t j)" and used: "used_at t j" using s(4) [OF j(1,2)] j same by simp_all
  obtain s' where s': "resume H None t = Some (Inr s')" "sdb s' = sdb t"
      "stopped_at H mem_of (p_mem \<sigma>') j ((p_regs \<sigma>')\<lparr>rip := pc \<sigma>' + 1, rip := live_of H t j\<rparr>) s'"
      "\<exists>st k2 r a w. h_waitpid H ?p (h_cont H ?p (os t)) = (Waited st, k2) \<and>
         os s' = snd (h_setregs H ?p r (snd (h_poke H ?p a w k2)))"
    using stop_at_breakpoint [OF t(4) live j(1) used fits into code, of None] unfolding pid by blast
  then obtain r a w where os': "os s' = snd (h_setregs H ?p r (snd (h_poke H ?p a w k2)))" using k(1) by auto
  have maps: "h_maps H ?p (os s') = h_maps H ?p (os s)" by (simp add: os' setregs_maps poke_maps k(4) t(3))
  have env: "env_of ?p (os s') = Some (p_env \<sigma>')" using k(3) by (simp add: os' setregs_env poke_env process_at_def)
  have st: "same_table (sdb s) (sdb s')" using t(2) s'(2) by simp
  note same' = same_table_live [OF st s(5) maps]
  have B': "planted H s' MAX_BREAK = ?B" unfolding planted_def using same' by (intro image_cong) auto
  have "p_regs \<sigma>'\<lparr>rip := pc \<sigma>' + 1, rip := live_of H t j\<rparr> = p_regs \<sigma>'" using j same by simp
  then have stop: "stopped_at H mem_of (p_mem \<sigma>') j (p_regs \<sigma>') s'" using s'(3) by simp
  then have deb: "debugged H mem_of (p_mem \<sigma>') (?B - {pc \<sigma>'}) s'" using j same' by (simp add: stopped_at_def B')
  moreover have "process_at H mem_of env_of (pid (sdb s')) (os s') (?B - {pc \<sigma>'}) \<sigma>'"
    using stop deb env by (simp add: process_at_def stopped_at_def debugged_def s'(2) pid)
  ultimately have "paused H mem_of env_of sites \<sigma>' s'"
    using s stop same' by (auto simp: paused_def B' stopped_at_def s'(2) sdb_is_running_def pid)
  then show ?thesis using s(1) s'(1) st maps t(1) by (simp add: sdb_cont_def)
qed

lemma cont_ends:
  assumes pau: "paused H mem_of env_of sites \<sigma> s" and dep: "departs cpu (planted H s MAX_BREAK) \<sigma> \<sigma>1"
    and ord: "orderly H cpu s \<sigma>" and run: "runs_to cpu (planted H s MAX_BREAK) \<sigma>1 (Inl c)"
  shows "\<exists>s' o'. sdb_cont H s = Some (Inr s') \<and> \<not> sdb_is_running (sdb s') \<and> bp_table (sdb s') = bp_table (sdb s) \<and>
    out s' = o' @ [Stdout (''** child process '' @ show_d (pid (sdb s)) @
      (if c = 0 then '' terminated normally (code '' else '' exited with error (code '') @
      show_d (256 * int c) @ '')'' @ newline)]"
proof -
  let ?p = "pid (sdb s)"
  have s: "sdb_is_running (sdb s)" "planted H s MAX_BREAK \<subseteq> sites" "wf_sdb (sdb s)"
    using pau by (auto simp: paused_def debugged_def well_placed_def entry_live_def)
  obtain t where t: "sdb_patch_all_bp H s = Inr t" "same_table (sdb s) (sdb t)"
      "h_maps H ?p (os t) = h_maps H ?p (os s)"
      "process_at H mem_of env_of ?p (os t) (planted H t MAX_BREAK) \<sigma>1"
    using departs_planted [OF pau dep ord] by blast
  note same = same_table_live [OF t(2) s(3) t(3)]
  have B: "planted H t MAX_BREAK = planted H s MAX_BREAK" unfolding planted_def using same by (intro image_cong) auto
  obtain k1 k2 where "h_waitpid H ?p (h_cont H ?p (os t)) = (Waited (of_nat (256 * c)), k1)" "c < 256"
      "h_waitpid H ?p k1 = (Wait_Error, k2)"
    using cont_exits [OF t(4) _ run [folded B]] s(2) by (auto simp: B)
  with cont_reports_exit_eq [OF s(1) t(1)] show ?thesis by blast
qed

end

subsection \<open>The command line\<close>

definition cont_line :: string where
  "cont_line = ''cont'' @ newline"

lemma cont_line_step:
  "main_step V cont_line m =
     map_option (map_sum id (\<lambda>s. Next \<lparr>command = Some ''cont'', dbg = s\<rparr>)) (sdb_cont (host_of V) (printf ''sdb> '' (dbg m)))"
proof -
  have "word_of_line ''cont''" by (simp add: word_of_line_def c_space_def)
  then have sc: "scan_command (''cont'' @ newline) old = Inr (''cont'', newline)" for old
    using scan_line(2) [of "''cont''"] by simp
  have "dispatch V ''cont'' newline s = sdb_cont (host_of V) s" for s by (simp add: dispatch_def)
  then show ?thesis by (simp add: main_step_def cont_line_def sc is_exit_def del: append_Cons)
qed

lemma emit_live: "live_addr H (emit ev s) a = live_addr H s a" "live_of H (emit ev s) i = live_of H s i"
    "used_at (emit ev s) i = used_at s i" "planted H (emit ev s) n = planted H s n"
proof -
  show l: "live_addr H (emit ev s) a = live_addr H s a" for a by (rule live_addr_cong) simp_all
  show o: "live_of H (emit ev s) i = live_of H s i" for i by (simp add: live_of_def l)
  show u: "used_at (emit ev s) i = used_at s i" for i by (simp add: used_at_def)
  show "planted H (emit ev s) n = planted H s n" by (simp add: planted_def o u)
qed

lemma paused_emit: "paused H mem_of env_of sites \<sigma> (emit ev s) = paused H mem_of env_of sites \<sigma> s"
  by (simp add: paused_def all_live_def debugged_def armed_def well_placed_def entry_live_def separated_def
      clean_code_def emit_live)

lemma orderly_emit: "orderly H cpu (emit ev s) \<sigma> = orderly H cpu s \<sigma>"
  by (simp add: orderly_def emit_live)

text \<open>Two states of the debugger with the same breakpoints in the same process.\<close>

definition same_breaks :: "'k host \<Rightarrow> 'k sys \<Rightarrow> 'k sys \<Rightarrow> bool" where
  "same_breaks H s t \<longleftrightarrow> bp_table (sdb t) = bp_table (sdb s) \<and> pid (sdb t) = pid (sdb s) \<and>
     (\<forall>j<MAX_BREAK. used_at t j = used_at s j \<and> live_of H t j = live_of H s j)"

lemma same_breaks_trans: "same_breaks H s t \<Longrightarrow> same_breaks H t u \<Longrightarrow> same_breaks H s u"
  by (simp add: same_breaks_def)

lemma same_breaks_planted: "same_breaks H s t \<Longrightarrow> planted H t MAX_BREAK = planted H s MAX_BREAK"
  unfolding planted_def by (intro image_cong) (auto simp: same_breaks_def)

lemma same_breaks_orderly: "same_breaks H s t \<Longrightarrow> orderly H cpu t \<sigma> = orderly H cpu s \<sigma>"
proof -
  have "orderly H cpu v \<sigma>" if "same_breaks H u v" "orderly H cpu u \<sigma>" for u v
    using that(2) that(1) [unfolded same_breaks_def] unfolding orderly_def by auto
  moreover have "same_breaks H t s" if "same_breaks H s t" using that by (simp add: same_breaks_def)
  ultimately show "same_breaks H s t \<Longrightarrow> ?thesis" by blast
qed

lemma same_breaks_emit: "same_breaks H (emit ev s) t = same_breaks H s t"
  by (simp add: same_breaks_def emit_live)

lemma same_breaksI:
  assumes "same_table (sdb s) (sdb t)" "wf_sdb (sdb s)" "h_maps H (pid (sdb s)) (os t) = h_maps H (pid (sdb s)) (os s)"
  shows "same_breaks H s t"
  using same_table_live [OF assms] same_table_bp_table [OF assms(1)] assms(1) by (simp add: same_breaks_def same_table_def)

lemma paused_wf: "paused H mem_of env_of sites \<sigma> s \<Longrightarrow> wf_sdb (sdb s)"
  by (auto simp: paused_def debugged_def well_placed_def entry_live_def)

lemma cont_line_visits:
  assumes host: "cpu_host H mem_of env_of cpu sites" "host_of V = H"
    and "paused H mem_of env_of sites \<sigma> (dbg m)" "orderly H cpu (dbg m) \<sigma>"
    and "departs cpu (planted H (dbg m) MAX_BREAK) \<sigma> \<sigma>1" "runs_to cpu (planted H (dbg m) MAX_BREAK) \<sigma>1 (Inr \<sigma>')"
  shows "\<exists>m1. main_step V cont_line m = Some (Inr (Next m1)) \<and> paused H mem_of env_of sites \<sigma>' (dbg m1) \<and>
    same_breaks H (dbg m) (dbg m1)"
proof -
  let ?s = "printf ''sdb> '' (dbg m)"
  have s: "paused H mem_of env_of sites \<sigma> ?s" "planted H ?s MAX_BREAK = planted H (dbg m) MAX_BREAK" "orderly H cpu ?s \<sigma>"
    using assms(3,4) by (simp_all add: paused_emit emit_live orderly_emit)
  from cpu_host.cont_visits [OF host(1) s(1) _ s(3), unfolded s(2), OF assms(5,6)] obtain s' where
    s': "sdb_cont H ?s = Some (Inr s')" "same_table (sdb ?s) (sdb s')"
      "h_maps H (pid (sdb ?s)) (os s') = h_maps H (pid (sdb ?s)) (os ?s)" "paused H mem_of env_of sites \<sigma>' s'" by blast
  have "same_breaks H (dbg m) s'" using same_breaksI [OF s'(2) paused_wf [OF s(1)] s'(3)] by (simp add: same_breaks_emit)
  then show ?thesis using s'(1,4) by (simp add: cont_line_step host(2))
qed

text \<open>What \<open>n\<close> lines \<open>cont\<close> lead to.\<close>

definition conts_show ::
  "'k host \<Rightarrow> (int \<Rightarrow> 'k \<Rightarrow> mem) \<Rightarrow> (int \<Rightarrow> 'k \<Rightarrow> 'e option) \<Rightarrow> u64 set \<Rightarrow> 'k env \<Rightarrow> 'k session \<Rightarrow>
     'e process list \<Rightarrow> nat option \<Rightarrow> bool" where
  "conts_show H mem_of env_of sites V m \<sigma>s e \<longleftrightarrow>
     (\<forall>n<length \<sigma>s. \<exists>m'. main_loop V (replicate n cont_line) m = Some (Inr (Next m')) \<and>
        bp_table (sdb (dbg m')) = bp_table (sdb (dbg m)) \<and> paused H mem_of env_of sites (\<sigma>s ! n) (dbg m')) \<and>
     (\<forall>c. e = Some c \<longrightarrow> (\<exists>m' o'. main_loop V (replicate (length \<sigma>s) cont_line) m = Some (Inr (Next m')) \<and>
        bp_table (sdb (dbg m')) = bp_table (sdb (dbg m)) \<and> \<not> sdb_is_running (sdb (dbg m')) \<and>
        out (dbg m') = o' @ [Stdout (''** child process '' @ show_d (pid (sdb (dbg m))) @
          (if c = 0 then '' terminated normally (code '' else '' exited with error (code '') @
          show_d (256 * int c) @ '')'' @ newline)]))"

lemma conts_show_Cons:
  assumes "main_step V cont_line m = Some (Inr (Next m1))" "conts_show H mem_of env_of sites V m1 \<sigma>s e"
    and "bp_table (sdb (dbg m1)) = bp_table (sdb (dbg m))" "pid (sdb (dbg m1)) = pid (sdb (dbg m))"
    and "paused H mem_of env_of sites \<sigma> (dbg m)"
  shows "conts_show H mem_of env_of sites V m (\<sigma> # \<sigma>s) e"
  unfolding conts_show_def
proof (intro conjI allI impI)
  fix n assume "n < length (\<sigma> # \<sigma>s)"
  with assms show "\<exists>m'. main_loop V (replicate n cont_line) m = Some (Inr (Next m')) \<and>
      bp_table (sdb (dbg m')) = bp_table (sdb (dbg m)) \<and> paused H mem_of env_of sites ((\<sigma> # \<sigma>s) ! n) (dbg m')"
    by (cases n) (auto simp: conts_show_def)
qed (use assms in \<open>simp add: conts_show_def\<close>)

lemma conts_visits:
  assumes host: "cpu_host H mem_of env_of cpu sites" "host_of V = H"
  shows "visits cpu B \<sigma> vs e \<Longrightarrow> paused H mem_of env_of sites \<sigma> (dbg m) \<Longrightarrow> planted H (dbg m) MAX_BREAK = B \<Longrightarrow>
    \<forall>\<sigma>'\<in>set (\<sigma> # vs). orderly H cpu (dbg m) \<sigma>' \<Longrightarrow> conts_show H mem_of env_of sites V m (\<sigma> # vs) e"
proof (induction arbitrary: m rule: visits.induct)
  case (Here \<sigma>)
  then show ?case by (simp add: conts_show_def)
next
  case (Exit \<sigma> \<sigma>1 c)
  let ?s = "printf ''sdb> '' (dbg m)"
  have "paused H mem_of env_of sites \<sigma> ?s" "planted H ?s MAX_BREAK = B" "orderly H cpu ?s \<sigma>"
    using Exit.prems by (simp_all add: paused_emit emit_live orderly_emit)
  from cpu_host.cont_ends [OF host(1) this(1) _ this(3), unfolded this(2), OF Exit.hyps] Exit.prems(1) show ?case
    by (auto simp: conts_show_def cont_line_step host(2))
next
  case (Visit \<sigma> \<sigma>1 \<sigma>' vs e)
  then obtain m1 where m1: "main_step V cont_line m = Some (Inr (Next m1))" "paused H mem_of env_of sites \<sigma>' (dbg m1)"
      "same_breaks H (dbg m) (dbg m1)"
    using cont_line_visits [OF host, of \<sigma> m \<sigma>1 \<sigma>'] by auto
  then have "conts_show H mem_of env_of sites V m1 (\<sigma>' # vs) e"
    using Visit.IH [OF m1(2)] Visit.prems(2,3) by (simp add: same_breaks_planted [OF m1(3)] same_breaks_orderly [OF m1(3)])
  then show ?case
    using conts_show_Cons [OF m1(1)] m1(3) Visit.prems(1) by (simp add: same_breaks_def)
qed

text \<open>
  C2: the debugger follows the program.  The program, run without a debugger from the state
  \<open>\<sigma>\<close>, comes to the breakpoint addresses in the states \<open>vs\<close>, one after the other, and then,
  where \<open>e = Some c\<close>, ends with exit code \<open>c\<close>.  A session that holds the process in \<open>\<sigma>\<close> shows
  exactly these states: after \<open>n\<close> lines \<open>cont\<close> the process stands in the \<open>n\<close>-th of them, its
  registers and memory those of the undebugged program (but for the planted bytes); one more
  line than there are states reports the end of the process, with \<open>256 * c\<close> as its code.
  None of the commands fails or runs for ever.  The program must not go from one breakpoint
  straight to one with a higher number (\<open>orderly\<close>).
\<close>

theorem conts_follow_program:
  assumes "cpu_host H mem_of env_of cpu sites" "host_of V = H" "paused H mem_of env_of sites \<sigma> (dbg m)"
    and "visits cpu (planted H (dbg m) MAX_BREAK) \<sigma> vs e" "\<forall>\<sigma>'\<in>set (\<sigma> # vs). orderly H cpu (dbg m) \<sigma>'"
  shows "(\<forall>n\<le>length vs. \<exists>m'. main_loop V (replicate n cont_line) m = Some (Inr (Next m')) \<and>
        bp_table (sdb (dbg m')) = bp_table (sdb (dbg m)) \<and> paused H mem_of env_of sites ((\<sigma> # vs) ! n) (dbg m')) \<and>
    (\<forall>c. e = Some c \<longrightarrow> (\<exists>m' o'. main_loop V (replicate (Suc (length vs)) cont_line) m = Some (Inr (Next m')) \<and>
        bp_table (sdb (dbg m')) = bp_table (sdb (dbg m)) \<and> \<not> sdb_is_running (sdb (dbg m')) \<and>
        out (dbg m') = o' @ [Stdout (''** child process '' @ show_d (pid (sdb (dbg m))) @
          (if c = 0 then '' terminated normally (code '' else '' exited with error (code '') @
          show_d (256 * int c) @ '')'' @ newline)]))"
  using conts_visits [OF assms(1,2,4,3) refl assms(5)] by (simp add: conts_show_def less_Suc_eq_le)

subsection \<open>From one breakpoint straight to another\<close>

context cpu_host
begin

lemma patch_bp_planted:
  assumes "quiet H env_of s g e t" "wf_sdb (sdb s)" "j < MAX_BREAK"
    and "used_at s j \<Longrightarrow> live_addr H s (bp_addr (breaks (sdb s) ! j)) = Inr (live_of H s j) \<and>
      rip g \<noteq> live_of H s j \<and> mapped_word (mem_of (pid (sdb s)) (os t)) (live_of H s j) \<and>
      mem_of (pid (sdb s)) (os t) (live_of H s j) = Some 0xcc"
  shows "patch_bp H j t = Inr (Next t)"
proof -
  have t: "same_table (sdb s) (sdb t)" "h_maps H (pid (sdb s)) (os t) = h_maps H (pid (sdb s)) (os s)"
    "h_getregs H (pid (sdb t)) (os t) = Some g" "pid (sdb t) = pid (sdb s)" using assms(1) by (simp_all add: quiet_def same_table_def)
  have len: "length (breaks (sdb t)) = MAX_BREAK" using same_table_wf [OF t(1)] assms(2) by (simp add: wf_sdb_def)
  note same = same_table_live [OF t(1) assms(2) t(2) assms(3)]
  show ?thesis
  proof (cases "used_at s j")
    case False
    with assms(3) same(1) len show ?thesis by (simp add: patch_bp_def used_at_def)
  next
    case True
    let ?a = "live_of H s j" and ?w = "peek_value H (pid (sdb s)) (live_of H s j) (os t)"
    note a = assms(4) [OF True]
    have "read_word (mem_of (pid (sdb s)) (os t)) ?a = Some ?w" using a peek_value_mapped by blast
    from read_word_byte [OF this] a have "?w AND 0xff = 0xcc" by (simp add: low_byte_eq)
    then have "plant_word H j ?a t = Inr (Next t)" by (simp add: plant_word_def t(4))
    moreover have "live_addr H t (bp_addr (breaks (sdb t) ! j)) = Inr ?a" using a same(2,3) by simp
    ultimately show ?thesis using True a assms(3) t(3) len same(1) by (simp add: patch_bp_def used_at_def)
  qed
qed

lemma step_planted:
  assumes "quiet H env_of s (p_regs \<sigma>) (p_env \<sigma>) t" "well_placed H (p_mem \<sigma>) s" "i < MAX_BREAK" "used_at s i"
    and "pc \<sigma> = live_of H s i" "planted H s MAX_BREAK \<subseteq> sites"
    and "process_at H mem_of env_of (pid (sdb s)) (os t) (planted H s MAX_BREAK) \<sigma>"
    and "\<sigma>' = \<sigma>\<lparr>p_regs := (p_regs \<sigma>)\<lparr>rip := pc \<sigma> + 1\<rparr>\<rparr>"
  shows "\<exists>k. patch_bp H i t = Inr (Next (t\<lparr>os := k\<rparr>)) \<and> quiet H env_of s (p_regs \<sigma>') (p_env \<sigma>') (t\<lparr>os := k\<rparr>) \<and>
    process_at H mem_of env_of (pid (sdb s)) k (planted H s MAX_BREAK) \<sigma>'"
proof -
  let ?p = "pid (sdb s)" and ?B = "planted H s MAX_BREAK" and ?a = "live_of H s i"
  have inB: "?a \<in> ?B" using assms(3,4) by (auto simp: planted_def)
  then obtain ok st k1 k where k: "h_singlestep H ?p (os t) = (ok, k1)" "h_waitpid H ?p k1 = (Waited st, k)"
      "process_at H mem_of env_of ?p k ?B \<sigma>'" "h_maps H ?p k = h_maps H ?p (os t)"
    using step_traps [OF assms(7,6)] assms(5,8) by metis
  have q: "same_table (sdb s) (sdb t)" "h_maps H ?p (os t) = h_maps H ?p (os s)" "h_getregs H ?p (os t) = Some (p_regs \<sigma>)"
    "pid (sdb t) = ?p" using assms(1) by (simp_all add: quiet_def same_table_def)
  have live: "wf_sdb (sdb s)" "mapped_word (p_mem \<sigma>) ?a" "live_addr H s (bp_addr (breaks (sdb s) ! i)) = Inr ?a"
    using assms(2-4) by (simp_all add: well_placed_def entry_live_def)
  note same = same_table_live [OF q(1) live(1) q(2) assms(3)]
  have mem: "mem_of ?p k = with_int3 ?B (p_mem \<sigma>)" using k(3) by (simp add: process_at_def assms(8))
  then have "read_word (mem_of ?p k) ?a = Some (peek_value H ?p ?a k)"
    using mapped_with_int3 [OF live(2)] by (intro peek_value_mapped) simp
  from read_word_byte [OF this] have "byte_at (peek_value H ?p ?a k) 0 = 0xcc" using inB by (simp add: mem with_int3_def)
  then have "plant_word H i ?a (t\<lparr>os := k\<rparr>) = Inr (Next (t\<lparr>os := k\<rparr>))"
    by (simp add: plant_word_def q(4) low_byte_eq)
  moreover have "length (breaks (sdb t)) = MAX_BREAK" using same_table_wf [OF q(1)] live(1) by (simp add: wf_sdb_def)
  moreover have "live_addr H t (bp_addr (breaks (sdb t) ! i)) = Inr ?a" using live(3) same(2,3) by simp
  ultimately have "patch_bp H i t = Inr (Next (t\<lparr>os := k\<rparr>))"
    using assms(3-5) q same(1) k(1,2) by (simp add: patch_bp_def used_at_def step_over_def)
  then show ?thesis using k(3,4) q by (auto simp: quiet_def process_at_def)
qed

lemma body_plants:
  assumes i: "i < MAX_BREAK" "used_at s i" "pc \<sigma> = live_of H s i" and place: "well_placed H (p_mem \<sigma>) s"
    and sub: "planted H s MAX_BREAK \<subseteq> sites" and go: "cpu \<sigma> = Goes \<sigma>1"
    and proc: "process_at H mem_of env_of (pid (sdb s)) (os s) (planted H s MAX_BREAK - {live_of H s i}) \<sigma>"
  shows "\<exists>t. patch_bp H i s = Inr (Next t) \<and> quiet H env_of s (p_regs \<sigma>1) (p_env \<sigma>1) t \<and>
    process_at H mem_of env_of (pid (sdb s)) (os t) (planted H s MAX_BREAK) \<sigma>1"
proof -
  let ?p = "pid (sdb s)" and ?B = "planted H s MAX_BREAK" and ?a = "live_of H s i"
  have place1: "well_placed H (p_mem \<sigma>1) s" by (rule same_code_placed [OF same_code_goes [OF go sub] place])
  then have live: "wf_sdb (sdb s)" "mapped_word (p_mem \<sigma>1) ?a" "p_mem \<sigma>1 ?a \<noteq> Some 0xcc"
    "live_addr H s (bp_addr (breaks (sdb s) ! i)) = Inr ?a"
    using i by (simp_all add: well_placed_def entry_live_def clean_code_def)
  have "?B - {?a} \<subseteq> sites" "pc \<sigma> \<notin> ?B - {?a}" using sub i(3) by auto
  then obtain ok st k1 k where k: "h_singlestep H ?p (os s) = (ok, k1)" "h_waitpid H ?p k1 = (Waited st, k)"
      "process_at H mem_of env_of ?p k (?B - {?a}) \<sigma>1" "h_maps H ?p k = h_maps H ?p (os s)"
    using step_goes [OF proc _ _ go] by blast
  define t2 where "t2 = s\<lparr>os := k\<rparr>"
  let ?w = "peek_value H ?p ?a k"
  have mem: "mem_of ?p k = with_int3 (?B - {?a}) (p_mem \<sigma>1)" using k(3) by (simp add: process_at_def)
  have mapped: "mapped_word (mem_of ?p k) ?a" using mapped_with_int3 [OF live(2)] by (simp add: mem)
  have "mem_of ?p k ?a = Some (byte_at ?w 0)" using peek_value_mapped [OF mapped] by (rule read_word_byte)
  then have low: "?w AND 0xff \<noteq> 0xcc" using live(3) by (simp add: mem with_int3_def low_byte_eq)
  define t where "t = (set_bp i (\<lambda>b. b\<lparr>original_word := ?w\<rparr>) t2)\<lparr>os := snd (h_poke H ?p ?a (set_low_byte ?w) k)\<rparr>"
  have plant: "plant_word H i ?a t2 = Inr (Next t)"
    using low mapped by (simp add: plant_word_def t2_def t_def set_low_byte_def split_beta Let_def poke_ok)
  have "step_over H s = Inr t2" using k(1,2) by (simp add: step_over_def t2_def)
  then have body: "patch_bp H i s = Inr (Next t)"
    using proc i live(1,4) plant by (simp add: patch_bp_def used_at_def process_at_def wf_sdb_def)
  have "quiet H env_of s (p_regs \<sigma>1) (p_env \<sigma>1) t2" using k(3,4) by (simp add: quiet_def t2_def process_at_def)
  then have q: "quiet H env_of s (p_regs \<sigma>1) (p_env \<sigma>1) t" using plant_word_quiet [OF plant] by simp
  have "mem_of ?p (os t) = (with_int3 (?B - {?a}) (p_mem \<sigma>1))(?a \<mapsto> 0xcc)"
    using poke_int3 [OF mapped] by (simp add: t_def mem)
  also have "\<dots> = with_int3 (insert ?a (?B - {?a})) (p_mem \<sigma>1)" by (simp only: with_int3_insert)
  finally have "mem_of ?p (os t) = with_int3 (insert ?a (?B - {?a})) (p_mem \<sigma>1)" .
  moreover have "insert ?a (?B - {?a}) = ?B" using i by (auto simp: planted_def)
  ultimately show ?thesis using body q by (auto simp: quiet_def process_at_def)
qed

lemma skip_planted:
  assumes "quiet H env_of s g e t" "well_placed H m s" "i + n \<le> MAX_BREAK"
    and "mem_of (pid (sdb s)) (os t) = with_int3 A m"
    and "\<And>j. i \<le> j \<Longrightarrow> j < i + n \<Longrightarrow> used_at s j \<Longrightarrow> live_of H s j \<in> A \<and> rip g \<noteq> live_of H s j"
  shows "for_upto (patch_bp H) i n t = Inr (Next t)"
proof (rule for_upto_skip, rule patch_bp_planted [OF assms(1)])
  fix j assume j: "i \<le> j" "j < i + n"
  show "wf_sdb (sdb s)" "j < MAX_BREAK" using assms(2,3) j by (simp_all add: well_placed_def entry_live_def)
  assume u: "used_at s j"
  then have "live_addr H s (bp_addr (breaks (sdb s) ! j)) = Inr (live_of H s j) \<and> mapped_word m (live_of H s j)"
    using assms(2) \<open>j < MAX_BREAK\<close> by (simp add: well_placed_def entry_live_def)
  then show "live_addr H s (bp_addr (breaks (sdb s) ! j)) = Inr (live_of H s j) \<and> rip g \<noteq> live_of H s j \<and>
      mapped_word (mem_of (pid (sdb s)) (os t)) (live_of H s j) \<and> mem_of (pid (sdb s)) (os t) (live_of H s j) = Some 0xcc"
    using assms(5) [OF j u] by (simp add: assms(4) mapped_with_int3) (simp add: with_int3_def)
qed

lemma overrun:
  assumes stop: "stopped_at H mem_of (p_mem \<sigma>) i (p_regs \<sigma>) s" "env_of (pid (sdb s)) (os s) = Some (p_env \<sigma>)"
    and sub: "planted H s MAX_BREAK \<subseteq> sites" and k: "i < k" "k < MAX_BREAK" "used_at s k"
    and go: "cpu \<sigma> = Goes \<sigma>1" "pc \<sigma>1 = live_of H s k" and \<sigma>2: "\<sigma>2 = \<sigma>1\<lparr>p_regs := (p_regs \<sigma>1)\<lparr>rip := pc \<sigma>1 + 1\<rparr>\<rparr>"
  shows "\<exists>t. sdb_patch_all_bp H s = Inr t \<and> process_at H mem_of env_of (pid (sdb s)) (os t) (planted H s MAX_BREAK) \<sigma>2"
proof -
  let ?p = "pid (sdb s)" and ?B = "planted H s MAX_BREAK"
  have i: "i < MAX_BREAK" "used_at s i" "pc \<sigma> = live_of H s i" "h_getregs H ?p (os s) = Some (p_regs \<sigma>)"
    and place: "well_placed H (p_mem \<sigma>) s" and mem: "mem_of ?p (os s) = with_int3 (?B - {live_of H s i}) (p_mem \<sigma>)"
    using stop(1) by (simp_all add: stopped_at_def debugged_def)
  have place1: "well_placed H (p_mem \<sigma>1) s" by (rule same_code_placed [OF same_code_goes [OF go(1) sub] place])
  have sep: "separated H s" using place by (simp add: well_placed_def)
  have apart: "live_of H s j - live_of H s l \<noteq> 0 \<and> live_of H s j - live_of H s l \<noteq> 1"
    if "j \<noteq> l" "j < MAX_BREAK" "l < MAX_BREAK" "used_at s j" "used_at s l" for j l
  proof -
    have "\<not> live_of H s j - live_of H s l < 8" using sep that unfolding separated_def by blast
    then show ?thesis by auto
  qed
  have B: "live_of H s j \<in> ?B" if "j < MAX_BREAK" "used_at s j" for j using that by (auto simp: planted_def)
  have proc: "process_at H mem_of env_of ?p (os s) (?B - {live_of H s i}) \<sigma>"
    using stop(2) i(4) mem by (simp add: process_at_def)
  have "quiet H env_of s (p_regs \<sigma>) (p_env \<sigma>) s" using stop(2) i(4) by (simp add: quiet_def)
  then have pre: "for_upto (patch_bp H) 0 i s = Inr (Next s)"
  proof (rule skip_planted [OF _ place _ mem])
    fix j assume "j < 0 + i" and u: "used_at s j"
    then have "j \<noteq> i" "j < MAX_BREAK" using i(1) by auto
    with apart [of i j] u i B show "live_of H s j \<in> ?B - {live_of H s i} \<and> pc \<sigma> \<noteq> live_of H s j" by auto
  qed (use i(1) in simp)
  obtain t1 where t1: "patch_bp H i s = Inr (Next t1)" "quiet H env_of s (p_regs \<sigma>1) (p_env \<sigma>1) t1"
      "process_at H mem_of env_of ?p (os t1) ?B \<sigma>1"
    using body_plants [OF i(1-3) place sub go(1) proc] by blast
  have mid: "for_upto (patch_bp H) (Suc i) (k - Suc i) t1 = Inr (Next t1)"
  proof (rule skip_planted [OF t1(2) place1])
    fix j assume "j < Suc i + (k - Suc i)" and u: "used_at s j"
    then have "j \<noteq> k" "j < MAX_BREAK" using k(1,2) by auto
    with apart [of k j] u k B go(2) show "live_of H s j \<in> ?B \<and> pc \<sigma>1 \<noteq> live_of H s j" by auto
  qed (use t1(3) k(1,2) in \<open>simp_all add: process_at_def\<close>)
  obtain k3 where k3: "patch_bp H k t1 = Inr (Next (t1\<lparr>os := k3\<rparr>))"
      "quiet H env_of s (p_regs \<sigma>2) (p_env \<sigma>2) (t1\<lparr>os := k3\<rparr>)" "process_at H mem_of env_of ?p k3 ?B \<sigma>2"
    using step_planted [OF t1(2) place1 k(2,3) go(2) sub t1(3) \<sigma>2] by blast
  have post: "for_upto (patch_bp H) (Suc k) (MAX_BREAK - Suc k) (t1\<lparr>os := k3\<rparr>) = Inr (Next (t1\<lparr>os := k3\<rparr>))"
  proof (rule skip_planted [OF k3(2)])
    show "well_placed H (p_mem \<sigma>2) s" using place1 by (simp add: \<sigma>2)
    fix j assume j: "Suc k \<le> j" "j < Suc k + (MAX_BREAK - Suc k)" "used_at s j"
    with apart [of j k] k have "live_of H s j - live_of H s k \<noteq> 1" by auto
    then have "live_of H s k + 1 \<noteq> live_of H s j" by (metis add_diff_cancel_left')
    then show "live_of H s j \<in> ?B \<and> rip (p_regs \<sigma>2) \<noteq> live_of H s j" using j B go(2) by (auto simp: \<sigma>2)
  qed (use k k3(3) in \<open>auto simp: process_at_def\<close>)
  have "for_upto (patch_bp H) 0 (i + Suc ((k - Suc i) + Suc (MAX_BREAK - Suc k))) s = Inr (Next (t1\<lparr>os := k3\<rparr>))"
    unfolding for_upto_split for_upto.simps using k(1) by (simp add: pre t1(1) for_upto_split mid k3(1) post)
  moreover have "i + Suc ((k - Suc i) + Suc (MAX_BREAK - Suc k)) = MAX_BREAK" using k by arith
  ultimately have "for_upto (patch_bp H) 0 MAX_BREAK s = Inr (Next (t1\<lparr>os := k3\<rparr>))" by (simp only:)
  then have "sdb_patch_all_bp H s = Inr (t1\<lparr>os := k3\<rparr>)" by (simp add: sdb_patch_all_bp_def)
  moreover have "process_at H mem_of env_of ?p (os (t1\<lparr>os := k3\<rparr>)) ?B \<sigma>2" using k3(3) by simp
  ultimately show ?thesis by blast
qed

end

text \<open>
  C8: from one breakpoint straight to another.  The process stands at breakpoint \<open>i\<close>, and the
  instruction there leads to the address of a breakpoint \<open>k\<close> with a higher number (a jump or a
  call, say).  Then \<open>cont\<close> does not stop at \<open>k\<close>: while it plants the breakpoints it executes
  the instruction at \<open>i\<close>, finds the process standing at \<open>k\<close>, and executes the breakpoint
  instruction that is planted there.  The process is resumed one byte behind \<open>k\<close>, in the
  middle of the instruction whose first byte was never executed.
\<close>

theorem cont_overruns_breakpoint:
  assumes "cpu_host H mem_of env_of cpu sites" "sdb_is_running (sdb s)"
    and "stopped_at H mem_of (p_mem \<sigma>) i (p_regs \<sigma>) s" "env_of (pid (sdb s)) (os s) = Some (p_env \<sigma>)"
    and "planted H s MAX_BREAK \<subseteq> sites" "i < k" "k < MAX_BREAK" "used_at s k"
    and "cpu \<sigma> = Goes \<sigma>1" "pc \<sigma>1 = live_of H s k"
  shows "\<exists>t. sdb_patch_all_bp H s = Inr t \<and> sdb_cont H s = resume H None t \<and>
    process_at H mem_of env_of (pid (sdb s)) (os t) (planted H s MAX_BREAK)
      (\<sigma>1\<lparr>p_regs := (p_regs \<sigma>1)\<lparr>rip := live_of H s k + 1\<rparr>\<rparr>)"
proof -
  obtain t where "sdb_patch_all_bp H s = Inr t" "process_at H mem_of env_of (pid (sdb s)) (os t) (planted H s MAX_BREAK)
      (\<sigma>1\<lparr>p_regs := (p_regs \<sigma>1)\<lparr>rip := pc \<sigma>1 + 1\<rparr>\<rparr>)"
    using cpu_host.overrun [OF assms(1,3-10) refl] by blast
  then show ?thesis using assms(2,10) by (simp add: sdb_cont_def)
qed

end
