(* ===== verification/Sdb_Walk.thy ===== *)
theory Sdb_Walk
  imports Sdb_Trace
begin

text \<open>
  Sessions of \<open>cont\<close> and \<open>si\<close> in any order against the program that runs without a debugger,
  and the registers that \<open>getregs\<close> shows at the end.
\<close>

subsection \<open>Moves of the program\<close>

datatype move = Cont | Si

text \<open>
  What the moves mean for the program: \<open>Cont\<close> leaves a breakpoint address and runs to the
  next one, \<open>Si\<close> is one instruction that does not lead to a breakpoint address.  \<open>ok\<close> holds
  of the states in which \<open>Cont\<close> is used.
\<close>

inductive walks :: "'e cpu \<Rightarrow> u64 set \<Rightarrow> ('e process \<Rightarrow> bool) \<Rightarrow> 'e process \<Rightarrow> move list \<Rightarrow> 'e process \<Rightarrow> bool"
  for cpu :: "'e cpu" and B :: "u64 set" and ok :: "'e process \<Rightarrow> bool" where
  Stay: "walks cpu B ok \<sigma> [] \<sigma>"
| Run: "ok \<sigma> \<Longrightarrow> departs cpu B \<sigma> \<sigma>1 \<Longrightarrow> runs_to cpu B \<sigma>1 (Inr \<sigma>2) \<Longrightarrow> walks cpu B ok \<sigma>2 ms \<sigma>' \<Longrightarrow>
    walks cpu B ok \<sigma> (Cont # ms) \<sigma>'"
| Step: "cpu \<sigma> = Goes \<sigma>1 \<Longrightarrow> pc \<sigma>1 \<notin> B \<Longrightarrow> walks cpu B ok \<sigma>1 ms \<sigma>' \<Longrightarrow> walks cpu B ok \<sigma> (Si # ms) \<sigma>'"

primrec line_of :: "move \<Rightarrow> string" where
  "line_of Cont = cont_line"
| "line_of Si = ''si'' @ newline"

text \<open>What \<open>getregs\<close> prints.\<close>

definition reg_lines :: "user_regs \<Rightarrow> string list" where
  "reg_lines g =
     [reg_field ''RAX '' (rax g) @ reg_field ''RBX '' (rbx g) @ reg_field ''RCX '' (rcx g) @ reg_field ''RDX '' (rdx g) @ newline,
      reg_field ''R8  '' (r8 g) @ reg_field ''R9  '' (r9 g) @ reg_field ''R10 '' (r10 g) @ reg_field ''R11 '' (r11 g) @ newline,
      reg_field ''R12 '' (r12 g) @ reg_field ''R13 '' (r13 g) @ reg_field ''R14 '' (r14 g) @ reg_field ''R15 '' (r15 g) @ newline,
      reg_field ''RDI '' (rdi g) @ reg_field ''RSI '' (rsi g) @ reg_field ''RBP '' (rbp g) @ reg_field ''RSP '' (rsp g) @ newline,
      reg_field ''RIP '' (rip g) @ ''FLAGS '' @ show_016llx (eflags g) @ newline]"

lemma sdb_getregs_prints:
  assumes "h_getregs H (pid (sdb s)) (os s) = Some g"
  shows "\<exists>s'. sdb_getregs H s = Inr s' \<and> out s' = out s @ map Stdout (reg_lines g)"
  using assms by (simp add: sdb_getregs_def reg_lines_def)

text \<open>A line with one word that is not \<open>exit\<close>.\<close>

lemma one_word_step:
  assumes "word_of_line c" "length c < 64" "\<not> is_exit c"
  shows "main_step V (c @ newline) m =
     map_option (map_sum id (\<lambda>s. Next \<lparr>command = Some c, dbg = s\<rparr>)) (dispatch V c newline (printf ''sdb> '' (dbg m)))"
  using assms scan_line(2) [OF assms(1,2)] by (simp add: main_step_def)

lemma si_line_step:
  "main_step V (line_of Si) m =
     Some (map_sum id (\<lambda>s. Next \<lparr>command = Some ''si'', dbg = s\<rparr>) (sdb_step (host_of V) (printf ''sdb> '' (dbg m))))"
proof -
  have "word_of_line ''si''" by (simp add: word_of_line_def c_space_def)
  then have "main_step V (line_of Si) m = map_option (map_sum id (\<lambda>s. Next \<lparr>command = Some ''si'', dbg = s\<rparr>))
      (dispatch V ''si'' newline (printf ''sdb> '' (dbg m)))"
    unfolding line_of.simps by (rule one_word_step) (simp_all add: is_exit_def)
  then show ?thesis by (simp add: dispatch_def)
qed

lemma getregs_line_step:
  "main_step V (''getregs'' @ newline) m =
     Some (map_sum id (\<lambda>s. Next \<lparr>command = Some ''getregs'', dbg = s\<rparr>) (sdb_getregs (host_of V) (printf ''sdb> '' (dbg m))))"
proof -
  have "word_of_line ''getregs''" by (simp add: word_of_line_def c_space_def)
  then have "main_step V (''getregs'' @ newline) m = map_option (map_sum id (\<lambda>s. Next \<lparr>command = Some ''getregs'', dbg = s\<rparr>))
      (dispatch V ''getregs'' newline (printf ''sdb> '' (dbg m)))"
    by (rule one_word_step) (simp_all add: is_exit_def)
  then show ?thesis by (simp add: dispatch_def)
qed

subsection \<open>The command \<open>si\<close>\<close>

text \<open>What the debugger knows does not change when only the process moves on.\<close>

lemma moved_live:
  assumes "h_maps H (pid (sdb s)) k = h_maps H (pid (sdb s)) (os s)"
  shows "live_addr H (s\<lparr>os := k\<rparr>) a = live_addr H s a" "live_of H (s\<lparr>os := k\<rparr>) i = live_of H s i"
    "used_at (s\<lparr>os := k\<rparr>) i = used_at s i" "planted H (s\<lparr>os := k\<rparr>) n = planted H s n"
proof -
  show l: "live_addr H (s\<lparr>os := k\<rparr>) a = live_addr H s a" for a by (rule live_addr_cong) (simp_all add: assms)
  show o: "live_of H (s\<lparr>os := k\<rparr>) i = live_of H s i" for i by (simp add: live_of_def l)
  show u: "used_at (s\<lparr>os := k\<rparr>) i = used_at s i" for i by (simp add: used_at_def)
  show "planted H (s\<lparr>os := k\<rparr>) n = planted H s n" by (simp add: planted_def o u)
qed

context cpu_host
begin

lemma sdb_step_goes:
  assumes "sdb_is_running (sdb s)" "process_at H mem_of env_of (pid (sdb s)) (os s) A \<sigma>" "A \<subseteq> sites" "pc \<sigma> \<notin> A" "cpu \<sigma> = Goes \<sigma>1"
  shows "\<exists>k. sdb_step H s = Inr (s\<lparr>os := k\<rparr>) \<and> process_at H mem_of env_of (pid (sdb s)) k A \<sigma>1 \<and>
    h_maps H (pid (sdb s)) k = h_maps H (pid (sdb s)) (os s)"
proof -
  obtain st k1 k2 where "h_singlestep H (pid (sdb s)) (os s) = (True, k1)" "h_waitpid H (pid (sdb s)) k1 = (Waited st, k2)"
      "process_at H mem_of env_of (pid (sdb s)) k2 A \<sigma>1" "h_maps H (pid (sdb s)) k2 = h_maps H (pid (sdb s)) (os s)"
    using step_goes [OF assms(2-5)] by blast
  then show ?thesis using assms(1) by (intro exI [of _ k2]) (simp add: sdb_step_def)
qed

lemma sdb_step_traps:
  assumes "sdb_is_running (sdb s)" "process_at H mem_of env_of (pid (sdb s)) (os s) A \<sigma>" "A \<subseteq> sites" "pc \<sigma> \<in> A"
  shows "\<exists>k. sdb_step H s = Inr (s\<lparr>os := k\<rparr>) \<and>
    process_at H mem_of env_of (pid (sdb s)) k A (\<sigma>\<lparr>p_regs := (p_regs \<sigma>)\<lparr>rip := pc \<sigma> + 1\<rparr>\<rparr>)"
proof -
  obtain st k1 k2 where "h_singlestep H (pid (sdb s)) (os s) = (True, k1)" "h_waitpid H (pid (sdb s)) k1 = (Waited st, k2)"
      "process_at H mem_of env_of (pid (sdb s)) k2 A (\<sigma>\<lparr>p_regs := (p_regs \<sigma>)\<lparr>rip := pc \<sigma> + 1\<rparr>\<rparr>)"
    using step_traps [OF assms(2-4)] by blast
  then show ?thesis using assms(1) by (intro exI [of _ k2]) (simp add: sdb_step_def)
qed

lemma si_visits:
  assumes pau: "paused H mem_of env_of sites \<sigma> s" and go: "cpu \<sigma> = Goes \<sigma>1" "pc \<sigma>1 \<notin> planted H s MAX_BREAK"
  shows "\<exists>k. sdb_step H s = Inr (s\<lparr>os := k\<rparr>) \<and> h_maps H (pid (sdb s)) k = h_maps H (pid (sdb s)) (os s) \<and>
    paused H mem_of env_of sites \<sigma>1 (s\<lparr>os := k\<rparr>)"
proof -
  let ?p = "pid (sdb s)"
  obtain A where A: "debugged H mem_of (p_mem \<sigma>) A s" "process_at H mem_of env_of ?p (os s) A \<sigma>" "pc \<sigma> \<notin> A"
    and s: "sdb_is_running (sdb s)" "planted H s MAX_BREAK \<subseteq> sites" and sub: "A \<subseteq> planted H s MAX_BREAK"
    using pau by (auto simp: paused_def debugged_def)
  obtain k where k: "sdb_step H s = Inr (s\<lparr>os := k\<rparr>)" "process_at H mem_of env_of ?p k A \<sigma>1"
      "h_maps H ?p k = h_maps H ?p (os s)"
    using sdb_step_goes [OF s(1) A(2) _ A(3) go(1)] sub s(2) by blast
  note live = moved_live [OF k(3)]
  have code: "same_code H s (p_mem \<sigma>) (p_mem \<sigma>1)" by (rule same_code_goes [OF go(1) s(2)])
  have "well_placed H (p_mem \<sigma>1) s" "armed H (p_mem \<sigma>1) A s"
    using A(1) same_code_placed [OF code] same_code_armed [OF code] by (simp_all add: debugged_def)
  then have "well_placed H (p_mem \<sigma>1) (s\<lparr>os := k\<rparr>)" "armed H (p_mem \<sigma>1) A (s\<lparr>os := k\<rparr>)"
    by (simp_all add: well_placed_def entry_live_def separated_def clean_code_def armed_def live)
  then have "debugged H mem_of (p_mem \<sigma>1) A (s\<lparr>os := k\<rparr>)"
    using k(2) sub by (simp add: debugged_def process_at_def live)
  moreover have "pc \<sigma>1 \<notin> A" using go(2) sub by blast
  ultimately have "paused H mem_of env_of sites \<sigma>1 (s\<lparr>os := k\<rparr>)"
    using pau k(2) by (auto simp: paused_def all_live_def live)
  with k(1,3) show ?thesis by blast
qed

end

lemma same_breaks_moved:
  "h_maps H (pid (sdb s)) k = h_maps H (pid (sdb s)) (os s) \<Longrightarrow> same_breaks H s (s\<lparr>os := k\<rparr>)"
  by (simp add: same_breaks_def moved_live)

lemma si_line_visits:
  assumes host: "cpu_host H mem_of env_of cpu sites" "host_of V = H"
    and "paused H mem_of env_of sites \<sigma> (dbg m)" "cpu \<sigma> = Goes \<sigma>1" "pc \<sigma>1 \<notin> planted H (dbg m) MAX_BREAK"
  shows "\<exists>m1. main_step V (line_of Si) m = Some (Inr (Next m1)) \<and> paused H mem_of env_of sites \<sigma>1 (dbg m1) \<and>
    same_breaks H (dbg m) (dbg m1)"
proof -
  let ?s = "printf ''sdb> '' (dbg m)"
  have "paused H mem_of env_of sites \<sigma> ?s" "pc \<sigma>1 \<notin> planted H ?s MAX_BREAK"
    using assms(3,5) by (simp_all add: paused_emit emit_live)
  from cpu_host.si_visits [OF host(1) this(1) assms(4) this(2)] obtain k where
    k: "sdb_step H ?s = Inr (?s\<lparr>os := k\<rparr>)" "h_maps H (pid (sdb ?s)) k = h_maps H (pid (sdb ?s)) (os ?s)"
      "paused H mem_of env_of sites \<sigma>1 (?s\<lparr>os := k\<rparr>)" by blast
  have "same_breaks H (dbg m) (?s\<lparr>os := k\<rparr>)" using same_breaks_moved [OF k(2)] by (simp add: same_breaks_emit)
  then show ?thesis using k(1,3) unfolding si_line_step host(2) by simp
qed

subsection \<open>Sessions\<close>

lemma walks_session:
  assumes host: "cpu_host H mem_of env_of cpu sites" "host_of V = H"
  shows "walks cpu B ok \<sigma> ms \<sigma>' \<Longrightarrow> paused H mem_of env_of sites \<sigma> (dbg m) \<Longrightarrow> planted H (dbg m) MAX_BREAK = B \<Longrightarrow>
    \<forall>\<sigma>. ok \<sigma> = orderly H cpu (dbg m) \<sigma> \<Longrightarrow>
    \<exists>m'. (\<forall>ls. main_loop V (map line_of ms @ ls) m = main_loop V ls m') \<and>
      paused H mem_of env_of sites \<sigma>' (dbg m') \<and> same_breaks H (dbg m) (dbg m')"
proof (induction arbitrary: m rule: walks.induct)
  case (Stay \<sigma>)
  then show ?case by (intro exI [of _ m]) (simp add: same_breaks_def)
next
  case (Run \<sigma> \<sigma>1 \<sigma>2 ms \<sigma>')
  have "orderly H cpu (dbg m) \<sigma>" using Run.prems(3) Run.hyps(1) by blast
  then obtain m1 where m1: "main_step V cont_line m = Some (Inr (Next m1))" "paused H mem_of env_of sites \<sigma>2 (dbg m1)"
      "same_breaks H (dbg m) (dbg m1)"
    using cont_line_visits [OF host Run.prems(1)] Run.hyps(2,3) Run.prems(2) by blast
  have "planted H (dbg m1) MAX_BREAK = B" "\<forall>\<sigma>. ok \<sigma> = orderly H cpu (dbg m1) \<sigma>"
    using Run.prems(2,3) m1(3) by (simp_all add: same_breaks_planted same_breaks_orderly)
  from Run.IH [OF m1(2) this] obtain m' where m': "\<forall>ls. main_loop V (map line_of ms @ ls) m1 = main_loop V ls m'"
      "paused H mem_of env_of sites \<sigma>' (dbg m')" "same_breaks H (dbg m1) (dbg m')" by blast
  have "main_loop V (map line_of (Cont # ms) @ ls) m = main_loop V ls m'" for ls
    using m'(1) by (simp add: m1(1))
  then show ?case using m'(2) same_breaks_trans [OF m1(3) m'(3)] by blast
next
  case (Step \<sigma> \<sigma>1 ms \<sigma>')
  then obtain m1 where m1: "main_step V (line_of Si) m = Some (Inr (Next m1))" "paused H mem_of env_of sites \<sigma>1 (dbg m1)"
      "same_breaks H (dbg m) (dbg m1)"
    using si_line_visits [OF host Step.prems(1)] by blast
  have "planted H (dbg m1) MAX_BREAK = B" "\<forall>\<sigma>. ok \<sigma> = orderly H cpu (dbg m1) \<sigma>"
    using Step.prems(2,3) m1(3) by (simp_all add: same_breaks_planted same_breaks_orderly)
  from Step.IH [OF m1(2) this] obtain m' where m': "\<forall>ls. main_loop V (map line_of ms @ ls) m1 = main_loop V ls m'"
      "paused H mem_of env_of sites \<sigma>' (dbg m')" "same_breaks H (dbg m1) (dbg m')" by blast
  have "main_loop V (map line_of (Si # ms) @ ls) m = main_loop V ls m'" for ls
    using m'(1) m1(1) by (simp del: line_of.simps)
  then show ?case using m'(2) same_breaks_trans [OF m1(3) m'(3)] by blast
qed

text \<open>
  C3: sessions of \<open>cont\<close> and \<open>si\<close>.  The program, run without a debugger, gets from \<open>\<sigma>\<close> to
  \<open>\<sigma>'\<close> by the moves that the user types, in any order.  Then the debugger has the process in
  \<open>\<sigma>'\<close>: its registers and memory are those of the undebugged program but for the planted
  bytes, the breakpoint table has not changed, and \<open>getregs\<close> as the next line prints the
  registers that the program has in \<open>\<sigma>'\<close>.
\<close>

theorem session_follows_program:
  assumes "cpu_host H mem_of env_of cpu sites" "host_of V = H" "paused H mem_of env_of sites \<sigma> (dbg m)"
    and "walks cpu (planted H (dbg m) MAX_BREAK) (orderly H cpu (dbg m)) \<sigma> ms \<sigma>'"
  shows "\<exists>m' m'' o'. main_loop V (map line_of ms) m = Some (Inr (Next m')) \<and>
    paused H mem_of env_of sites \<sigma>' (dbg m') \<and> bp_table (sdb (dbg m')) = bp_table (sdb (dbg m)) \<and>
    main_loop V (map line_of ms @ [''getregs'' @ newline]) m = Some (Inr (Next m'')) \<and>
    out (dbg m'') = o' @ map Stdout (reg_lines (p_regs \<sigma>'))"
proof -
  from walks_session [OF assms(1,2,4,3) refl] obtain m' where
    run: "\<And>ls. main_loop V (map line_of ms @ ls) m = main_loop V ls m'"
    and m': "paused H mem_of env_of sites \<sigma>' (dbg m')" "same_breaks H (dbg m) (dbg m')" by blast
  let ?s = "printf ''sdb> '' (dbg m')"
  have "h_getregs H (pid (sdb ?s)) (os ?s) = Some (p_regs \<sigma>')" using m'(1) by (auto simp: paused_def process_at_def)
  from sdb_getregs_prints [OF this] obtain s2 where
    s2: "sdb_getregs H ?s = Inr s2" "out s2 = out ?s @ map Stdout (reg_lines (p_regs \<sigma>'))" by blast
  have "main_step V (''getregs'' @ newline) m' = Some (Inr (Next \<lparr>command = Some ''getregs'', dbg = s2\<rparr>))"
    unfolding getregs_line_step assms(2) by (simp only: s2(1)) simp
  then have "main_loop V (map line_of ms @ [''getregs'' @ newline]) m = Some (Inr (Next \<lparr>command = Some ''getregs'', dbg = s2\<rparr>))"
    unfolding run by (simp del: append_Cons)
  moreover have "main_loop V (map line_of ms) m = Some (Inr (Next m'))" using run [of "[]"] by simp
  moreover have "bp_table (sdb (dbg m')) = bp_table (sdb (dbg m))" using m'(2) by (simp add: same_breaks_def)
  ultimately show ?thesis using m'(1) s2(2) by fastforce
qed

text \<open>
  C9: \<open>si\<close> onto a breakpoint.  The process stands at breakpoint \<open>i\<close> and its instruction
  leads to the address of another breakpoint.  The first \<open>si\<close> executes that instruction as the
  program does.  The second executes the breakpoint instruction instead of the program's:
  nothing says so, and the process stands one byte behind the start of an instruction that
  was never executed.
\<close>

theorem si_overruns_breakpoint:
  assumes "cpu_host H mem_of env_of cpu sites" "sdb_is_running (sdb s)"
    and "stopped_at H mem_of (p_mem \<sigma>) i (p_regs \<sigma>) s" "env_of (pid (sdb s)) (os s) = Some (p_env \<sigma>)"
    and "planted H s MAX_BREAK \<subseteq> sites" "k < MAX_BREAK" "used_at s k" "live_of H s k \<noteq> live_of H s i"
    and "cpu \<sigma> = Goes \<sigma>1" "pc \<sigma>1 = live_of H s k"
  shows "\<exists>t u. sdb_step H s = Inr t \<and> process_at H mem_of env_of (pid (sdb s)) (os t) (planted H s MAX_BREAK - {pc \<sigma>}) \<sigma>1 \<and>
    sdb_step H t = Inr u \<and> out u = out s \<and> sdb u = sdb s \<and>
    process_at H mem_of env_of (pid (sdb s)) (os u) (planted H s MAX_BREAK - {pc \<sigma>})
      (\<sigma>1\<lparr>p_regs := (p_regs \<sigma>1)\<lparr>rip := live_of H s k + 1\<rparr>\<rparr>)"
proof -
  let ?A = "planted H s MAX_BREAK - {pc \<sigma>}"
  have A: "process_at H mem_of env_of (pid (sdb s)) (os s) ?A \<sigma>" "?A \<subseteq> sites" "pc \<sigma> \<notin> ?A" "pc \<sigma>1 \<in> ?A"
    using assms(3-8,10) by (auto simp: stopped_at_def debugged_def process_at_def planted_def)
  obtain k1 where k1: "sdb_step H s = Inr (s\<lparr>os := k1\<rparr>)" "process_at H mem_of env_of (pid (sdb s)) k1 ?A \<sigma>1"
    using cpu_host.sdb_step_goes [OF assms(1,2) A(1-3) assms(9)] by blast
  have t: "sdb_is_running (sdb (s\<lparr>os := k1\<rparr>))" "process_at H mem_of env_of (pid (sdb (s\<lparr>os := k1\<rparr>))) (os (s\<lparr>os := k1\<rparr>)) ?A \<sigma>1"
    using assms(2) k1(2) by simp_all
  from cpu_host.sdb_step_traps [OF assms(1) t A(2,4)] k1 show ?thesis by (auto simp: assms(10))
qed

end
