(* ===== verification/Sdb_Test.thy ===== *)
theory Sdb_Test
  imports Sdb_Main "HOL-Library.Sublist"
begin

text \<open>
  The test program \<^verbatim>\<open>hw4/test.c\<close> of the debugger: the functions of \<^verbatim>\<open>sdb.h\<close> called one after
  the other, on any system.
\<close>

type_synonym 'k call = "'k sys \<Rightarrow> 'k sys res option"

text \<open>The statements of a block, and blocks with the line that announces them.\<close>

primrec do_all :: "'k call list \<Rightarrow> 'k call" where
  "do_all [] s = Some (Inr s)"
| "do_all (f # fs) s =
     (case f s of None \<Rightarrow> None | Some (Inl e) \<Rightarrow> Some (Inl e) | Some (Inr t) \<Rightarrow> do_all fs t)"

primrec do_blocks :: "(string \<times> 'k call list) list \<Rightarrow> 'k call" where
  "do_blocks [] s = Some (Inr s)"
| "do_blocks (b # bs) s =
     (case do_all (snd b) (puts (newline @ fst b) s) of
        None \<Rightarrow> None
      | Some (Inl e) \<Rightarrow> Some (Inl e)
      | Some (Inr t) \<Rightarrow> do_blocks bs t)"

text \<open>The calls with their arguments; the value that \<open>sdb_get\<close> returns is used only once.\<close>

definition t_load :: "'k env \<Rightarrow> string \<Rightarrow> 'k call" where "t_load V n s = Some (sdb_load (elf_of V) n s)"
definition t_start :: "'k env \<Rightarrow> 'k call" where "t_start V s = Some (sdb_start (host_of V) s)"
definition t_vmmap :: "'k env \<Rightarrow> 'k call" where "t_vmmap V s = Some (sdb_vmmap (host_of V) s)"
definition t_get :: "'k env \<Rightarrow> string \<Rightarrow> 'k call" where
  "t_get V n s = Some (thenR (sdb_get (host_of V) n s) (\<lambda>(v, s). Inr s))"
definition t_getregs :: "'k env \<Rightarrow> 'k call" where "t_getregs V s = Some (sdb_getregs (host_of V) s)"
definition t_disasm :: "'k env \<Rightarrow> string \<Rightarrow> 'k call" where "t_disasm V a s = Some (sdb_disasm (host_of V) a s)"
definition t_dump :: "'k env \<Rightarrow> string \<Rightarrow> 'k call" where "t_dump V a s = Some (sdb_dump (host_of V) a s)"
definition t_break :: "'k env \<Rightarrow> string \<Rightarrow> 'k call" where "t_break V a s = Some (sdb_set_break (host_of V) a s)"
definition t_list :: "'k call" where "t_list s = Some (Inr (sdb_list s))"
definition t_delete :: "'k env \<Rightarrow> int \<Rightarrow> 'k call" where "t_delete V i s = Some (Inr (sdb_delete (host_of V) i s))"
definition t_set :: "'k env \<Rightarrow> string \<Rightarrow> u64 \<Rightarrow> 'k call" where
  "t_set V n v s = Some (Inr (sdb_set (host_of V) (raw_regs V) n v s))"
definition t_step :: "'k env \<Rightarrow> 'k call" where "t_step V s = Some (sdb_step (host_of V) s)"

definition copy_rdx :: "'k env \<Rightarrow> 'k call" where
  "copy_rdx V s = Some (thenR (sdb_get (host_of V) ''rdx'' s) (\<lambda>(val, s).
     Inr (sdb_set (host_of V) (raw_regs V) ''rax'' val s)))"

definition test_blocks :: "'k env \<Rightarrow> (string \<times> 'k call list) list" where
  "test_blocks V =
     [(''Test Case 1...'',
       [t_load V ''sample/hello64'', t_vmmap V, t_start V, t_vmmap V, t_get V ''rip'', sdb_run (host_of V)]),
      (''Test Case 2...'',
       [t_load V ''sample/hello64'', t_start V, t_getregs V]),
      (''Test Case 3...'',
       [t_load V ''sample/hello64'', t_disasm V [], t_disasm V ''0x4000b0'', t_start V, t_break V ''0x4000c6'',
        t_disasm V ''0x4000c6'', t_dump V ''0x4000c6'']),
      (''Test Case 4...'',
       [t_load V ''sample/hello64'', t_disasm V ''0x4000b0'', t_break V ''0x4000c6'', t_list, sdb_run (host_of V),
        t_set V ''rip'' 0x4000b0, sdb_cont (host_of V), t_delete V 0, t_set V ''rip'' 0x4000b0, sdb_cont (host_of V)]),
      (''Test Case 5...'',
       [t_load V ''sample/guess'', t_vmmap V, t_disasm V ''0x985'', t_disasm V [], t_break V ''0x9cc'', t_start V,
        t_vmmap V, sdb_cont (host_of V), t_get V ''rax'', copy_rdx V, sdb_cont (host_of V)]),
      (''Test Case 6...Test step command'',
       [t_load V ''sample/hello64'', t_start V] @ replicate 10 (t_step V))]"

definition test_main :: "'k env \<Rightarrow> (nat \<Rightarrow> bp_t) \<Rightarrow> 'k \<Rightarrow> 'k sys res option" where
  "test_main V raw k =
     (case t_vmmap V \<lparr>sdb = sdb_create raw, os = k, out = [], released = []\<rparr> of
        None \<Rightarrow> None
      | Some (Inl e) \<Rightarrow> Some (Inl e)
      | Some (Inr s) \<Rightarrow> do_blocks (test_blocks V) s)"

subsection \<open>Every call is a command\<close>

lemmas t_defs = t_load_def t_start_def t_vmmap_def t_get_def t_getregs_def t_disasm_def t_dump_def t_break_def
  t_list_def t_delete_def t_set_def t_step_def

lemma calls_are_commands:
  "sdb_command (t_load V n)" "sdb_command (t_start V)" "sdb_command (t_vmmap V)" "sdb_command (t_get V n)"
  "sdb_command (t_getregs V)" "sdb_command (t_disasm V a)" "sdb_command (t_dump V a)" "sdb_command (t_break V a)"
  "sdb_command t_list" "sdb_command (t_delete V i)" "sdb_command (t_set V n v)" "sdb_command (t_step V)"
  "sdb_command (sdb_run (host_of V))" "sdb_command (sdb_cont (host_of V))"
  unfolding t_defs [abs_def] by unfold_locales

lemma copy_rdx_command: "sdb_command (copy_rdx V)"
  by unfold_locales (auto simp: copy_rdx_def thenR_eq_Inr intro: keeps_trans keeps_get keeps_set)

lemma do_all_command: "\<forall>f\<in>set fs. sdb_command f \<Longrightarrow> sdb_command (do_all fs)"
proof (induction fs)
  case Nil
  show ?case by unfold_locales simp
next
  case (Cons f fs)
  then have "sdb_command f" "sdb_command (do_all fs)" by simp_all
  from sdb_command.run_then [OF this] show ?case by (simp add: fun_eq_iff [symmetric] cong: option.case_cong)
qed

lemma do_all_returns: "\<forall>f\<in>set fs. \<forall>s. f s \<noteq> None \<Longrightarrow> do_all fs s \<noteq> None"
  by (induction fs arbitrary: s) (auto split: option.split sum.split)

lemma do_blocks_returns: "\<forall>b\<in>set bs. \<forall>f\<in>set (snd b). \<forall>s. f s \<noteq> None \<Longrightarrow> do_blocks bs s \<noteq> None"
proof (induction bs arbitrary: s)
  case (Cons b bs)
  then have "do_all (snd b) (puts (newline @ fst b) s) \<noteq> None" by (intro do_all_returns) simp
  with Cons show ?case by (auto split: option.split sum.split)
qed simp

definition heading :: "string \<Rightarrow> out_event" where
  "heading h = Stdout ((newline @ h) @ newline)"

lemma do_blocks_keeps:
  assumes "\<forall>b\<in>set bs. \<forall>f\<in>set (snd b). sdb_command f" "do_blocks bs s = Some (Inr t)"
  shows "keeps s t \<and> (\<exists>new. out t = out s @ new \<and> subseq (map (\<lambda>b. heading (fst b)) bs) new)"
  using assms
proof (induction bs arbitrary: s)
  case (Cons b bs)
  let ?s = "puts (newline @ fst b) s"
  obtain u where u: "do_all (snd b) ?s = Some (Inr u)" "do_blocks bs u = Some (Inr t)"
    using Cons.prems(2) by (auto split: option.splits sum.splits)
  have "sdb_command (do_all (snd b))" using Cons.prems(1) by (intro do_all_command) simp
  from sdb_command.run_keeps [OF this u(1)] have k: "keeps ?s u" .
  then obtain n1 where n1: "out u = out s @ [heading (fst b)] @ n1" by (auto simp: keeps_def heading_def)
  obtain n2 where n2: "keeps u t" "out t = out u @ n2" "subseq (map (\<lambda>b. heading (fst b)) bs) n2"
    using Cons.IH [OF _ u(2)] Cons.prems(1) by auto
  have "keeps s t" using keeps_trans [OF keeps_emit_first [OF k] n2(1)] .
  moreover have "out t = out s @ (heading (fst b) # n1 @ n2)" using n1 n2(2) by simp
  moreover have "subseq (map (\<lambda>b. heading (fst b)) (b # bs)) (heading (fst b) # n1 @ n2)"
    using list_emb_append2 [OF n2(3), of n1] by simp
  ultimately show ?case by blast
qed auto

lemma test_blocks_commands: "\<forall>b\<in>set (test_blocks V). \<forall>f\<in>set (snd b). sdb_command f"
  by (simp add: test_blocks_def calls_are_commands copy_rdx_command)

lemma test_blocks_return:
  assumes "finite_waits (host_of V) pending"
  shows "\<forall>b\<in>set (test_blocks V). \<forall>f\<in>set (snd b). \<forall>s. f s \<noteq> None"
proof -
  have "sdb_cont (host_of V) s \<noteq> None" "sdb_run (host_of V) s \<noteq> None" for s
    using finite_waits.resume_returns [OF assms]
    by (auto simp: sdb_cont_def sdb_run_def split: sum.splits option.splits)
  then show ?thesis by (simp add: test_blocks_def t_defs copy_rdx_def)
qed

end
