(* ===== verification/Trace_Sessions.thy ===== *)
theory Trace_Sessions
  imports Sdb_Trace Table_Sessions
begin

text \<open>
  The machine of \<open>Tiny_Machine\<close> as a program that runs by itself, and the same machine under
  a system that runs it without a bound; the theorems of \<open>Sdb_Trace\<close> on them.
\<close>

subsection \<open>The system\<close>

partial_function (option) run_free :: "machine \<Rightarrow> machine option" where
  "run_free m =
     (case exec_insn m of
        (m1, Some st) \<Rightarrow> Some (m1\<lparr>m_events := m_events m1 @ [st]\<rparr>)
      | (m1, None) \<Rightarrow> run_free m1)"

definition free_host :: "machine host" where
  "free_host = tiny_host\<lparr>h_cont := (\<lambda>p m. if here p m then (case run_free m of None \<Rightarrow> m | Some m' \<Rightarrow> m') else m)\<rparr>"

definition demo_cpu :: "unit cpu" where
  "demo_cpu \<sigma> =
     (let r = p_regs \<sigma> in
      case p_mem \<sigma> (rip r) of
        None \<Rightarrow> Faults
      | Some b \<Rightarrow>
          if b = 0xcc then Faults
          else if b = 0xf4 then Exits (unat (ucast (rdi r) AND 0xff :: u32))
          else if b = 0xe0 then Goes (\<sigma>\<lparr>p_regs := r\<lparr>rip := rax r\<rparr>\<rparr>)
          else Goes (\<sigma>\<lparr>p_regs := r\<lparr>rip := rip r + 1\<rparr>\<rparr>))"

text \<open>Stopped and with nothing to report.\<close>

definition demo_env_of :: "int \<Rightarrow> machine \<Rightarrow> unit option" where
  "demo_env_of p m = (if here p m \<and> m_events m = [] then Some () else None)"

definition demo_points :: "u64 set" where
  "demo_points = {0x1004, 0x1010}"

lemma free_host_simps [simp]:
  "h_peek free_host = h_peek tiny_host" "h_poke free_host = h_poke tiny_host"
  "h_getregs free_host = h_getregs tiny_host" "h_setregs free_host = h_setregs tiny_host"
  "h_maps free_host = h_maps tiny_host" "h_waitpid free_host = h_waitpid tiny_host"
  "h_singlestep free_host = h_singlestep tiny_host" "h_disasm free_host = h_disasm tiny_host"
  "h_cont free_host p m = (if here p m then (case run_free m of None \<Rightarrow> m | Some m' \<Rightarrow> m') else m)"
  by (simp_all add: free_host_def)

interpretation free: ptrace_host free_host machine_mem
  using tiny.ptrace_host_axioms by (simp add: ptrace_host_def)

subsection \<open>The laws\<close>

lemma at_machine:
  "process_at free_host machine_mem demo_env_of p k A \<sigma> \<longleftrightarrow>
     here p k \<and> m_mem k = with_int3 A (p_mem \<sigma>) \<and> m_regs k = p_regs \<sigma> \<and> m_events k = []"
  by (auto simp: process_at_def demo_env_of_def machine_mem_def)

lemma exec_goes:
  assumes "process_at free_host machine_mem demo_env_of p k A \<sigma>" "pc \<sigma> \<notin> A" "demo_cpu \<sigma> = Goes \<sigma>'"
  shows "exec_insn k = (k\<lparr>m_regs := p_regs \<sigma>'\<rparr>, None)" "p_mem \<sigma>' = p_mem \<sigma>"
    "process_at free_host machine_mem demo_env_of p (k\<lparr>m_regs := p_regs \<sigma>'\<rparr>) A \<sigma>'"
  using assms by (auto simp: at_machine exec_insn_def demo_cpu_def with_int3_def Let_def split: option.splits if_splits)

lemma exec_exits:
  assumes "process_at free_host machine_mem demo_env_of p k A \<sigma>" "pc \<sigma> \<notin> A" "demo_cpu \<sigma> = Exits c"
  shows "exec_insn k = (k\<lparr>m_alive := False\<rparr>, Some (of_nat (256 * c)))" "c < 256"
proof -
  let ?w = "ucast (rdi (p_regs \<sigma>)) AND 0xff :: u32"
  have c: "c = unat ?w" and b: "p_mem \<sigma> (pc \<sigma>) = Some 0xf4"
    using assms(3) by (auto simp: demo_cpu_def Let_def split: option.splits if_splits)
  then show "exec_insn k = (k\<lparr>m_alive := False\<rparr>, Some (of_nat (256 * c)))"
    using assms(1,2) by (simp add: at_machine exec_insn_def with_int3_def)
  have "?w \<le> 0xff" by (rule word_and_le1)
  then show "c < 256" by (simp add: c word_le_nat_alt)
qed

lemma exec_traps:
  assumes "process_at free_host machine_mem demo_env_of p k A \<sigma>" "pc \<sigma> \<in> A"
  shows "exec_insn k = (k\<lparr>m_regs := (p_regs \<sigma>)\<lparr>rip := pc \<sigma> + 1\<rparr>\<rparr>, Some sigtrap_stop)"
  using assms by (simp add: at_machine exec_insn_def with_int3_def Let_def)

lemma run_free_arrives:
  assumes "runs_to demo_cpu A \<sigma> r" "process_at free_host machine_mem demo_env_of p k A \<sigma>"
  shows "(\<forall>\<sigma>'. r = Inr \<sigma>' \<longrightarrow> p_mem \<sigma>' = p_mem \<sigma> \<and> run_free k =
        Some (k\<lparr>m_regs := (p_regs \<sigma>')\<lparr>rip := pc \<sigma>' + 1\<rparr>, m_events := [sigtrap_stop]\<rparr>)) \<and>
    (\<forall>c. r = Inl c \<longrightarrow> c < 256 \<and> (\<exists>g. run_free k = Some (k\<lparr>m_regs := g, m_alive := False, m_events := [of_nat (256 * c)]\<rparr>)))"
  using assms
proof (induction arbitrary: k rule: runs_to.induct)
  case (Arrive \<sigma>)
  then show ?case using exec_traps [OF Arrive(2,1)] by (simp add: run_free.simps [of k] at_machine)
next
  case (End \<sigma> c)
  have "run_free k = Some (k\<lparr>m_regs := m_regs k, m_alive := False, m_events := [of_nat (256 * c)]\<rparr>)"
    using exec_exits [OF End(3,1,2)] End(3) by (simp add: run_free.simps [of k] at_machine del: of_nat_mult)
  with exec_exits(2) [OF End(3,1,2)] show ?case by blast
next
  case (Move \<sigma> \<sigma>1 r)
  note go = exec_goes [OF Move.prems Move.hyps(1,2)]
  have eq: "run_free k = run_free (k\<lparr>m_regs := p_regs \<sigma>1\<rparr>)" by (subst run_free.simps) (simp add: go(1))
  note IH = Move.IH [OF go(3)]
  show ?case
  proof (cases r)
    case (Inl c)
    with conjunct2 [OF IH] show ?thesis unfolding eq by simp
  next
    case (Inr \<tau>)
    with conjunct1 [OF IH] show ?thesis unfolding eq by (simp add: go(2))
  qed
qed

interpretation free: cpu_host free_host machine_mem demo_env_of demo_cpu demo_points
proof unfold_locales
  fix p :: int and a w :: u64 and k :: machine and r and A and \<sigma> \<sigma>' :: "unit process" and c :: nat
  show "demo_env_of p (snd (h_poke free_host p a w k)) = demo_env_of p k" by (simp add: demo_env_of_def)
  show "demo_env_of p (snd (h_setregs free_host p r k)) = demo_env_of p k" by (simp add: demo_env_of_def)
  show "p_mem \<sigma>' (a + of_nat j) = p_mem \<sigma> (a + of_nat j)" if "demo_cpu \<sigma> = Goes \<sigma>'" for j
    using that by (auto simp: demo_cpu_def Let_def split: option.splits if_splits)
  assume at: "process_at free_host machine_mem demo_env_of p k A \<sigma>"
  then have here: "here p k" "m_pid k = p" "m_events k = []" "m_alive k" by (simp_all add: at_machine here_def)
  have step: "h_singlestep free_host p k = (True, k\<lparr>m_regs := g, m_events := [sigtrap_stop]\<rparr>) \<and>
      h_waitpid free_host p (k\<lparr>m_regs := g, m_events := [sigtrap_stop]\<rparr>) = (Waited sigtrap_stop, k\<lparr>m_regs := g, m_events := []\<rparr>) \<and>
      h_maps free_host p (k\<lparr>m_regs := g, m_events := []\<rparr>) = h_maps free_host p k"
    if "exec_insn k = (k\<lparr>m_regs := g\<rparr>, ev)" "ev = None \<or> ev = Some sigtrap_stop" for g ev
    using that here by (auto simp: here_def)
  have at': "process_at free_host machine_mem demo_env_of p (k\<lparr>m_regs := p_regs \<tau>, m_events := []\<rparr>) A \<tau>"
    if "p_mem \<tau> = p_mem \<sigma>" for \<tau>
    using at that by (simp add: at_machine)
  show "\<exists>st k1 k2. h_singlestep free_host p k = (True, k1) \<and> h_waitpid free_host p k1 = (Waited st, k2) \<and>
      process_at free_host machine_mem demo_env_of p k2 A \<sigma>' \<and> h_maps free_host p k2 = h_maps free_host p k"
    if "pc \<sigma> \<notin> A" "demo_cpu \<sigma> = Goes \<sigma>'"
    using step [OF exec_goes(1) [OF at that]] at' [OF exec_goes(2) [OF at that]] by blast
  show "\<exists>st k1 k2. h_singlestep free_host p k = (True, k1) \<and> h_waitpid free_host p k1 = (Waited st, k2) \<and>
      process_at free_host machine_mem demo_env_of p k2 A (\<sigma>\<lparr>p_regs := (p_regs \<sigma>)\<lparr>rip := pc \<sigma> + 1\<rparr>\<rparr>) \<and>
      h_maps free_host p k2 = h_maps free_host p k"
    if "pc \<sigma> \<in> A"
    using step [OF exec_traps [OF at that]] at' [of "\<sigma>\<lparr>p_regs := (p_regs \<sigma>)\<lparr>rip := pc \<sigma> + 1\<rparr>\<rparr>"] by fastforce
  show "\<exists>st k2. h_waitpid free_host p (h_cont free_host p k) = (Waited st, k2) \<and> WIFSTOPPED st \<and>
      process_at free_host machine_mem demo_env_of p k2 A (\<sigma>'\<lparr>p_regs := (p_regs \<sigma>')\<lparr>rip := pc \<sigma>' + 1\<rparr>\<rparr>) \<and>
      h_maps free_host p k2 = h_maps free_host p k"
    if "runs_to demo_cpu A \<sigma> (Inr \<sigma>')"
  proof -
    let ?g = "(p_regs \<sigma>')\<lparr>rip := pc \<sigma>' + 1\<rparr>"
    have r: "run_free k = Some (k\<lparr>m_regs := ?g, m_events := [sigtrap_stop]\<rparr>)" "p_mem \<sigma>' = p_mem \<sigma>"
      using run_free_arrives [OF that at] by simp_all
    then have "h_waitpid free_host p (h_cont free_host p k) = (Waited sigtrap_stop, k\<lparr>m_regs := ?g, m_events := []\<rparr>)"
      "h_maps free_host p (k\<lparr>m_regs := ?g, m_events := []\<rparr>) = h_maps free_host p k"
      using here by simp_all
    moreover have "WIFSTOPPED sigtrap_stop" by (simp add: WIFSTOPPED_def sigtrap_stop_def)
    ultimately show ?thesis using at' [of "\<sigma>'\<lparr>p_regs := ?g\<rparr>"] r(2) by fastforce
  qed
  show "\<exists>k1 k2. h_waitpid free_host p (h_cont free_host p k) = (Waited (of_nat (256 * c)), k1) \<and> c < 256 \<and>
      h_waitpid free_host p k1 = (Wait_Error, k2)"
    if run: "runs_to demo_cpu A \<sigma> (Inl c)"
  proof -
    obtain g where "run_free k = Some (k\<lparr>m_regs := g, m_alive := False, m_events := [of_nat (256 * c)]\<rparr>)" "c < 256"
      using run_free_arrives [OF run at] by blast
    then show ?thesis using here by (simp del: of_nat_mult)
  qed
qed

subsection \<open>From the start to the end\<close>

definition demo_at :: "u64 \<Rightarrow> unit process" where
  "demo_at a = \<lparr>p_env = (), p_mem = demo_mem, p_regs = zero_regs\<lparr>rip := a\<rparr>\<rparr>"

definition free_env :: "machine env" where
  "free_env = \<lparr>host_of = free_host, elf_of = lib, raw_regs = zero_regs\<rparr>"

definition fresh_session :: "machine session" where
  "fresh_session = \<lparr>command = None, dbg = fresh\<rparr>"

lemma nop_runs:
  assumes "a - 0x1000 < 64" "a \<noteq> 0x1030" "a \<notin> B" "runs_to demo_cpu B (demo_at (a + 1)) r"
  shows "runs_to demo_cpu B (demo_at a) r"
proof (rule runs_to.Move)
  show "demo_cpu (demo_at a) = Goes (demo_at (a + 1))"
    using assms(1,2) by (simp add: demo_cpu_def demo_at_def demo_mem_def)
qed (use assms in \<open>simp_all add: demo_at_def\<close>)

lemma nop_arrives: "a = b \<Longrightarrow> b \<in> B \<Longrightarrow> runs_to demo_cpu B (demo_at a) (Inr (demo_at b))"
  using runs_to.Arrive [of "demo_at b" B demo_cpu] by (simp add: demo_at_def)

lemma hlt_ends: "a = 0x1030 \<Longrightarrow> a \<notin> B \<Longrightarrow> runs_to demo_cpu B (demo_at a) (Inl 3)"
  by (rule runs_to.End) (simp_all add: demo_at_def demo_cpu_def demo_mem_def zero_regs_def)

lemma demo_departs:
  "0x1000 \<notin> B \<Longrightarrow> departs demo_cpu B (demo_at 0x1000) (demo_at 0x1000)"
  "a \<in> {0x1004, 0x1010} \<Longrightarrow> a \<in> B \<Longrightarrow> b = a + 1 \<Longrightarrow> departs demo_cpu B (demo_at a) (demo_at b)"
  by (auto simp: departs_def demo_at_def demo_cpu_def demo_mem_def)

lemma demo_visits:
  "visits demo_cpu {0x1004, 0x1010} (demo_at 0x1000) [demo_at 0x1004, demo_at 0x1010] (Some 3)"
proof (intro visits.intros)
  show "runs_to demo_cpu {0x1004, 0x1010} (demo_at 0x1000) (Inr (demo_at 0x1004))"
    by ((rule nop_runs, fastforce, fastforce, fastforce)+, rule nop_arrives) simp_all
  show "runs_to demo_cpu {0x1004, 0x1010} (demo_at (0x1004 + 1)) (Inr (demo_at 0x1010))"
    by ((rule nop_runs, fastforce, fastforce, fastforce)+, rule nop_arrives) simp_all
  show "runs_to demo_cpu {0x1004, 0x1010} (demo_at (0x1010 + 1)) (Inl 3)"
    by ((rule nop_runs, fastforce, fastforce, fastforce)+, rule hlt_ends) simp_all
qed (auto intro!: demo_departs)

lemma demo_fits: "j < MAX_BREAK \<Longrightarrow> used_at (demo w m) j \<Longrightarrow> insn_fits free_host j a"
  by (auto simp: demo_used insn_fits_def Let_def word_bytes_def upt_rec [of _ 8] tiny_insn_def)

lemma fresh_paused: "paused free_host machine_mem demo_env_of demo_points (demo_at 0x1000) fresh"
proof -
  have "debugged free_host machine_mem demo_mem {} fresh"
    using demo_placed [of free_host 0] by (simp add: debugged_def armed_def) (simp add: fresh_def)
  moreover have "process_at free_host machine_mem demo_env_of 42 (os fresh) {} (demo_at 0x1000)"
    by (simp add: at_machine demo_at_def zero_regs_def)
  ultimately show ?thesis
    by (auto simp: paused_def demo_at_def fresh_def demo_planted demo_points_def sdb_is_running_def all_live_def
        live_of_def intro: demo_fits)
qed

lemma demo_orderly: "a \<in> {0x1000, 0x1004, 0x1010} \<Longrightarrow> orderly free_host demo_cpu fresh (demo_at a)"
  by (auto simp: orderly_def fresh_def demo_used demo_live_of demo_at_def demo_cpu_def demo_mem_def)

theorem conts_follow_program_witness:
  "(\<exists>m. main_loop free_env (replicate 1 cont_line) fresh_session = Some (Inr (Next m)) \<and>
      paused free_host machine_mem demo_env_of demo_points (demo_at 0x1004) (dbg m)) \<and>
   (\<exists>m. main_loop free_env (replicate 2 cont_line) fresh_session = Some (Inr (Next m)) \<and>
      paused free_host machine_mem demo_env_of demo_points (demo_at 0x1010) (dbg m)) \<and>
   (\<exists>m. main_loop free_env (replicate 3 cont_line) fresh_session = Some (Inr (Next m)) \<and>
      \<not> sdb_is_running (sdb (dbg m)))"
proof -
  have m: "host_of free_env = free_host" "dbg fresh_session = fresh" by (simp_all add: free_env_def fresh_session_def)
  have vis: "visits demo_cpu (planted free_host (dbg fresh_session) MAX_BREAK) (demo_at 0x1000)
      [demo_at 0x1004, demo_at 0x1010] (Some 3)"
    using demo_visits by (simp add: m(2) fresh_def demo_planted)
  have ord: "\<forall>\<sigma>\<in>set (demo_at 0x1000 # [demo_at 0x1004, demo_at 0x1010]). orderly free_host demo_cpu (dbg fresh_session) \<sigma>"
    using demo_orderly by (simp add: m(2))
  have pau: "paused free_host machine_mem demo_env_of demo_points (demo_at 0x1000) (dbg fresh_session)"
    using fresh_paused by (simp add: m(2))
  note all = conts_follow_program [OF free.cpu_host_axioms m(1) pau vis ord]
  let ?vs = "[demo_at 0x1004, demo_at 0x1010]"
  have n: "1 \<le> length ?vs" "2 \<le> length ?vs" "(demo_at 0x1000 # ?vs) ! 1 = demo_at 0x1004"
      "(demo_at 0x1000 # ?vs) ! 2 = demo_at 0x1010" "Suc (length ?vs) = 3" by simp_all
  from conjunct1 [OF all] n(1,2) have
    "\<exists>m. main_loop free_env (replicate 1 cont_line) fresh_session = Some (Inr (Next m)) \<and>
      paused free_host machine_mem demo_env_of demo_points ((demo_at 0x1000 # ?vs) ! 1) (dbg m)"
    "\<exists>m. main_loop free_env (replicate 2 cont_line) fresh_session = Some (Inr (Next m)) \<and>
      paused free_host machine_mem demo_env_of demo_points ((demo_at 0x1000 # ?vs) ! 2) (dbg m)"
    by blast+
  moreover from conjunct2 [OF all] have "\<exists>m. main_loop free_env (replicate (Suc (length ?vs)) cont_line) fresh_session =
      Some (Inr (Next m)) \<and> \<not> sdb_is_running (sdb (dbg m))"
    by blast
  ultimately show ?thesis unfolding n(3-5) by blast
qed

subsection \<open>A jump to a breakpoint\<close>

text \<open>The instruction at the first breakpoint jumps to the second.\<close>

definition jump_mem :: mem where
  "jump_mem = demo_mem(0x1004 \<mapsto> 0xe0)"

definition jump_regs :: user_regs where
  "jump_regs = zero_regs\<lparr>rax := 0x1010, rip := 0x1004\<rparr>"

definition jump_at :: "u64 \<Rightarrow> unit process" where
  "jump_at a = \<lparr>p_env = (), p_mem = jump_mem, p_regs = jump_regs\<lparr>rip := a\<rparr>\<rparr>"

definition at_jump :: "machine sys" where
  "at_jump = demo nops (machine_at (with_int3 {0x1010} jump_mem) jump_regs)"

lemma jump_mem_eq: "x \<noteq> 0x1004 \<Longrightarrow> jump_mem x = demo_mem x" "jump_mem 0x1004 = Some 0xe0"
  by (simp_all add: jump_mem_def)

lemma jump_read: "read_word jump_mem 0x1010 = Some nops"
proof -
  have "jump_mem (0x1010 + of_nat i) = demo_mem (0x1010 + of_nat i)" if "i < 8" for i
    using less_8_cases [OF that] by (auto simp: jump_mem_eq)
  from read_word_cong [of jump_mem, OF this] demo_read(2) show ?thesis by simp
qed

lemma jump_placed: "well_placed H jump_mem (demo w m)"
proof -
  have "mapped_word jump_mem a" if "mapped_word demo_mem a" for a
    using that by (simp add: mapped_word_iff jump_mem_def)
  moreover have "jump_mem a \<noteq> Some 0xcc" if "demo_mem a \<noteq> Some 0xcc" for a
    using that by (simp add: jump_mem_def)
  ultimately show ?thesis
    using demo_placed [of H w m] by (simp add: well_placed_def entry_live_def clean_code_def)
qed

lemma at_jump_stopped: "stopped_at free_host machine_mem jump_mem 0 jump_regs at_jump"
proof -
  have "planted free_host at_jump MAX_BREAK - {live_of free_host at_jump 0} = {0x1010}"
    by (auto simp: at_jump_def demo_planted demo_live_of)
  moreover have "debugged free_host machine_mem jump_mem {0x1010} at_jump"
    using jump_placed [of free_host nops]
    by (auto simp: debugged_def at_jump_def demo_planted armed_def demo_used demo_live_of jump_read)
       (simp_all add: demo_breaks_def)
  moreover have "all_live free_host at_jump" "used_at at_jump 0" "rip jump_regs = live_of free_host at_jump 0"
    by (simp_all add: all_live_def at_jump_def live_of_def used_at_def demo_breaks_def jump_regs_def)
  ultimately show ?thesis
    by (simp add: stopped_at_def MAX_BREAK_def) (simp add: at_jump_def)
qed

theorem cont_overruns_breakpoint_witness:
  "\<exists>t. sdb_patch_all_bp free_host at_jump = Inr t \<and> sdb_cont free_host at_jump = resume free_host None t \<and>
     h_getregs free_host 42 (os t) = Some (jump_regs\<lparr>rip := 0x1011\<rparr>)"
proof -
  have pid: "pid (sdb at_jump) = 42" and live: "live_of free_host at_jump 1 = 0x1010"
    by (simp_all add: at_jump_def demo_live_of)
  have run: "sdb_is_running (sdb at_jump)" by (simp add: sdb_is_running_def pid)
  have stop: "stopped_at free_host machine_mem (p_mem (jump_at 0x1004)) 0 (p_regs (jump_at 0x1004)) at_jump"
    using at_jump_stopped by (simp add: jump_at_def) (simp add: jump_regs_def)
  have env: "demo_env_of (pid (sdb at_jump)) (os at_jump) = Some (p_env (jump_at 0x1004))"
    by (simp add: demo_env_of_def pid) (simp add: at_jump_def)
  have sub: "planted free_host at_jump MAX_BREAK \<subseteq> demo_points" by (simp add: at_jump_def demo_planted demo_points_def)
  have k: "(0::nat) < 1" "(1::nat) < MAX_BREAK" "used_at at_jump 1"
    by (simp_all add: MAX_BREAK_def at_jump_def used_at_def demo_breaks_def)
  have go: "demo_cpu (jump_at 0x1004) = Goes (jump_at 0x1010)" "pc (jump_at 0x1010) = live_of free_host at_jump 1"
    by (simp_all add: demo_cpu_def jump_at_def jump_mem_def live [simplified]) (simp add: jump_regs_def)
  from cont_overruns_breakpoint [OF free.cpu_host_axioms run stop env sub k go] obtain t where
    "sdb_patch_all_bp free_host at_jump = Inr t" "sdb_cont free_host at_jump = resume free_host None t"
    "process_at free_host machine_mem demo_env_of 42 (os t) (planted free_host at_jump MAX_BREAK)
       (jump_at 0x1010\<lparr>p_regs := (p_regs (jump_at 0x1010))\<lparr>rip := 0x1011\<rparr>\<rparr>)"
    by (auto simp: live [simplified] pid)
  then show ?thesis by (auto simp: process_at_def jump_at_def)
qed

end
