(* ===== verification/Walk_Sessions.thy ===== *)
theory Walk_Sessions
  imports Sdb_Walk Sdb_Test Trace_Sessions
begin

text \<open>Concrete sessions of \<open>cont\<close> and \<open>si\<close> on the machine of \<open>Trace_Sessions\<close>, and the test program on
  \<open>tiny_host\<close>.\<close>

lemma demo_orderly_nop: "a \<in> {0x1001, 0x1006} \<Longrightarrow> orderly free_host demo_cpu fresh (demo_at a)"
  by (auto simp: orderly_def fresh_def demo_used demo_live_of demo_at_def)

lemma nop_goes: "a - 0x1000 < 64 \<Longrightarrow> a \<noteq> 0x1030 \<Longrightarrow> demo_cpu (demo_at a) = Goes (demo_at (a + 1))"
  by (simp add: demo_cpu_def demo_at_def demo_mem_def)

lemma demo_pc [simp]: "pc (demo_at a) = a"
  by (simp add: demo_at_def)

lemma demo_walks:
  assumes "B = {0x1004, 0x1010}" "ok (demo_at 0x1001)" "ok (demo_at 0x1006)"
  shows "walks demo_cpu B ok (demo_at 0x1000) [Si, Cont, Si, Si, Cont] (demo_at 0x1010)"
proof -
  have s1: "demo_cpu (demo_at 0x1000) = Goes (demo_at 0x1001)" and s2: "demo_cpu (demo_at 0x1004) = Goes (demo_at 0x1005)"
    and s3: "demo_cpu (demo_at 0x1005) = Goes (demo_at 0x1006)"
    using nop_goes [of "0x1000"] nop_goes [of "0x1004"] nop_goes [of "0x1005"] by simp_all
  have r1: "runs_to demo_cpu B (demo_at 0x1001) (Inr (demo_at 0x1004))" unfolding assms(1)
    by ((rule nop_runs, fastforce, fastforce, fastforce)+, rule nop_arrives) simp_all
  have r2: "runs_to demo_cpu B (demo_at 0x1006) (Inr (demo_at 0x1010))" unfolding assms(1)
    by ((rule nop_runs, fastforce, fastforce, fastforce)+, rule nop_arrives) simp_all
  have d: "departs demo_cpu B (demo_at 0x1001) (demo_at 0x1001)" "departs demo_cpu B (demo_at 0x1006) (demo_at 0x1006)"
    by (simp_all add: departs_def assms(1))
  have "walks demo_cpu B ok (demo_at 0x1006) [Cont] (demo_at 0x1010)"
    by (rule walks.Run [where ok = ok, OF assms(3) d(2) r2]) (rule walks.Stay)
  then have "walks demo_cpu B ok (demo_at 0x1005) [Si, Cont] (demo_at 0x1010)"
    by (intro walks.Step [where cpu = demo_cpu, OF s3]) (simp_all add: assms(1))
  then have "walks demo_cpu B ok (demo_at 0x1004) [Si, Si, Cont] (demo_at 0x1010)"
    by (intro walks.Step [where cpu = demo_cpu, OF s2]) (simp_all add: assms(1))
  then have "walks demo_cpu B ok (demo_at 0x1001) [Cont, Si, Si, Cont] (demo_at 0x1010)"
    by (rule walks.Run [where ok = ok, OF assms(2) d(1) r1])
  then show ?thesis by (intro walks.Step [where cpu = demo_cpu, OF s1]) (simp_all add: assms(1))
qed

theorem session_follows_program_witness:
  "\<exists>m o'. main_loop free_env (map line_of [Si, Cont, Si, Si, Cont] @ [''getregs'' @ newline]) fresh_session = Some (Inr (Next m)) \<and>
     out (dbg m) = o' @ map Stdout (reg_lines (zero_regs\<lparr>rip := 0x1010\<rparr>))"
proof -
  have m: "host_of free_env = free_host" "dbg fresh_session = fresh" by (simp_all add: free_env_def fresh_session_def)
  have pau: "paused free_host machine_mem demo_env_of demo_points (demo_at 0x1000) (dbg fresh_session)"
    using fresh_paused by (simp add: m(2))
  have "planted free_host (dbg fresh_session) MAX_BREAK = {0x1004, 0x1010}"
    by (simp add: m(2) fresh_def demo_planted)
  then have walk: "walks demo_cpu (planted free_host (dbg fresh_session) MAX_BREAK) (orderly free_host demo_cpu (dbg fresh_session))
      (demo_at 0x1000) [Si, Cont, Si, Si, Cont] (demo_at 0x1010)"
    by (rule demo_walks) (simp_all add: m(2) demo_orderly_nop)
  have "p_regs (demo_at 0x1010) = zero_regs\<lparr>rip := 0x1010\<rparr>" by (simp add: demo_at_def)
  with session_follows_program [OF free.cpu_host_axioms m(1) pau walk] show ?thesis by metis
qed

theorem si_overruns_breakpoint_witness:
  "\<exists>t u. sdb_step free_host at_jump = Inr t \<and> h_getregs free_host 42 (os t) = Some (jump_regs\<lparr>rip := 0x1010\<rparr>) \<and>
     sdb_step free_host t = Inr u \<and> h_getregs free_host 42 (os u) = Some (jump_regs\<lparr>rip := 0x1011\<rparr>)"
proof -
  have pid: "pid (sdb at_jump) = 42" and live: "live_of free_host at_jump 1 = 0x1010" "live_of free_host at_jump 0 = 0x1004"
    by (simp_all add: at_jump_def demo_live_of)
  have run: "sdb_is_running (sdb at_jump)" by (simp add: sdb_is_running_def pid)
  have stop: "stopped_at free_host machine_mem (p_mem (jump_at 0x1004)) 0 (p_regs (jump_at 0x1004)) at_jump"
    using at_jump_stopped by (simp add: jump_at_def) (simp add: jump_regs_def)
  have env: "demo_env_of (pid (sdb at_jump)) (os at_jump) = Some (p_env (jump_at 0x1004))"
    by (simp add: demo_env_of_def pid) (simp add: at_jump_def)
  have sub: "planted free_host at_jump MAX_BREAK \<subseteq> demo_points" by (simp add: at_jump_def demo_planted demo_points_def)
  have k: "(1::nat) < MAX_BREAK" "used_at at_jump 1" "live_of free_host at_jump 1 \<noteq> live_of free_host at_jump 0"
    using live by (simp_all add: MAX_BREAK_def at_jump_def used_at_def demo_breaks_def)
  have go: "demo_cpu (jump_at 0x1004) = Goes (jump_at 0x1010)" "pc (jump_at 0x1010) = live_of free_host at_jump 1"
    by (simp_all add: demo_cpu_def jump_at_def jump_mem_def live [simplified]) (simp add: jump_regs_def)
  from si_overruns_breakpoint [OF free.cpu_host_axioms run stop env sub k go] obtain t u where
    "sdb_step free_host at_jump = Inr t" "sdb_step free_host t = Inr u"
    "process_at free_host machine_mem demo_env_of 42 (os t) (planted free_host at_jump MAX_BREAK - {pc (jump_at 0x1004)}) (jump_at 0x1010)"
    "process_at free_host machine_mem demo_env_of 42 (os u) (planted free_host at_jump MAX_BREAK - {pc (jump_at 0x1004)})
       (jump_at 0x1010\<lparr>p_regs := (p_regs (jump_at 0x1010))\<lparr>rip := live_of free_host at_jump 1 + 1\<rparr>\<rparr>)"
    unfolding pid by blast
  then show ?thesis by (auto simp: process_at_def jump_at_def live [simplified])
qed

end
