(* ===== verification/Mini_Jump.thy ===== *)
theory Mini_Jump
  imports Prelude
begin

text \<open>
  \<open>setjmp\<close> and \<open>longjmp\<close> of \<^verbatim>\<open>hw3/libmini.c\<close>.  Both are C functions compiled without
  optimisation around inline assembly: the instructions are the source's, executed on
  registers and a memory of quadwords (every access here is an aligned quadword); the
  code that the compiler puts around them is described by \<open>entered\<close> (what holds after the
  prologue), \<open>call_sigprocmask\<close> (a call of a C function under the calling convention) and
  \<open>return_value\<close> (the epilogue).
\<close>

subsection \<open>The machine\<close>

datatype reg = RAX | RBX | RCX | RDX | RSI | RDI | RSP | RBP | R12 | R13 | R14 | R15

record machine =
  regs :: "reg \<Rightarrow> u64"
  cells :: "u64 \<Rightarrow> u64"
  rip :: u64
  sigmask :: u64
  err :: u64

text \<open>
  The instructions that the source uses, in its operand order: \<open>Load d b r\<close> is
  \<open>mov d(b),r\<close>, \<open>Store r d b\<close> is \<open>mov r,d(b)\<close>, \<open>Jnz_over r n\<close> is \<open>test r,r; jnz\<close> over the
  next \<open>n\<close> instructions.
\<close>

datatype insn =
    Mov reg reg
  | Load u64 reg reg
  | Store reg u64 reg
  | Lea u64 reg reg
  | Push reg
  | Pop reg
  | Jnz_over reg nat
  | Inc reg
  | Jmp reg

definition set_reg :: "reg \<Rightarrow> u64 \<Rightarrow> machine \<Rightarrow> machine" where
  "set_reg r v s = s\<lparr>regs := (regs s)(r := v)\<rparr>"

definition set_cell :: "u64 \<Rightarrow> u64 \<Rightarrow> machine \<Rightarrow> machine" where
  "set_cell a v s = s\<lparr>cells := (cells s)(a := v)\<rparr>"

fun step :: "insn \<Rightarrow> machine \<Rightarrow> machine" where
  "step (Mov a b) s = set_reg b (regs s a) s"
| "step (Load d b r) s = set_reg r (cells s (regs s b + d)) s"
| "step (Store r d b) s = set_cell (regs s b + d) (regs s r) s"
| "step (Lea d b r) s = set_reg r (regs s b + d) s"
| "step (Push r) s = set_reg RSP (regs s RSP - 8) (set_cell (regs s RSP - 8) (regs s r) s)"
| "step (Pop r) s = set_reg r (cells s (regs s RSP)) (set_reg RSP (regs s RSP + 8) s)"
| "step (Jnz_over r n) s = s"
| "step (Inc r) s = set_reg r (regs s r + 1) s"
| "step (Jmp r) s = s\<lparr>rip := regs s r\<rparr>"

function exec :: "insn list \<Rightarrow> machine \<Rightarrow> machine" where
  "exec [] s = s"
| "exec (i # is) s =
     (case i of
        Jnz_over r n \<Rightarrow> exec (if regs s r \<noteq> 0 then drop n is else is) s
      | Jmp r \<Rightarrow> step i s
      | _ \<Rightarrow> exec is (step i s))"
  by pat_completeness auto
termination by (relation "measure (length \<circ> fst)") auto

subsection \<open>The two functions\<close>

text \<open>\<open>jmp_buf\<close>: eight registers and the signal mask behind them.\<close>

definition mask_at :: u64 where "mask_at = 64"

definition SIG_BLOCK :: u32 where "SIG_BLOCK = 0"
definition SIG_UNBLOCK :: u32 where "SIG_UNBLOCK = 1"

definition setjmp_asm :: "insn list" where
  "setjmp_asm =
     [Store RBX 0 RDI,
      Lea 16 RBP RAX,
      Store RAX 8 RDI,
      Load 0 RBP RAX,
      Store RAX 16 RDI,
      Store R12 24 RDI,
      Store R13 32 RDI,
      Store R14 40 RDI,
      Store R15 48 RDI,
      Load 8 RBP RAX,
      Store RAX 56 RDI]"

definition longjmp_save :: "insn list" where
  "longjmp_save = [Push RDI, Push RSI]"

definition longjmp_asm :: "insn list" where
  "longjmp_asm =
     [Pop RSI,
      Pop RDI,
      Mov RSI RAX,
      Jnz_over RAX 1,
      Inc RAX,
      Load 0 RDI RBX,
      Load 8 RDI RSP,
      Load 16 RDI RBP,
      Load 24 RDI R12,
      Load 32 RDI R13,
      Load 40 RDI R14,
      Load 48 RDI R15,
      Load 56 RDI RCX,
      Jmp RCX]"

text \<open>
  The documented effect of \<open>rt_sigprocmask\<close> on the mask of blocked signals: without a new
  set nothing changes; \<open>SIGKILL\<close> and \<open>SIGSTOP\<close> are never blocked.
\<close>

definition unblockable :: u64 where "unblockable = push_bit 8 1 OR push_bit 18 1"

definition new_mask :: "u32 \<Rightarrow> u64 option \<Rightarrow> u64 \<Rightarrow> u64" where
  "new_mask how sset m =
     (case sset of
        None \<Rightarrow> m
      | Some x \<Rightarrow> (if how = SIG_BLOCK then m OR x
                   else if how = SIG_UNBLOCK then m AND NOT x else x) AND NOT unblockable)"

text \<open>
  A call of \<open>sigprocmask\<close>, \<open>0\<close> standing for a null pointer; it succeeds and clears
  \<open>errno\<close>.  The calling convention lets it
  change the registers \<open>rax\<close>, \<open>rcx\<close>, \<open>rdx\<close>, \<open>rsi\<close>, \<open>rdi\<close> (to what \<open>C\<close> says) and the
  \<open>depth\<close> bytes of stack below \<open>rsp\<close>.
\<close>

record clobbers =
  c_regs :: "reg \<Rightarrow> u64"
  c_cells :: "u64 \<Rightarrow> u64"
  depth :: u64

definition scratch :: "clobbers \<Rightarrow> u64 \<Rightarrow> u64 \<Rightarrow> bool" where
  "scratch C sp a \<longleftrightarrow> a \<noteq> sp \<and> sp - a \<le> depth C"

definition call_sigprocmask :: "clobbers \<Rightarrow> u32 \<Rightarrow> u64 \<Rightarrow> u64 \<Rightarrow> machine \<Rightarrow> machine" where
  "call_sigprocmask C how sset oset s =
     (let new = (if sset = 0 then None else Some (cells s sset));
          below = (\<lambda>a. if scratch C (regs s RSP) a then c_cells C a else cells s a)
      in s\<lparr>regs := (\<lambda>r. if r \<in> {RAX, RCX, RDX, RSI, RDI} then c_regs C r else regs s r),
           cells := (if oset = 0 then below else below(oset := sigmask s)),
           sigmask := new_mask how new (sigmask s), err := 0\<rparr>)"

text \<open>\<open>return v\<close>: the value, \<open>leave\<close>, \<open>ret\<close>.\<close>

definition return_value :: "u64 \<Rightarrow> machine \<Rightarrow> machine" where
  "return_value v s =
     (let bp = regs s RBP in
      s\<lparr>regs := (regs s)(RAX := v, RBP := cells s bp, RSP := bp + 16), rip := cells s (bp + 8)\<rparr>)"

definition setjmp :: "clobbers \<Rightarrow> machine \<Rightarrow> machine" where
  "setjmp C s =
     (let env = regs s RDI; s = exec setjmp_asm s
      in return_value 0 (call_sigprocmask C SIG_UNBLOCK 0 (env + mask_at) s))"

definition longjmp :: "clobbers \<Rightarrow> machine \<Rightarrow> machine" where
  "longjmp C s =
     (let env = regs s RDI; s = exec longjmp_save s
      in exec longjmp_asm (call_sigprocmask C SIG_BLOCK (env + mask_at) 0 s))"

subsection \<open>Calls\<close>

text \<open>
  After the prologue of a function that the caller's state \<open>c\<close> calls with return address
  \<open>ret\<close>: the return address and the caller's \<open>rbp\<close> are on the stack under the caller's
  \<open>rsp\<close>, \<open>rbp\<close> points to them, and \<open>rsp\<close> is at or below it.
\<close>

definition entered :: "machine \<Rightarrow> u64 \<Rightarrow> machine \<Rightarrow> bool" where
  "entered c ret s \<longleftrightarrow>
     regs s RBP = regs c RSP - 16 \<and> cells s (regs c RSP - 8) = ret \<and> cells s (regs c RSP - 16) = regs c RBP \<and>
     (\<forall>r \<in> {RBX, R12, R13, R14, R15, RDI, RSI}. regs s r = regs c r) \<and> sigmask s = sigmask c"

text \<open>The nine quadwords of a \<open>jmp_buf\<close>, and what \<open>setjmp\<close> is to leave there.\<close>

definition env_cells :: "u64 \<Rightarrow> u64 set" where
  "env_cells env = {env, env + 8, env + 16, env + 24, env + 32, env + 40, env + 48, env + 56, env + 64}"

definition saved_in :: "machine \<Rightarrow> u64 \<Rightarrow> u64 \<Rightarrow> (u64 \<Rightarrow> u64) \<Rightarrow> bool" where
  "saved_in c ret env m \<longleftrightarrow>
     m env = regs c RBX \<and> m (env + 8) = regs c RSP \<and> m (env + 16) = regs c RBP \<and>
     m (env + 24) = regs c R12 \<and> m (env + 32) = regs c R13 \<and> m (env + 40) = regs c R14 \<and>
     m (env + 48) = regs c R15 \<and> m (env + 56) = ret \<and> m (env + 64) = sigmask c"

lemma set_reg_simps [simp]:
  "regs (set_reg r v s) = (regs s)(r := v)" "cells (set_reg r v s) = cells s"
  "sigmask (set_reg r v s) = sigmask s" "err (set_reg r v s) = err s" "rip (set_reg r v s) = rip s"
  by (simp_all add: set_reg_def)

lemma set_cell_simps [simp]:
  "regs (set_cell a v s) = regs s" "cells (set_cell a v s) = (cells s)(a := v)"
  "sigmask (set_cell a v s) = sigmask s" "err (set_cell a v s) = err s" "rip (set_cell a v s) = rip s"
  by (simp_all add: set_cell_def)

text \<open>A state in which a function can use a \<open>jmp_buf\<close>: it does not overlap what is on the stack.\<close>

definition env_free :: "clobbers \<Rightarrow> u64 \<Rightarrow> u64 \<Rightarrow> u64 set \<Rightarrow> bool" where
  "env_free C env sp frame \<longleftrightarrow>
     env + 64 \<noteq> 0 \<and> (\<forall>a \<in> env_cells env. a \<notin> frame \<and> \<not> scratch C sp a) \<and> (\<forall>a \<in> frame. \<not> scratch C sp a)"

lemma env_cells_memI:
  "env \<in> env_cells env" "env + 8 \<in> env_cells env" "env + 16 \<in> env_cells env" "env + 24 \<in> env_cells env"
  "env + 32 \<in> env_cells env" "env + 40 \<in> env_cells env" "env + 48 \<in> env_cells env"
  "env + 56 \<in> env_cells env" "env + 64 \<in> env_cells env"
  by (simp_all add: env_cells_def)

lemma setjmp_saves:
  assumes "entered c ret s" "env = regs c RDI"
    and "env_free C env (regs s RSP) {regs c RSP - 8, regs c RSP - 16}"
  shows "saved_in c ret env (cells (setjmp C s)) \<and> regs (setjmp C s) RAX = 0 \<and>
    (\<forall>r \<in> {RBX, RSP, RBP, R12, R13, R14, R15}. regs (setjmp C s) r = regs c r) \<and>
    rip (setjmp C s) = ret \<and> sigmask (setjmp C s) = sigmask c"
proof -
  have sep: "regs c RSP - 8 \<noteq> a" "regs c RSP - 16 \<noteq> a" "\<not> scratch C (regs s RSP) a" if "a \<in> env_cells env" for a
    using assms(3) that by (auto simp: env_free_def)
  have frame: "\<not> scratch C (regs s RSP) (regs c RSP - 8)" "\<not> scratch C (regs s RSP) (regs c RSP - 16)"
    "env + 64 \<noteq> 0" using assms(3) by (auto simp: env_free_def)
  note sep = env_cells_memI [THEN sep(1)] env_cells_memI [THEN sep(2)] env_cells_memI [THEN sep(3)]
  show ?thesis
    using assms(1,2) sep frame
    by (simp add: setjmp_def setjmp_asm_def Let_def call_sigprocmask_def return_value_def entered_def
        saved_in_def mask_at_def new_mask_def)
qed

lemma longjmp_restores:
  assumes "saved_in c ret env (cells s)" "regs s RDI = env"
    and "env_free C env (regs s RSP - 16) {regs s RSP - 8, regs s RSP - 16}"
  shows "(\<forall>r \<in> {RBX, RSP, RBP, R12, R13, R14, R15}. regs (longjmp C s) r = regs c r) \<and>
    rip (longjmp C s) = ret \<and> regs (longjmp C s) RAX = (if regs s RSI = 0 then 1 else regs s RSI) \<and>
    sigmask (longjmp C s) = (sigmask s OR sigmask c) AND NOT unblockable"
proof -
  have sep: "regs s RSP - 8 \<noteq> a" "regs s RSP - 16 \<noteq> a" "\<not> scratch C (regs s RSP - 16) a" if "a \<in> env_cells env" for a
    using assms(3) that by (auto simp: env_free_def)
  have frame: "\<not> scratch C (regs s RSP - 16) (regs s RSP - 8)" "\<not> scratch C (regs s RSP - 16) (regs s RSP - 16)"
    "env + 64 \<noteq> 0" using assms(3) by (auto simp: env_free_def)
  note sep = env_cells_memI [THEN sep(1)] env_cells_memI [THEN sep(2)] env_cells_memI [THEN sep(3)]
  show ?thesis
    using assms(1,2) sep frame
    by (simp add: longjmp_def Let_def longjmp_save_def longjmp_asm_def call_sigprocmask_def
        saved_in_def mask_at_def new_mask_def SIG_BLOCK_def)
qed

text \<open>
  C15: the second return of \<open>setjmp\<close>.  A function calls \<open>setjmp(env)\<close> and, in a state with
  the contents of \<open>env\<close> intact and \<open>env\<close> clear of the stack in use, \<open>longjmp(env, val)\<close> is
  entered.  The first return has the value 0 and leaves the callee-saved registers, the
  stack and the signal mask as they were; \<open>longjmp\<close> goes to the same return address with the
  same registers and stack, and the value \<open>val\<close>, or 1 where all 64 bits of \<open>rsi\<close> are zero.
\<close>

theorem longjmp_returns_to_setjmp:
  assumes "entered c ret s" "env = regs c RDI"
    and "env_free C env (regs s RSP) {regs c RSP - 8, regs c RSP - 16}"
    and "\<forall>a \<in> env_cells env. cells s' a = cells (setjmp C s) a" "regs s' RDI = env"
    and "env_free C' env (regs s' RSP - 16) {regs s' RSP - 8, regs s' RSP - 16}"
  shows "regs (setjmp C s) RAX = 0 \<and>
    regs (longjmp C' s') RAX = (if regs s' RSI = 0 then 1 else regs s' RSI) \<and>
    (\<forall>r \<in> {RBX, RSP, RBP, R12, R13, R14, R15}.
       regs (setjmp C s) r = regs c r \<and> regs (longjmp C' s') r = regs c r) \<and>
    rip (setjmp C s) = ret \<and> rip (longjmp C' s') = ret \<and> sigmask (setjmp C s) = sigmask c"
proof -
  note first = setjmp_saves [OF assms(1-3)]
  have "saved_in c ret env (cells s')"
    using first assms(4) env_cells_memI [of env] by (simp add: saved_in_def)
  from longjmp_restores [OF this assms(5,6)] first show ?thesis by blast
qed

text \<open>
  the signal mask after a jump.  It is not restored: \<open>longjmp\<close> blocks the saved mask on
  top of the present one, so the mask is the one at \<open>setjmp\<close> only where nothing was blocked
  in between.
\<close>

theorem longjmp_adds_mask:
  assumes "entered c ret s" "env = regs c RDI"
    and "env_free C env (regs s RSP) {regs c RSP - 8, regs c RSP - 16}"
    and "\<forall>a \<in> env_cells env. cells s' a = cells (setjmp C s) a" "regs s' RDI = env"
    and "env_free C' env (regs s' RSP - 16) {regs s' RSP - 8, regs s' RSP - 16}"
    and "sigmask c AND unblockable = 0" "sigmask s' AND unblockable = 0"
  shows "sigmask (longjmp C' s') = sigmask s' OR sigmask c \<and>
    (sigmask (longjmp C' s') = sigmask c \<longleftrightarrow> (\<forall>n. bit (sigmask s') n \<longrightarrow> bit (sigmask c) n))"
proof -
  have "saved_in c ret env (cells s')"
    using setjmp_saves [OF assms(1-3)] assms(4) env_cells_memI [of env] by (simp add: saved_in_def)
  from longjmp_restores [OF this assms(5,6)]
  have m: "sigmask (longjmp C' s') = (sigmask s' OR sigmask c) AND NOT unblockable" by blast
  have "(sigmask s' OR sigmask c) AND NOT unblockable = sigmask s' OR sigmask c"
    using assms(7,8) by (auto simp: bit_eq_iff bit_simps)
  moreover have "a OR b = b \<longleftrightarrow> (\<forall>n. bit a n \<longrightarrow> bit b n)" for a b :: u64
  proof
    assume "a OR b = b"
    then have "bit (a OR b) n = bit b n" for n by simp
    then show "\<forall>n. bit a n \<longrightarrow> bit b n" unfolding bit_or_iff by blast
  qed (auto intro!: bit_word_eqI simp: bit_or_iff)
  ultimately show ?thesis using m by simp
qed

end
