(* ===== verification/Mini_Syscall.thy ===== *)
theory Mini_Syscall
  imports Prelude
begin

text \<open>
  The system call layer of \<^verbatim>\<open>hw3\<close>: the \<open>gensys\<close> stubs of \<^verbatim>\<open>libmini64.asm\<close>, the two
  \<open>WRAPPER_RET\<close> macros and the wrappers of \<^verbatim>\<open>libmini.c\<close>, and \<open>open\<close> and \<open>sleep\<close>, which are
  written in assembly.  The kernel is a parameter: what a call with a number and its
  arguments returns in \<open>rax\<close>, and what it does to the state \<open>'k\<close> (in which the process's
  memory lives, so that a pointer is just an address).  Registers and \<open>long\<close> are 64-bit
  words, read as signed where the code compares them with zero.
\<close>

type_synonym 'k kernel = "nat \<Rightarrow> u64 list \<Rightarrow> 'k \<Rightarrow> u64 \<times> 'k"

record 'k proc =
  errno :: u64
  kern :: 'k

text \<open>\<open>gensys nr, name\<close>: the number in \<open>rax\<close>, the arguments in their registers.\<close>

definition gensys :: "'k kernel \<Rightarrow> nat \<Rightarrow> u64 list \<Rightarrow> 'k proc \<Rightarrow> u64 \<times> 'k proc" where
  "gensys K nr args p = (let (ret, k) = K nr args (kern p) in (ret, p\<lparr>kern := k\<rparr>))"

definition WRAPPER_RETval :: "u64 \<times> 'k proc \<Rightarrow> 'r::len word \<times> 'k proc" where
  "WRAPPER_RETval r =
     (let (ret, p) = r in
      if sint ret < 0 then (- 1, p\<lparr>errno := - ret\<rparr>) else (ucast ret, p\<lparr>errno := 0\<rparr>))"

definition WRAPPER_RETptr :: "u64 \<times> 'k proc \<Rightarrow> u64 \<times> 'k proc" where
  "WRAPPER_RETptr r =
     (let (ret, p) = r in
      if sint ret < 0 then (0, p\<lparr>errno := - ret\<rparr>) else (ret, p\<lparr>errno := 0\<rparr>))"

type_synonym ('k, 'r) wrapper = "'k proc \<Rightarrow> 'r word \<times> 'k proc"

subsection \<open>The wrappers\<close>

text \<open>\<open>sizeof(sigset_t)\<close> is 8.  An \<open>int\<close> argument is sign extended, an \<open>unsigned int\<close> zero extended.\<close>

definition read :: "'k kernel \<Rightarrow> u32 \<Rightarrow> u64 \<Rightarrow> u64 \<Rightarrow> ('k, 64) wrapper" where
  "read K fd buf count p = WRAPPER_RETval (gensys K 0 [scast fd, buf, count] p)"

definition write_fd :: "'k kernel \<Rightarrow> u32 \<Rightarrow> u64 \<Rightarrow> u64 \<Rightarrow> ('k, 64) wrapper" where
  "write_fd K fd buf count p = WRAPPER_RETval (gensys K 1 [scast fd, buf, count] p)"

definition close :: "'k kernel \<Rightarrow> u32 \<Rightarrow> ('k, 32) wrapper" where
  "close K fd p = WRAPPER_RETval (gensys K 3 [ucast fd] p)"

definition mmap :: "'k kernel \<Rightarrow> u64 \<Rightarrow> u64 \<Rightarrow> u32 \<Rightarrow> u32 \<Rightarrow> u32 \<Rightarrow> u64 \<Rightarrow> ('k, 64) wrapper" where
  "mmap K addr len prot flags fd off p = WRAPPER_RETptr (gensys K 9 [addr, len, scast prot, scast flags, scast fd, off] p)"

definition mprotect :: "'k kernel \<Rightarrow> u64 \<Rightarrow> u64 \<Rightarrow> u32 \<Rightarrow> ('k, 32) wrapper" where
  "mprotect K addr len prot p = WRAPPER_RETval (gensys K 10 [addr, len, scast prot] p)"

definition munmap :: "'k kernel \<Rightarrow> u64 \<Rightarrow> u64 \<Rightarrow> ('k, 32) wrapper" where
  "munmap K addr len p = WRAPPER_RETval (gensys K 11 [addr, len] p)"

definition pipe :: "'k kernel \<Rightarrow> u64 \<Rightarrow> ('k, 32) wrapper" where
  "pipe K filedes p = WRAPPER_RETval (gensys K 22 [filedes] p)"

definition dup :: "'k kernel \<Rightarrow> u32 \<Rightarrow> ('k, 32) wrapper" where
  "dup K filedes p = WRAPPER_RETval (gensys K 32 [scast filedes] p)"

definition dup2 :: "'k kernel \<Rightarrow> u32 \<Rightarrow> u32 \<Rightarrow> ('k, 32) wrapper" where
  "dup2 K oldfd newfd p = WRAPPER_RETval (gensys K 33 [scast oldfd, scast newfd] p)"

definition pause :: "'k kernel \<Rightarrow> ('k, 32) wrapper" where
  "pause K p = WRAPPER_RETval (gensys K 34 [] p)"

definition alarm :: "'k kernel \<Rightarrow> u32 \<Rightarrow> ('k, 32) wrapper" where
  "alarm K seconds p = WRAPPER_RETval (gensys K 37 [ucast seconds] p)"

definition fork :: "'k kernel \<Rightarrow> ('k, 32) wrapper" where
  "fork K p = WRAPPER_RETval (gensys K 57 [] p)"

definition getcwd :: "'k kernel \<Rightarrow> u64 \<Rightarrow> u64 \<Rightarrow> ('k, 64) wrapper" where
  "getcwd K buf sz p = WRAPPER_RETptr (gensys K 79 [buf, sz] p)"

definition chdir :: "'k kernel \<Rightarrow> u64 \<Rightarrow> ('k, 32) wrapper" where
  "chdir K pathname p = WRAPPER_RETval (gensys K 80 [pathname] p)"

definition rename :: "'k kernel \<Rightarrow> u64 \<Rightarrow> u64 \<Rightarrow> ('k, 32) wrapper" where
  "rename K oldname newname p = WRAPPER_RETval (gensys K 82 [oldname, newname] p)"

definition mkdir :: "'k kernel \<Rightarrow> u64 \<Rightarrow> u32 \<Rightarrow> ('k, 32) wrapper" where
  "mkdir K pathname mode p = WRAPPER_RETval (gensys K 83 [pathname, scast mode] p)"

definition rmdir :: "'k kernel \<Rightarrow> u64 \<Rightarrow> ('k, 32) wrapper" where
  "rmdir K pathname p = WRAPPER_RETval (gensys K 84 [pathname] p)"

definition creat :: "'k kernel \<Rightarrow> u64 \<Rightarrow> u32 \<Rightarrow> ('k, 32) wrapper" where
  "creat K pathname mode p = WRAPPER_RETval (gensys K 85 [pathname, scast mode] p)"

definition link :: "'k kernel \<Rightarrow> u64 \<Rightarrow> u64 \<Rightarrow> ('k, 32) wrapper" where
  "link K oldname newname p = WRAPPER_RETval (gensys K 86 [oldname, newname] p)"

definition unlink :: "'k kernel \<Rightarrow> u64 \<Rightarrow> ('k, 32) wrapper" where
  "unlink K pathname p = WRAPPER_RETval (gensys K 88 [pathname] p)"

definition readlink :: "'k kernel \<Rightarrow> u64 \<Rightarrow> u64 \<Rightarrow> u64 \<Rightarrow> ('k, 64) wrapper" where
  "readlink K path buf bufsz p = WRAPPER_RETval (gensys K 89 [path, buf, bufsz] p)"

definition chmod :: "'k kernel \<Rightarrow> u64 \<Rightarrow> u32 \<Rightarrow> ('k, 32) wrapper" where
  "chmod K filename mode p = WRAPPER_RETval (gensys K 90 [filename, scast mode] p)"

definition chown :: "'k kernel \<Rightarrow> u64 \<Rightarrow> u32 \<Rightarrow> u32 \<Rightarrow> ('k, 32) wrapper" where
  "chown K filename user grp p = WRAPPER_RETval (gensys K 92 [filename, scast user, scast grp] p)"

definition umask :: "'k kernel \<Rightarrow> u32 \<Rightarrow> ('k, 32) wrapper" where
  "umask K cmask p = WRAPPER_RETval (gensys K 95 [scast cmask] p)"

definition gettimeofday :: "'k kernel \<Rightarrow> u64 \<Rightarrow> u64 \<Rightarrow> ('k, 32) wrapper" where
  "gettimeofday K tv tz p = WRAPPER_RETval (gensys K 96 [tv, tz] p)"

definition getuid :: "'k kernel \<Rightarrow> ('k, 32) wrapper" where
  "getuid K p = WRAPPER_RETval (gensys K 102 [] p)"

definition getgid :: "'k kernel \<Rightarrow> ('k, 32) wrapper" where
  "getgid K p = WRAPPER_RETval (gensys K 104 [] p)"

definition setuid :: "'k kernel \<Rightarrow> u32 \<Rightarrow> ('k, 32) wrapper" where
  "setuid K uid p = WRAPPER_RETval (gensys K 105 [scast uid] p)"

definition setgid :: "'k kernel \<Rightarrow> u32 \<Rightarrow> ('k, 32) wrapper" where
  "setgid K gid p = WRAPPER_RETval (gensys K 106 [scast gid] p)"

definition geteuid :: "'k kernel \<Rightarrow> ('k, 32) wrapper" where
  "geteuid K p = WRAPPER_RETval (gensys K 107 [] p)"

definition getegid :: "'k kernel \<Rightarrow> ('k, 32) wrapper" where
  "getegid K p = WRAPPER_RETval (gensys K 108 [] p)"

definition sigpending :: "'k kernel \<Rightarrow> u64 \<Rightarrow> ('k, 32) wrapper" where
  "sigpending K sset p = WRAPPER_RETval (gensys K 127 [sset, 8] p)"

text \<open>\<open>exit\<close> does not return; \<open>sys_exit\<close> is the last thing the process does.\<close>

definition exit_call :: "u32 \<Rightarrow> nat \<times> u64 list" where
  "exit_call error_code = (60, [scast error_code])"

text \<open>\<open>nanosleep\<close> calls itself, not \<open>sys_nanosleep\<close>: \<open>None\<close> is a call that never returns.\<close>

partial_function (option) nanosleep :: "u64 \<Rightarrow> u64 \<Rightarrow> 'k proc \<Rightarrow> (u32 \<times> 'k proc) option" where
  "nanosleep rqtp rmtp p =
     Option.bind (nanosleep rqtp rmtp p) (\<lambda>(r, p1). Some (WRAPPER_RETval (scast r, p1)))"

subsection \<open>\<open>open\<close> and \<open>sleep\<close>\<close>

text \<open>\<open>open\<close>: the arguments stay in their registers; the result is the low half of \<open>rax\<close>.\<close>

definition open_asm :: "'k kernel \<Rightarrow> u64 \<Rightarrow> u32 \<Rightarrow> u32 \<Rightarrow> ('k, 32) wrapper" where
  "open_asm K filename flags mode p =
     (let (rax, p) = gensys K 2 [filename, scast flags, scast mode] p in
      if 0 \<le> sint rax then (ucast rax, p\<lparr>errno := 0\<rparr>)
      else (let rax = - rax in (ucast (- 1 :: u64), p\<lparr>errno := rax\<rparr>)))"

text \<open>
  The kernel's \<open>nanosleep\<close> on a request: the value in \<open>rax\<close> and \<open>rem.tv_sec\<close>, which it only
  stores when it is interrupted (\<open>old\<close> is what the stack slot contained before).
\<close>

type_synonym 'k nap = "u64 \<Rightarrow> u64 \<Rightarrow> u64 \<Rightarrow> 'k \<Rightarrow> (u64 \<times> u64) \<times> 'k"

definition sleep_asm :: "'k nap \<Rightarrow> u64 \<Rightarrow> u64 \<Rightarrow> 'k proc \<Rightarrow> u32 \<times> 'k proc" where
  "sleep_asm K old rdi p =
     (let ((rax, rem_sec), k) = K rdi 0 old (kern p); p = p\<lparr>kern := k\<rparr> in
      if 0 \<le> sint rax then (ucast rax, p)
      else (let rax = - rax in
        if rax \<noteq> 4 then (0, p)
        else (ucast rem_sec, p)))"

text \<open>The C version that the source keeps beside it under \<open>#if 0\<close>.\<close>

definition EINTR :: u64 where "EINTR = 4"

definition sleep_c :: "'k nap \<Rightarrow> u64 \<Rightarrow> u32 \<Rightarrow> 'k proc \<Rightarrow> u32 \<times> 'k proc" where
  "sleep_c K old seconds p =
     (let ((ret, rem_sec), k) = K (ucast seconds) 0 old (kern p); p = p\<lparr>kern := k\<rparr> in
      if 0 \<le> sint ret then (ucast ret, p)
      else if ret = - EINTR then (ucast rem_sec, p)
      else (0, p))"

subsection \<open>The contract of a wrapper\<close>

text \<open>
  What the callers rely on: a negative result of the kernel becomes the failure value with
  the error number in \<open>errno\<close>, any other result is returned, cut to the return type, with
  \<open>errno\<close> zero.
\<close>

locale syscall_wrapper =
  fixes w :: "'k proc \<Rightarrow> 'r::len word \<times> 'k proc" and fail :: "'r word" and call :: "'k \<Rightarrow> u64 \<times> 'k"
  assumes on_error: "sint (fst (call (kern p))) < 0 \<Longrightarrow>
      w p = (fail, p\<lparr>errno := - fst (call (kern p)), kern := snd (call (kern p))\<rparr>)"
    and on_success: "0 \<le> sint (fst (call (kern p))) \<Longrightarrow>
      w p = (ucast (fst (call (kern p))), p\<lparr>errno := 0, kern := snd (call (kern p))\<rparr>)"
begin

lemma kernel_effect: "kern (snd (w p)) = snd (call (kern p))"
  using on_error [of p] on_success [of p] by (cases "sint (fst (call (kern p))) < 0") auto

lemma errno_reports: "errno (snd (w p)) \<noteq> 0 \<longleftrightarrow> sint (fst (call (kern p))) < 0"
proof (cases "sint (fst (call (kern p))) < 0")
  case True
  then have "fst (call (kern p)) \<noteq> 0" by auto
  with True on_error [of p] show ?thesis by simp
next
  case False
  with on_success [of p] show ?thesis by simp
qed

lemma errno_value:
  assumes "fst (call (kern p)) = - of_nat e" "0 < e" "e < 4096"
  shows "w p = (fail, p\<lparr>errno := of_nat e, kern := snd (call (kern p))\<rparr>)"
proof -
  have "sint (- of_nat e :: u64) < 0"
  proof -
    have "uint (of_nat e :: u64) = int e" using assms(3) by (simp add: uint_nat unat_of_nat take_bit_nat_eq_self)
    then have "sint (of_nat e :: u64) = int e" using assms(3) by (simp add: sint_uint signed_take_bit_int_eq_self)
    then have "sint (- of_nat e :: u64) = - int e"
      using assms(3) by (simp add: sint_word_ariths signed_take_bit_int_eq_self)
    then show ?thesis using assms(2) by simp
  qed
  with on_error [of p] assms(1) show ?thesis by simp
qed

end

lemma wrapper_val: "syscall_wrapper (\<lambda>p. WRAPPER_RETval (gensys K nr args p)) (- 1) (K nr args)"
  by unfold_locales (auto simp: WRAPPER_RETval_def gensys_def split_beta Let_def)

lemma wrapper_ptr: "syscall_wrapper (\<lambda>p. WRAPPER_RETptr (gensys K nr args p)) 0 (K nr args)"
  by unfold_locales (auto simp: WRAPPER_RETptr_def gensys_def split_beta Let_def)

interpretation w_read: syscall_wrapper "read K fd buf count" "- 1" "K 0 [scast fd, buf, count]" for K fd buf count
  unfolding read_def [abs_def] by (rule wrapper_val)

interpretation w_write_fd: syscall_wrapper "write_fd K fd buf count" "- 1" "K 1 [scast fd, buf, count]" for K fd buf count
  unfolding write_fd_def [abs_def] by (rule wrapper_val)

interpretation w_close: syscall_wrapper "close K fd" "- 1" "K 3 [ucast fd]" for K fd
  unfolding close_def [abs_def] by (rule wrapper_val)

interpretation w_mmap: syscall_wrapper "mmap K addr len prot flags fd off" "0" "K 9 [addr, len, scast prot, scast flags, scast fd, off]" for K addr len prot flags fd off
  unfolding mmap_def [abs_def] by (rule wrapper_ptr)

interpretation w_mprotect: syscall_wrapper "mprotect K addr len prot" "- 1" "K 10 [addr, len, scast prot]" for K addr len prot
  unfolding mprotect_def [abs_def] by (rule wrapper_val)

interpretation w_munmap: syscall_wrapper "munmap K addr len" "- 1" "K 11 [addr, len]" for K addr len
  unfolding munmap_def [abs_def] by (rule wrapper_val)

interpretation w_pipe: syscall_wrapper "pipe K filedes" "- 1" "K 22 [filedes]" for K filedes
  unfolding pipe_def [abs_def] by (rule wrapper_val)

interpretation w_dup: syscall_wrapper "dup K filedes" "- 1" "K 32 [scast filedes]" for K filedes
  unfolding dup_def [abs_def] by (rule wrapper_val)

interpretation w_dup2: syscall_wrapper "dup2 K oldfd newfd" "- 1" "K 33 [scast oldfd, scast newfd]" for K oldfd newfd
  unfolding dup2_def [abs_def] by (rule wrapper_val)

interpretation w_pause: syscall_wrapper "pause K" "- 1" "K 34 []" for K
  unfolding pause_def [abs_def] by (rule wrapper_val)

interpretation w_alarm: syscall_wrapper "alarm K seconds" "- 1" "K 37 [ucast seconds]" for K seconds
  unfolding alarm_def [abs_def] by (rule wrapper_val)

interpretation w_fork: syscall_wrapper "fork K" "- 1" "K 57 []" for K
  unfolding fork_def [abs_def] by (rule wrapper_val)

interpretation w_getcwd: syscall_wrapper "getcwd K buf sz" "0" "K 79 [buf, sz]" for K buf sz
  unfolding getcwd_def [abs_def] by (rule wrapper_ptr)

interpretation w_chdir: syscall_wrapper "chdir K pathname" "- 1" "K 80 [pathname]" for K pathname
  unfolding chdir_def [abs_def] by (rule wrapper_val)

interpretation w_rename: syscall_wrapper "rename K oldname newname" "- 1" "K 82 [oldname, newname]" for K oldname newname
  unfolding rename_def [abs_def] by (rule wrapper_val)

interpretation w_mkdir: syscall_wrapper "mkdir K pathname mode" "- 1" "K 83 [pathname, scast mode]" for K pathname mode
  unfolding mkdir_def [abs_def] by (rule wrapper_val)

interpretation w_rmdir: syscall_wrapper "rmdir K pathname" "- 1" "K 84 [pathname]" for K pathname
  unfolding rmdir_def [abs_def] by (rule wrapper_val)

interpretation w_creat: syscall_wrapper "creat K pathname mode" "- 1" "K 85 [pathname, scast mode]" for K pathname mode
  unfolding creat_def [abs_def] by (rule wrapper_val)

interpretation w_link: syscall_wrapper "link K oldname newname" "- 1" "K 86 [oldname, newname]" for K oldname newname
  unfolding link_def [abs_def] by (rule wrapper_val)

interpretation w_unlink: syscall_wrapper "unlink K pathname" "- 1" "K 88 [pathname]" for K pathname
  unfolding unlink_def [abs_def] by (rule wrapper_val)

interpretation w_readlink: syscall_wrapper "readlink K path buf bufsz" "- 1" "K 89 [path, buf, bufsz]" for K path buf bufsz
  unfolding readlink_def [abs_def] by (rule wrapper_val)

interpretation w_chmod: syscall_wrapper "chmod K filename mode" "- 1" "K 90 [filename, scast mode]" for K filename mode
  unfolding chmod_def [abs_def] by (rule wrapper_val)

interpretation w_chown: syscall_wrapper "chown K filename user grp" "- 1" "K 92 [filename, scast user, scast grp]" for K filename user grp
  unfolding chown_def [abs_def] by (rule wrapper_val)

interpretation w_umask: syscall_wrapper "umask K cmask" "- 1" "K 95 [scast cmask]" for K cmask
  unfolding umask_def [abs_def] by (rule wrapper_val)

interpretation w_gettimeofday: syscall_wrapper "gettimeofday K tv tz" "- 1" "K 96 [tv, tz]" for K tv tz
  unfolding gettimeofday_def [abs_def] by (rule wrapper_val)

interpretation w_getuid: syscall_wrapper "getuid K" "- 1" "K 102 []" for K
  unfolding getuid_def [abs_def] by (rule wrapper_val)

interpretation w_getgid: syscall_wrapper "getgid K" "- 1" "K 104 []" for K
  unfolding getgid_def [abs_def] by (rule wrapper_val)

interpretation w_setuid: syscall_wrapper "setuid K uid" "- 1" "K 105 [scast uid]" for K uid
  unfolding setuid_def [abs_def] by (rule wrapper_val)

interpretation w_setgid: syscall_wrapper "setgid K gid" "- 1" "K 106 [scast gid]" for K gid
  unfolding setgid_def [abs_def] by (rule wrapper_val)

interpretation w_geteuid: syscall_wrapper "geteuid K" "- 1" "K 107 []" for K
  unfolding geteuid_def [abs_def] by (rule wrapper_val)

interpretation w_getegid: syscall_wrapper "getegid K" "- 1" "K 108 []" for K
  unfolding getegid_def [abs_def] by (rule wrapper_val)

interpretation w_sigpending: syscall_wrapper "sigpending K sset" "- 1" "K 127 [sset, 8]" for K sset
  unfolding sigpending_def [abs_def] by (rule wrapper_val)

subsection \<open>What the wrappers promise\<close>

text \<open>
  errors of the kernel.  When the kernel answers a call with \<open>-e\<close> for an error number
  \<open>e\<close>, the caller sees the failure value of the wrapper's return type and \<open>e\<close> in \<open>errno\<close>;
  otherwise it sees the kernel's value cut to that type and \<open>errno\<close> is cleared.  (The
  contract is proved for all 32 wrappers; here for one of each return type.)
\<close>

theorem wrappers_report_errors:
  assumes "0 < e" "e < 4096"
  shows "(fst (K 0 [scast fd, buf, count] (kern p)) = - of_nat e \<longrightarrow>
      read K fd buf count p = (- 1, p\<lparr>errno := of_nat e, kern := snd (K 0 [scast fd, buf, count] (kern p))\<rparr>)) \<and>
    (fst (K 57 [] (kern p)) = - of_nat e \<longrightarrow>
      fork K p = (- 1, p\<lparr>errno := of_nat e, kern := snd (K 57 [] (kern p))\<rparr>)) \<and>
    (fst (K 79 [buf, sz] (kern p)) = - of_nat e \<longrightarrow>
      getcwd K buf sz p = (0, p\<lparr>errno := of_nat e, kern := snd (K 79 [buf, sz] (kern p))\<rparr>)) \<and>
    (errno (snd (chdir K path p)) = 0 \<longleftrightarrow> 0 \<le> sint (fst (K 80 [path] (kern p))))"
  using assms w_read.errno_value [of K fd buf count p e] w_fork.errno_value [of K p e]
    w_getcwd.errno_value [of K buf sz p e] w_chdir.errno_reports [of K path p] by auto

lemma nanosleep_no_result: "nanosleep rqtp rmtp p = Some r \<Longrightarrow> False"
  by (rule nanosleep.raw_induct [where P = "\<lambda>_ _ _ _. False"]) (auto simp: bind_eq_Some_conv)

text \<open>
  \<open>nanosleep\<close> never returns: it calls itself for ever, whatever it is asked to do.
\<close>

theorem nanosleep_never_returns: "nanosleep rqtp rmtp p = None"
  using nanosleep_no_result by (cases "nanosleep rqtp rmtp p") blast+

text \<open>
  \<open>sleep\<close> in assembly does what the C version kept beside it does.
\<close>

theorem sleep_asm_equals_c: "sleep_asm K old (ucast seconds) p = sleep_c K old seconds p"
proof -
  have "(- r \<noteq> 4) = (r \<noteq> - EINTR)" for r :: u64 by (auto simp: EINTR_def) (metis minus_minus)
  then show ?thesis by (auto simp: sleep_asm_def sleep_c_def Let_def split: prod.splits)
qed

text \<open>
  \<open>open\<close> in assembly has the contract of the other wrappers.
\<close>

theorem open_asm_is_wrapper:
  "open_asm K filename flags mode p =
     WRAPPER_RETval (gensys K 2 [filename, scast flags, scast mode] p)"
proof -
  have "(ucast (- 1 :: u64) :: u32) = - 1" by (rule bit_word_eqI) (simp add: bit_simps)
  then show ?thesis
    by (auto simp: open_asm_def WRAPPER_RETval_def Let_def not_le split: prod.splits)
qed

end
