(* ===== verification/Mini_Signal.thy ===== *)
theory Mini_Signal
  imports Mini_Syscall
begin

text \<open>
  Signals in \<^verbatim>\<open>hw3\<close>: the inline functions on signal sets of \<^verbatim>\<open>libmini.h\<close>, \<open>sigprocmask\<close>,
  \<open>sigaction\<close> and \<open>signal\<close> of \<^verbatim>\<open>libmini.c\<close>.  A \<open>sigset_t\<close> is an \<open>unsigned long\<close>; a
  function that gets a pointer to a set returns the new contents.  A pointer to a
  structure that may be null is an option, and the contents of an object on the stack
  that was not assigned are an argument.
\<close>

subsection \<open>Signal sets\<close>

text \<open>\<open>1UL << (sig - 1)\<close>: the subtraction is on \<open>int\<close>, the shift count must be in range.\<close>

definition sig_bit :: "u32 \<Rightarrow> u64 res" where
  "sig_bit sig =
     (let n = sint sig - 1 in
      if n < - (2 ^ 31) then Inl Int_Overflow
      else if n < 0 \<or> 64 \<le> n then Inl Bad_Shift
      else Inr (push_bit (nat n) 1))"

definition sigemptyset :: "u64 \<Rightarrow> u64" where
  "sigemptyset set0 = 0"

definition sigfillset :: "u64 \<Rightarrow> u64" where
  "sigfillset set0 = NOT 0"

definition sigaddset :: "u64 \<Rightarrow> u32 \<Rightarrow> u64 res" where
  "sigaddset set0 sig = thenR (sig_bit sig) (\<lambda>b. Inr (set0 OR b))"

definition sigdelset :: "u64 \<Rightarrow> u32 \<Rightarrow> u64 res" where
  "sigdelset set0 sig = thenR (sig_bit sig) (\<lambda>b. Inr (set0 AND NOT b))"

definition sigismember :: "u64 \<Rightarrow> u32 \<Rightarrow> u32 res" where
  "sigismember set0 sig = thenR (sig_bit sig) (\<lambda>b. Inr (if set0 AND b \<noteq> 0 then 1 else 0))"

text \<open>The signals that a set holds.\<close>

definition valid_sig :: "u32 \<Rightarrow> bool" where
  "valid_sig sig \<longleftrightarrow> 1 \<le> sint sig \<and> sint sig \<le> 64"

definition sigs :: "u64 \<Rightarrow> u32 set" where
  "sigs w = {sig. valid_sig sig \<and> bit w (nat (sint sig - 1))}"

text \<open>What users of signal sets rely on, as operations on a set of signals.\<close>

locale signal_set =
  fixes none all :: "'s"
    and add del :: "'s \<Rightarrow> 'e \<Rightarrow> 's res"
    and mem :: "'s \<Rightarrow> 'e \<Rightarrow> u32 res"
    and elems :: "'s \<Rightarrow> 'e set" and ok :: "'e \<Rightarrow> bool"
  assumes elems_none: "elems none = {}"
    and elems_all: "elems all = Collect ok"
    and add_ok: "ok x \<Longrightarrow> \<exists>t. add s x = Inr t \<and> elems t = insert x (elems s)"
    and del_ok: "ok x \<Longrightarrow> \<exists>t. del s x = Inr t \<and> elems t = elems s - {x}"
    and mem_ok: "ok x \<Longrightarrow> mem s x = Inr (if x \<in> elems s then 1 else 0)"
    and ext: "elems s = elems t \<Longrightarrow> s = t"
begin

lemma add_member: "ok x \<Longrightarrow> ok y \<Longrightarrow> thenR (add s x) (\<lambda>t. mem t y) = Inr (if y = x \<or> y \<in> elems s then 1 else 0)"
  using add_ok [of x s] mem_ok [of y] by auto

lemma del_member: "ok x \<Longrightarrow> ok y \<Longrightarrow> thenR (del s x) (\<lambda>t. mem t y) = Inr (if y \<noteq> x \<and> y \<in> elems s then 1 else 0)"
  using del_ok [of x s] mem_ok [of y] by auto

lemma add_del:
  assumes "ok x" "x \<notin> elems s"
  shows "thenR (add s x) (\<lambda>t. del t x) = Inr s"
proof -
  obtain t where t: "add s x = Inr t" "elems t = insert x (elems s)" using add_ok [OF assms(1)] by blast
  obtain u where u: "del t x = Inr u" "elems u = elems t - {x}" using del_ok [OF assms(1)] by blast
  have "u = s" by (rule ext) (use t u assms(2) in auto)
  with t u show ?thesis by simp
qed

lemma del_add:
  assumes "ok x" "x \<in> elems s"
  shows "thenR (del s x) (\<lambda>t. add t x) = Inr s"
proof -
  obtain t where t: "del s x = Inr t" "elems t = elems s - {x}" using del_ok [OF assms(1)] by blast
  obtain u where u: "add t x = Inr u" "elems u = insert x (elems t)" using add_ok [OF assms(1)] by blast
  have "u = s" by (rule ext) (use t u assms(2) in auto)
  with t u show ?thesis by simp
qed

end

lemma sig_bit_valid: "valid_sig sig \<Longrightarrow> sig_bit sig = Inr (2 ^ nat (sint sig - 1))"
  by (simp add: sig_bit_def valid_sig_def push_bit_of_1)

lemma sig_bit_invalid: "\<not> valid_sig sig \<Longrightarrow> \<exists>f. sig_bit sig = Inl f"
  by (auto simp: sig_bit_def valid_sig_def Let_def)

lemma bit_sig: "valid_sig sig \<Longrightarrow> bit (2 ^ nat (sint sig - 1) :: u64) n \<longleftrightarrow> n = nat (sint sig - 1)"
  by (auto simp: bit_exp_iff valid_sig_def)

lemma sig_index_inj:
  "valid_sig a \<Longrightarrow> valid_sig b \<Longrightarrow> nat (sint a - 1) = nat (sint b - 1) \<longleftrightarrow> a = b"
  by (auto simp: valid_sig_def nat_eq_iff intro: signed_word_eqI)

lemma sig_index_less [simp]: "valid_sig sig \<Longrightarrow> nat (sint sig - 1) < 64"
  by (simp add: valid_sig_def nat_less_iff)

lemma valid_sig_of_bit: "n < 64 \<Longrightarrow> valid_sig (of_nat (Suc n)) \<and> nat (sint (of_nat (Suc n) :: u32) - 1) = n"
proof -
  assume n: "n < 64"
  then have "sint (of_nat (Suc n) :: u32) = int (Suc n)"
    by (simp add: sint_uint uint_nat unat_of_nat take_bit_nat_eq_self signed_take_bit_int_eq_self del: of_nat_Suc)
  with n show ?thesis by (simp add: valid_sig_def)
qed

lemma and_exp_nonzero: "w AND 2 ^ n \<noteq> 0 \<longleftrightarrow> bit w n" for w :: u64
  by (simp add: bit_iff_and_push_bit_not_eq_0)

interpretation sg: signal_set "sigemptyset s0" "sigfillset s0" sigaddset sigdelset sigismember sigs valid_sig for s0
proof
  fix s t :: u64
  assume eq: "sigs s = sigs t"
  show "s = t"
  proof (rule bit_word_eqI)
    fix n assume "n < LENGTH(64)"
    then have "valid_sig (of_nat (Suc n))" "nat (sint (of_nat (Suc n) :: u32) - 1) = n"
      using valid_sig_of_bit [of n] by simp_all
    then show "bit s n = bit t n" using eq by (simp add: sigs_def set_eq_iff) metis
  qed
next
  fix x s assume x: "valid_sig x"
  show "\<exists>t. sigaddset s x = Inr t \<and> sigs t = insert x (sigs s)"
    using x by (auto simp: sigaddset_def sig_bit_valid sigs_def bit_or_iff bit_sig sig_index_inj)
  show "\<exists>t. sigdelset s x = Inr t \<and> sigs t = sigs s - {x}"
    using x by (auto simp: sigdelset_def sig_bit_valid sigs_def bit_and_iff bit_not_iff bit_sig sig_index_inj)
  show "sigismember s x = Inr (if x \<in> sigs s then 1 else 0)"
    using x by (simp add: sigismember_def sig_bit_valid sigs_def and_exp_nonzero)
qed (auto simp: sigemptyset_def sigfillset_def sigs_def valid_sig_def bit_simps)


text \<open>
  C20: signal sets.  For every signal from 1 to 64 the five functions are the empty set, the
  set of all signals, insertion, removal and membership on the set of signals that the word
  holds, and different words hold different sets; for any other number the shift is
  undefined.
\<close>

theorem sigset_is_a_set:
  "sigs (sigemptyset s) = {} \<and> sigs (sigfillset s) = {sig. valid_sig sig} \<and> inj sigs \<and>
   (if valid_sig sig
    then (\<exists>t. sigaddset s sig = Inr t \<and> sigs t = insert sig (sigs s)) \<and>
      (\<exists>t. sigdelset s sig = Inr t \<and> sigs t = sigs s - {sig}) \<and>
      sigismember s sig = Inr (if sig \<in> sigs s then 1 else 0)
    else (\<exists>f. sigaddset s sig = Inl f \<and> sigdelset s sig = Inl f \<and> sigismember s sig = Inl f))"
  using sg.elems_none sg.elems_all sg.add_ok sg.del_ok sg.mem_ok sg.ext sig_bit_invalid [of sig]
  by (auto simp: inj_def sigaddset_def sigdelset_def sigismember_def)

text \<open>
  insertion and removal undo each other: adding a signal that was not in the set and
  removing it again, or removing one that was and adding it again, gives the same word.
\<close>

theorem sigset_add_del:
  assumes "valid_sig sig"
  shows "(if sig \<in> sigs s then thenR (sigdelset s sig) (\<lambda>t. sigaddset t sig)
          else thenR (sigaddset s sig) (\<lambda>t. sigdelset t sig)) = Inr s"
  using sg.add_del [OF assms] sg.del_add [OF assms] by simp

subsection \<open>\<open>sigprocmask\<close>, \<open>sigaction\<close>, \<open>signal\<close>\<close>

definition sigprocmask :: "'k kernel \<Rightarrow> u32 \<Rightarrow> u64 \<Rightarrow> u64 \<Rightarrow> ('k, 32) wrapper" where
  "sigprocmask K how sset oset p = WRAPPER_RETval (gensys K 14 [scast how, sset, oset, 8] p)"

interpretation w_sigprocmask: syscall_wrapper "sigprocmask K how sset oset" "- 1" "K 14 [scast how, sset, oset, 8]" for K how sset oset
  unfolding sigprocmask_def [abs_def] by (rule wrapper_val)

record sigaction_t =
  sa_handler :: u64
  sa_mask :: u64
  sa_flags :: u64
  sa_restorer :: u64

record kernel_sigaction =
  k_sa_handler :: u64
  k_sa_flags :: u64
  k_sa_restorer :: u64
  k_sa_mask :: u64

definition SA_RESTORER :: u64 where "SA_RESTORER = 0x4000000"
definition SA_ONESHOT :: u64 where "SA_ONESHOT = 0x10"
definition SA_NOMASK :: u64 where "SA_NOMASK = 0x08"
definition SA_NODEFER :: u64 where "SA_NODEFER = 0x40000000"
definition SA_RESETHAND :: u64 where "SA_RESETHAND = 0x80000000"
definition SIG_ERR :: u64 where "SIG_ERR = - 1"

text \<open>
  The kernel's \<open>rt_sigaction\<close>: it gets the new action and answers with the value in \<open>rax\<close>
  and the old action, which it only stores when it succeeds.
\<close>

type_synonym 'k act_kernel = "u32 \<Rightarrow> kernel_sigaction \<Rightarrow> 'k \<Rightarrow> (u64 \<times> kernel_sigaction) \<times> 'k"

definition SET_SA_RESTORER :: "u64 \<Rightarrow> sigaction_t \<Rightarrow> kernel_sigaction \<Rightarrow> kernel_sigaction" where
  "SET_SA_RESTORER restore_rt act kact =
     kact\<lparr>k_sa_flags := sa_flags act OR SA_RESTORER, k_sa_restorer := restore_rt\<rparr>"

definition RESET_SA_RESTORER :: "sigaction_t \<Rightarrow> kernel_sigaction \<Rightarrow> sigaction_t" where
  "RESET_SA_RESTORER act kact = act\<lparr>sa_restorer := k_sa_restorer kact\<rparr>"

text \<open>\<open>kact0\<close> is what the stack holds where \<open>kact\<close> is; the \<open>memcpy\<close>s copy the eight bytes of a mask.\<close>

definition sigaction ::
  "u64 \<Rightarrow> 'k act_kernel \<Rightarrow> kernel_sigaction \<Rightarrow> u32 \<Rightarrow> sigaction_t option \<Rightarrow> sigaction_t option \<Rightarrow>
   'k proc \<Rightarrow> (u32 \<times> sigaction_t option \<times> 'k proc) res" where
  "sigaction restore_rt K kact0 sig act oact p =
     thenR (need Null_Deref act) (\<lambda>a.
       let kact = kact0\<lparr>k_sa_handler := sa_handler a\<rparr>;
           kact = kact\<lparr>k_sa_mask := sa_mask a\<rparr>;
           kact = kact\<lparr>k_sa_flags := sa_flags a\<rparr>;
           kact = SET_SA_RESTORER restore_rt a kact;
           ((ret, koact), k) = K sig kact (kern p);
           oact = (case oact of
               Some o1 \<Rightarrow> Some (if 0 \<le> sint ret
                 then RESET_SA_RESTORER
                   (o1\<lparr>sa_handler := k_sa_handler koact, sa_mask := k_sa_mask koact, sa_flags := k_sa_flags koact\<rparr>) koact
                 else o1)
             | None \<Rightarrow> None);
           (r, p) = WRAPPER_RETval (ret, p\<lparr>kern := k\<rparr>)
       in Inr (r, oact, p))"

text \<open>\<open>act0\<close>, \<open>oact0\<close>: what the stack holds where \<open>act\<close> and \<open>oact\<close> are.\<close>

definition signal ::
  "u64 \<Rightarrow> 'k act_kernel \<Rightarrow> kernel_sigaction \<Rightarrow> sigaction_t \<Rightarrow> sigaction_t \<Rightarrow> u32 \<Rightarrow> u64 \<Rightarrow>
   'k proc \<Rightarrow> (u64 \<times> 'k proc) res" where
  "signal restore_rt K kact0 act0 oact0 signum handler p =
     (let act = act0\<lparr>sa_handler := handler\<rparr>;
          act = act\<lparr>sa_mask := sigemptyset (sa_mask act)\<rparr>;
          act = act\<lparr>sa_flags := SA_ONESHOT OR SA_NOMASK\<rparr>
      in thenR (sigaction restore_rt K kact0 signum (Some act) (Some oact0) p) (\<lambda>(r, oact, p).
         if sint r < 0 then Inr (SIG_ERR, p)
         else thenR (need Null_Deref oact) (\<lambda>oact. Inr (WRAPPER_RETptr (sa_handler oact, p)))))"

text \<open>
  The documented \<open>rt_sigaction\<close>: a table of actions, of which those in \<open>settable\<close> can be
  changed; anything else is \<open>EINVAL\<close>.
\<close>

definition action_kernel :: "'k act_kernel \<Rightarrow> ('k \<Rightarrow> u32 \<Rightarrow> kernel_sigaction) \<Rightarrow> u32 set \<Rightarrow> bool" where
  "action_kernel K acts settable \<longleftrightarrow>
     (\<forall>sig a k. (sig \<in> settable \<longrightarrow> fst (K sig a k) = (0, acts k sig) \<and> acts (snd (K sig a k)) = (acts k)(sig := a)) \<and>
        (sig \<notin> settable \<longrightarrow> fst (fst (K sig a k)) = - 22 \<and> acts (snd (K sig a k)) = acts k))"

text \<open>The action that \<open>sigaction\<close> asks for.\<close>

definition wanted :: "u64 \<Rightarrow> sigaction_t \<Rightarrow> kernel_sigaction" where
  "wanted restore_rt a = \<lparr>k_sa_handler = sa_handler a, k_sa_flags = sa_flags a OR SA_RESTORER,
     k_sa_restorer = restore_rt, k_sa_mask = sa_mask a\<rparr>"

definition seen_by_user :: "kernel_sigaction \<Rightarrow> sigaction_t" where
  "seen_by_user a = \<lparr>sa_handler = k_sa_handler a, sa_mask = k_sa_mask a, sa_flags = k_sa_flags a,
     sa_restorer = k_sa_restorer a\<rparr>"

lemma kernel_settable:
  "action_kernel K acts settable \<Longrightarrow> sig \<in> settable \<Longrightarrow>
     \<exists>k'. K sig a k = ((0, acts k sig), k') \<and> acts k' = (acts k)(sig := a)"
  unfolding action_kernel_def by (metis prod.collapse)

lemma kernel_refuses:
  "action_kernel K acts settable \<Longrightarrow> sig \<notin> settable \<Longrightarrow>
     \<exists>o1 k'. K sig a k = ((- 22, o1), k') \<and> acts k' = acts k"
  unfolding action_kernel_def by (metis prod.collapse)

lemma kact_wanted:
  "SET_SA_RESTORER R a (kact0\<lparr>k_sa_handler := sa_handler a, k_sa_mask := sa_mask a, k_sa_flags := sa_flags a\<rparr>) = wanted R a"
  by (cases kact0) (simp add: SET_SA_RESTORER_def wanted_def)

lemma koact_seen:
  "RESET_SA_RESTORER (o1\<lparr>sa_handler := k_sa_handler a, sa_mask := k_sa_mask a, sa_flags := k_sa_flags a\<rparr>) a = seen_by_user a"
  by (cases o1) (simp add: RESET_SA_RESTORER_def seen_by_user_def)

lemma sint_minus_22: "sint (- 22 :: u64) = - 22"
  by simp

lemma sigaction_frame:
  assumes "action_kernel K acts settable" "sig \<in> settable"
  shows "\<exists>p'. sigaction R K kact0 sig (Some a) oact p =
      Inr (0, map_option (\<lambda>_. seen_by_user (acts (kern p) sig)) oact, p') \<and>
    errno p' = 0 \<and> acts (kern p') = (acts (kern p))(sig := wanted R a)"
proof -
  from kernel_settable [OF assms, of "wanted R a" "kern p"] obtain k' where
    "K sig (wanted R a) (kern p) = ((0, acts (kern p) sig), k')" "acts k' = (acts (kern p))(sig := wanted R a)" by blast
  then show ?thesis
    by (cases oact) (simp_all add: sigaction_def kact_wanted koact_seen WRAPPER_RETval_def)
qed

lemma sigaction_refused:
  assumes "action_kernel K acts settable" "sig \<notin> settable"
  shows "\<exists>p'. sigaction R K kact0 sig (Some a) oact p = Inr (- 1, oact, p') \<and>
    errno p' = 22 \<and> acts (kern p') = acts (kern p)"
proof -
  from kernel_refuses [OF assms, of "wanted R a" "kern p"] obtain o1 k' where
    "K sig (wanted R a) (kern p) = ((- 22, o1), k')" "acts k' = acts (kern p)" by blast
  then show ?thesis
    by (cases oact) (simp_all add: sigaction_def kact_wanted WRAPPER_RETval_def)
qed

text \<open>
  \<open>sigaction\<close> installs exactly the action it is given, with \<open>SA_RESTORER\<close> and the
  library's return stub added, hands out the one before, and clears \<open>errno\<close>; refused by the
  kernel it changes no action and not the caller's structure and reports \<open>EINVAL\<close>; and
  asked without a new action (the documented way to look one up) it dereferences null.
\<close>

theorem sigaction_installs:
  assumes "action_kernel K acts settable"
  shows "sigaction R K kact0 sig None oact p = Inl Null_Deref \<and>
    (if sig \<in> settable
     then \<exists>p'. sigaction R K kact0 sig (Some a) oact p =
          Inr (0, map_option (\<lambda>_. seen_by_user (acts (kern p) sig)) oact, p') \<and>
        errno p' = 0 \<and> acts (kern p') = (acts (kern p))(sig := wanted R a)
     else \<exists>p'. sigaction R K kact0 sig (Some a) oact p = Inr (- 1, oact, p') \<and>
        errno p' = 22 \<and> acts (kern p') = acts (kern p))"
  using sigaction_frame [OF assms] sigaction_refused [OF assms] by (simp add: sigaction_def [of _ _ _ _ None])

text \<open>One call of \<open>signal\<close>; what was on the stack does not matter.\<close>

definition signal_action :: "u64 \<Rightarrow> u64 \<Rightarrow> kernel_sigaction" where
  "signal_action restore_rt h = \<lparr>k_sa_handler = h, k_sa_flags = SA_ONESHOT OR SA_NOMASK OR SA_RESTORER,
     k_sa_restorer = restore_rt, k_sa_mask = 0\<rparr>"

lemma wanted_signal:
  "wanted R (a0\<lparr>sa_handler := h, sa_mask := 0, sa_flags := SA_ONESHOT OR SA_NOMASK\<rparr>) = signal_action R h"
  by (simp add: wanted_def signal_action_def ac_simps)

lemma signal_settable:
  assumes "action_kernel K acts settable" "sig \<in> settable"
  shows "\<exists>p'. signal R K kact0 a0 o0 sig h p =
      Inr (if sint (k_sa_handler (acts (kern p) sig)) < 0 then 0 else k_sa_handler (acts (kern p) sig), p') \<and>
    acts (kern p') = (acts (kern p))(sig := signal_action R h)"
proof -
  from sigaction_frame [OF assms, of R kact0 "a0\<lparr>sa_handler := h, sa_mask := 0, sa_flags := SA_ONESHOT OR SA_NOMASK\<rparr>" "Some o0" p]
  obtain p' where "sigaction R K kact0 sig (Some (a0\<lparr>sa_handler := h, sa_mask := 0, sa_flags := SA_ONESHOT OR SA_NOMASK\<rparr>)) (Some o0) p =
      Inr (0, Some (seen_by_user (acts (kern p) sig)), p')"
    "acts (kern p') = (acts (kern p))(sig := signal_action R h)" by (auto simp: wanted_signal)
  then show ?thesis
    by (simp add: signal_def sigemptyset_def WRAPPER_RETptr_def seen_by_user_def)
qed

text \<open>
  C22: \<open>signal\<close> hands out the handler that the last \<open>signal\<close> installed (an address in the
  upper half of the address space comes out as null), and \<open>SIG_ERR\<close> where the kernel
  refuses.  What it installs has the flags \<open>0x4000018\<close>: neither \<open>SA_RESETHAND\<close> nor
  \<open>SA_NODEFER\<close>, the flags that \<open>SA_ONESHOT\<close> and \<open>SA_NOMASK\<close> stand for.
\<close>

theorem signal_swaps:
  assumes "action_kernel K acts settable"
  shows "if sig \<in> settable
    then \<exists>r1 p1 p2. signal R K k0 a0 o0 sig h1 p = Inr (r1, p1) \<and>
      signal R K k0' a0' o0' sig h2 p1 = Inr (if sint h1 < 0 then 0 else h1, p2) \<and>
      acts (kern p2) = (acts (kern p))(sig := \<lparr>k_sa_handler = h2, k_sa_flags = 0x4000018, k_sa_restorer = R, k_sa_mask = 0\<rparr>) \<and>
      k_sa_flags (acts (kern p2) sig) AND (SA_RESETHAND OR SA_NODEFER) = 0
    else \<exists>p1. signal R K k0 a0 o0 sig h1 p = Inr (SIG_ERR, p1) \<and> acts (kern p1) = acts (kern p)"
proof (cases "sig \<in> settable")
  case True
  from signal_settable [OF assms True, of R k0 a0 o0 h1 p] obtain r1 p1 where
    1: "signal R K k0 a0 o0 sig h1 p = Inr (r1, p1)" "acts (kern p1) = (acts (kern p))(sig := signal_action R h1)" by blast
  from signal_settable [OF assms True, of R k0' a0' o0' h2 p1] 1(2) obtain p2 where
    2: "signal R K k0' a0' o0' sig h2 p1 = Inr (if sint h1 < 0 then 0 else h1, p2)"
      "acts (kern p2) = (acts (kern p))(sig := signal_action R h2)" by (auto simp: signal_action_def)
  have "SA_ONESHOT OR SA_NOMASK OR SA_RESTORER = 0x4000018" "0x4000018 AND (SA_RESETHAND OR SA_NODEFER) = 0"
    by (simp_all add: SA_ONESHOT_def SA_NOMASK_def SA_RESTORER_def SA_RESETHAND_def SA_NODEFER_def)
  with True 1 2 show ?thesis by (auto simp: signal_action_def)
next
  case False
  from sigaction_refused [OF assms False, of R k0 "a0\<lparr>sa_handler := h1, sa_mask := 0, sa_flags := SA_ONESHOT OR SA_NOMASK\<rparr>" "Some o0" p]
  obtain p1 where "sigaction R K k0 sig (Some (a0\<lparr>sa_handler := h1, sa_mask := 0, sa_flags := SA_ONESHOT OR SA_NOMASK\<rparr>)) (Some o0) p =
      Inr (- 1, Some o0, p1)" "acts (kern p1) = acts (kern p)" by blast
  with False show ?thesis by (simp add: signal_def sigemptyset_def)
qed

end
