(* ===== verification/Mini_Programs.thy ===== *)
theory Mini_Programs
  imports Mini_Jump Mini_Signal C_Text
begin

text \<open>
  Programs over \<open>libmini\<close>: the entry point \<^verbatim>\<open>hw3/start.asm\<close> and the test programs
  \<^verbatim>\<open>jmp1.c\<close> and \<^verbatim>\<open>jmp2.c\<close>, on the machine of \<open>Mini_Jump\<close>.
\<close>

subsection \<open>The entry point\<close>

text \<open>\<open>call\<close>: the return address goes on the stack.\<close>

definition call_insn :: "u64 \<Rightarrow> machine \<Rightarrow> machine" where
  "call_insn ret s = set_reg RSP (regs s RSP - 8) (set_cell (regs s RSP - 8) ret s)"

definition start_args :: "insn list" where
  "start_args = [Load 0 RSP RDI, Lea 8 RSP RSI]"

definition start_exit :: "insn list" where
  "start_exit = [Mov RAX RDI]"

text \<open>
  \<open>main\<close> is the program: the state in which it returns, if it does.  The result is the state
  in which \<open>exit\<close> is called, and the system call that \<open>exit\<close> makes with its \<open>int\<close> argument.
\<close>

definition start :: "u64 \<Rightarrow> (machine \<Rightarrow> machine option) \<Rightarrow> machine \<Rightarrow> (machine \<times> nat \<times> u64 list) option" where
  "start ret main_fn s =
     (case main_fn (call_insn ret (exec start_args s)) of
        None \<Rightarrow> None
      | Some t \<Rightarrow> (let t1 = exec start_exit t in Some (t1, exit_call (ucast (regs t1 RDI)))))"

text \<open>
  the start of a program.  On the stack that the kernel sets up, the number of arguments
  and above it the pointers to them, \<open>main\<close> is called with the number in \<open>rdi\<close> and the address
  of the pointers in \<open>rsi\<close>, on a stack aligned as a function expects it and with the arguments
  untouched; when it returns, the process ends with the result of \<open>main\<close> as its exit code.
\<close>

theorem start_runs_main:
  assumes "n < 2 ^ 60"
  shows "\<exists>t. start ret main_fn s = map_option (\<lambda>u. (set_reg RDI (regs u RAX) u, 60, [scast (ucast (regs u RAX) :: u32)])) (main_fn t) \<and>
    regs t RDI = cells s (regs s RSP) \<and> regs t RSI = regs s RSP + 8 \<and>
    (\<forall>i<n. cells t (regs t RSI + 8 * of_nat i) = cells s (regs s RSP + 8 + 8 * of_nat i)) \<and>
    cells t (regs t RSP) = ret \<and> (regs s RSP AND 15 = 0 \<longrightarrow> (regs t RSP + 8) AND 15 = 0)"
proof -
  define t where "t = call_insn ret (exec start_args s)"
  have t: "regs t RDI = cells s (regs s RSP)" "regs t RSI = regs s RSP + 8" "regs t RSP = regs s RSP - 8"
    "cells t = (cells s)(regs s RSP - 8 := ret)"
    by (simp_all add: t_def call_insn_def start_args_def)
  have "start ret main_fn s = map_option (\<lambda>u. (set_reg RDI (regs u RAX) u, 60, [scast (ucast (regs u RAX) :: u32)])) (main_fn t)"
    by (simp add: start_def t_def [symmetric] start_exit_def exit_call_def Let_def split: option.split)
  moreover have "cells t (regs t RSI + 8 * of_nat i) = cells s (regs s RSP + 8 + 8 * of_nat i)" if "i < n" for i
  proof -
    have "unat (of_nat (8 * (i + 2)) :: u64) = 8 * (i + 2)"
      using that assms by (simp only: unat_of_nat) (simp add: take_bit_nat_eq_self)
    then have "(of_nat (8 * (i + 2)) :: u64) \<noteq> 0" by (metis unat_0 mult_eq_0_iff add_is_0 zero_neq_numeral)
    then have "(8 * of_nat (i + 2) :: u64) \<noteq> 0" by simp
    then have "regs s RSP + 8 + 8 * of_nat i \<noteq> regs s RSP - 8" by (simp add: algebra_simps)
    then show ?thesis by (simp add: t)
  qed
  ultimately show ?thesis using t by (intro exI [of _ t]) simp
qed

subsection \<open>A function that was returned to\<close>

abbreviation callee_saved :: "reg set" where
  "callee_saved \<equiv> {RBX, RSP, RBP, R12, R13, R14, R15}"

text \<open>
  The caller \<open>c\<close> of \<open>setjmp\<close> is back behind the call, with the contents of \<open>env\<close> for a jump.
\<close>

definition back_in :: "machine \<Rightarrow> u64 \<Rightarrow> u64 \<Rightarrow> machine \<Rightarrow> bool" where
  "back_in c ret env m \<longleftrightarrow> saved_in c ret env (cells m) \<and> rip m = ret \<and> (\<forall>r\<in>callee_saved. regs m r = regs c r)"

text \<open>
  From there a function enters \<open>longjmp(env, val)\<close>: the compiled code in between leaves \<open>env\<close>
  alone and passes the arguments in \<open>rdi\<close> and in the low half of \<open>rsi\<close>.
\<close>

definition enters_longjmp :: "u64 \<Rightarrow> u32 \<Rightarrow> machine \<Rightarrow> clobbers \<Rightarrow> machine \<Rightarrow> bool" where
  "enters_longjmp env val m C m' \<longleftrightarrow>
     (\<forall>a\<in>env_cells env. cells m' a = cells m a) \<and> regs m' RDI = env \<and> ucast (regs m' RSI) = val \<and>
     env_free C env (regs m' RSP - 16) {regs m' RSP - 8, regs m' RSP - 16}"

lemma longjmp_keeps_env:
  assumes "env_free C env (regs s RSP - 16) {regs s RSP - 8, regs s RSP - 16}" "a \<in> env_cells env"
  shows "cells (longjmp C s) a = cells s a"
proof -
  have "a \<noteq> regs s RSP - 8" "a \<noteq> regs s RSP - 16" "\<not> scratch C (regs s RSP - 16) a"
    using assms by (auto simp: env_free_def)
  then show ?thesis
    by (simp add: longjmp_def Let_def longjmp_save_def longjmp_asm_def call_sigprocmask_def)
qed

lemma setjmp_back:
  assumes "entered c ret s" "env_free C (regs c RDI) (regs s RSP) {regs c RSP - 8, regs c RSP - 16}"
  shows "back_in c ret (regs c RDI) (setjmp C s)" "regs (setjmp C s) RAX = 0" "sigmask (setjmp C s) = sigmask c"
  using setjmp_saves [OF assms(1) refl assms(2)] by (simp_all add: back_in_def)

lemma longjmp_back:
  assumes "back_in c ret env m" "enters_longjmp env val m C m'" "val \<noteq> 0"
  shows "back_in c ret env (longjmp C m')" "ucast (regs (longjmp C m') RAX) = val"
    "sigmask (longjmp C m') = (sigmask m' OR sigmask c) AND NOT unblockable"
proof -
  have e: "\<And>a. a \<in> env_cells env \<Longrightarrow> cells m' a = cells m a" "regs m' RDI = env" "ucast (regs m' RSI) = val"
    and free: "env_free C env (regs m' RSP - 16) {regs m' RSP - 8, regs m' RSP - 16}"
    using assms(2) by (simp_all add: enters_longjmp_def)
  have saved: "saved_in c ret env (cells m')"
    using assms(1) e(1) env_cells_memI [of env] by (simp add: back_in_def saved_in_def)
  note r = longjmp_restores [OF this e(2) free]
  have "saved_in c ret env (cells (longjmp C m'))"
    using saved longjmp_keeps_env [OF free] env_cells_memI [of env] by (simp add: saved_in_def)
  then show "back_in c ret env (longjmp C m')" using r by (simp add: back_in_def)
  have "regs m' RSI \<noteq> 0" using e(3) assms(3) by auto
  then show "ucast (regs (longjmp C m') RAX) = val" using r e(3) by simp
  show "sigmask (longjmp C m') = (sigmask m' OR sigmask c) AND NOT unblockable" using r by blast
qed

subsection \<open>\<^verbatim>\<open>jmp1.c\<close>\<close>

text \<open>\<open>funs[i]\<close> writes its line and jumps with \<open>i + 1\<close>.\<close>

definition fun_line :: "nat \<Rightarrow> string" where
  "fun_line i = ''This is function '' @ [''abcdefghij'' ! i] @ ''().'' @ newline"

text \<open>
  Behind the call of \<open>setjmp\<close> with the volatile \<open>i\<close> and what was written, or returned from
  \<open>main\<close>.
\<close>

datatype jmp_state = Back machine u32 "string list" | Returned u32 "string list"

text \<open>\<open>if(setjmp(jb) != 0) i++;\<close>\<close>

definition jmp1_i :: "machine \<Rightarrow> u32 \<Rightarrow> u32" where
  "jmp1_i m i = (if (ucast (regs m RAX) :: u32) \<noteq> 0 then i + 1 else i)"

inductive jmp1_step :: "u64 \<Rightarrow> jmp_state \<Rightarrow> jmp_state \<Rightarrow> bool" for jb :: u64 where
  Call: "jmp1_i m i <s 10 \<Longrightarrow> enters_longjmp jb (jmp1_i m i + 1) m C m' \<Longrightarrow>
    jmp1_step jb (Back m i ls) (Back (longjmp C m') (jmp1_i m i) (ls @ [fun_line (unat (jmp1_i m i))]))"
| Return: "\<not> jmp1_i m i <s 10 \<Longrightarrow> jmp1_step jb (Back m i ls) (Returned 0 ls)"

inductive_cases jmp1_BackE: "jmp1_step jb (Back m i ls) t"
inductive_cases jmp1_ReturnedE: "jmp1_step jb (Returned code ls) t"

text \<open>After \<open>n\<close> jumps.\<close>

definition jmp1_at :: "machine \<Rightarrow> u64 \<Rightarrow> u64 \<Rightarrow> nat \<Rightarrow> jmp_state \<Rightarrow> bool" where
  "jmp1_at c ret jb n t \<longleftrightarrow>
     (if n \<le> 10
      then \<exists>m. t = Back m (of_nat (n - 1)) (map fun_line [0..<n]) \<and> back_in c ret jb m \<and>
             (ucast (regs m RAX) :: u32) = of_nat n
      else n = 11 \<and> t = Returned 0 (map fun_line [0..<10]))"

lemma small_words:
  assumes "n \<le> 10"
  shows "(of_nat n :: u32) <s 10 \<longleftrightarrow> n < 10" "(of_nat n :: u32) = 0 \<longleftrightarrow> n = 0" "(of_nat n :: u32) + 1 \<noteq> 0"
    "unat (of_nat n :: u32) = n"
proof -
  show u: "unat (of_nat n :: u32) = n" using assms by (simp add: unat_of_nat take_bit_nat_eq_self)
  then have ui: "uint (of_nat n :: u32) = int n" by (simp add: uint_nat)
  then have "sint (of_nat n :: u32) = int n" using assms by (simp add: sint_uint signed_take_bit_int_eq_self)
  then show "(of_nat n :: u32) <s 10 \<longleftrightarrow> n < 10" by (simp add: word_sless_alt)
  show "(of_nat n :: u32) = 0 \<longleftrightarrow> n = 0" using u by (metis unat_eq_zero)
  have "unat ((of_nat n :: u32) + 1) = n + 1"
    using u assms by (simp add: unat_word_ariths)
  then show "(of_nat n :: u32) + 1 \<noteq> 0" by (metis add_is_0 one_neq_zero unat_0)
qed

text \<open>The value of \<open>i\<close> that the test \<open>i < 10\<close> sees.\<close>

lemma jmp1_counter:
  assumes "n \<le> 10" "(ucast (regs m RAX) :: u32) = of_nat n"
  shows "jmp1_i m (of_nat (n - 1)) = of_nat n"
  using assms small_words(2) [OF assms(1)] by (cases n) (simp_all add: jmp1_i_def)

lemma jmp1_at_step:
  assumes "jmp1_at c ret jb n t" "jmp1_step jb t u"
  shows "jmp1_at c ret jb (Suc n) u"
proof (cases "n \<le> 10")
  case False
  with assms show ?thesis by (auto simp: jmp1_at_def elim: jmp1_ReturnedE)
next
  case True
  then obtain m where m: "t = Back m (of_nat (n - 1)) (map fun_line [0..<n])" "back_in c ret jb m"
      "(ucast (regs m RAX) :: u32) = of_nat n"
    using assms(1) by (auto simp: jmp1_at_def)
  note cnt = jmp1_counter [OF True m(3)] and small = small_words [OF True]
  from assms(2) [unfolded m(1)] show ?thesis
  proof (rule jmp1_BackE, unfold cnt)
    fix C m'
    assume 1: "u = Back (longjmp C m') (of_nat n) (map fun_line [0..<n] @ [fun_line (unat (of_nat n :: u32))])"
      "(of_nat n :: u32) <s 10" "enters_longjmp jb (of_nat n + 1) m C m'"
    have n: "n < 10" using 1(2) small(1) by simp
    note bk = longjmp_back [OF m(2) 1(3) small(3)]
    have "u = Back (longjmp C m') (of_nat (Suc n - 1)) (map fun_line [0..<Suc n])"
      using 1(1) small(4) by simp
    moreover have "(ucast (regs (longjmp C m') RAX) :: u32) = of_nat (Suc n)"
      using bk(2) by (simp add: add.commute)
    ultimately show ?thesis using n bk(1) unfolding jmp1_at_def by auto
  next
    assume 2: "u = Returned 0 (map fun_line [0..<n])" "\<not> (of_nat n :: u32) <s 10"
    have "n = 10" using 2(2) small(1) True by simp
    then show ?thesis using 2(1) by (simp add: jmp1_at_def)
  qed
qed

text \<open>The compiled code can always get to \<open>longjmp\<close>: the stack above \<open>env\<close> is one way.\<close>

lemma enters_longjmp_ex:
  assumes "env + 64 \<noteq> 0"
  shows "\<exists>C m'. enters_longjmp env val m C m'"
proof -
  define C :: clobbers where "C = \<lparr>c_regs = \<lambda>_. 0, c_cells = \<lambda>_. 0, depth = 0\<rparr>"
  define m' where "m' = m\<lparr>regs := (regs m)(RDI := env, RSI := ucast val, RSP := env)\<rparr>"
  have "\<not> scratch C a b" for a b by (auto simp: scratch_def C_def)
  moreover have "env - 8 \<notin> env_cells env" "env - 16 \<notin> env_cells env"
    by (auto simp: env_cells_def diff_conv_add_uminus simp del: add_uminus_conv_diff)
  ultimately have "env_free C env (regs m' RSP - 16) {regs m' RSP - 8, regs m' RSP - 16}"
    using assms by (auto simp: env_free_def m'_def)
  moreover have "ucast (regs m' RSI) = val" by (simp add: m'_def ucast_up_ucast_id is_up)
  ultimately have "enters_longjmp env val m C m'" by (simp add: enters_longjmp_def) (simp add: m'_def)
  then show ?thesis by blast
qed

lemma jmp1_goes_on:
  assumes "jb + 64 \<noteq> 0"
  shows "\<exists>u. jmp1_step jb (Back m i ls) u"
  using enters_longjmp_ex [OF assms, of "jmp1_i m i + 1" m]
  by (cases "jmp1_i m i <s 10") (blast intro: jmp1_step.Call jmp1_step.Return)+

text \<open>
  C16: \<^verbatim>\<open>jmp1.c\<close>.  Its \<open>main\<close> calls \<open>setjmp\<close> once; each of the ten functions is called in turn,
  writes its line and jumps back with its number.  However the compiled code uses the stack
  and the registers in between, and whatever the calls of \<open>sigprocmask\<close> leave behind: the
  run always goes on until, after ten jumps, \<open>main\<close> returns 0 with the ten lines written in
  order, and there it ends; behind every jump \<open>main\<close> has its own registers and stack.
\<close>

theorem jmp1_prints_all:
  assumes "entered c ret s" "env_free C (regs c RDI) (regs s RSP) {regs c RSP - 8, regs c RSP - 16}"
    and "(jmp1_step (regs c RDI) ^^ n) (Back (setjmp C s) 0 []) t"
  shows "n \<le> 11 \<and> ((\<exists>u. jmp1_step (regs c RDI) t u) \<longleftrightarrow> n < 11) \<and>
    (n \<le> 10 \<longrightarrow> (\<exists>m i. t = Back m i (map fun_line [0..<n]) \<and> back_in c ret (regs c RDI) m)) \<and>
    (n = 11 \<longrightarrow> t = Returned 0 (map fun_line [0..<10]))"
proof -
  have at: "jmp1_at c ret (regs c RDI) n t"
    using assms(3)
  proof (induction n arbitrary: t)
    case 0
    then have "t = Back (setjmp C s) 0 []" by simp
    then show ?case using setjmp_back [OF assms(1,2)] by (simp add: jmp1_at_def)
  next
    case (Suc n)
    then show ?case by (auto intro: jmp1_at_step)
  qed
  have env: "regs c RDI + 64 \<noteq> 0" using assms(2) by (simp add: env_free_def)
  show ?thesis
  proof (cases "n \<le> 10")
    case True
    then obtain m where m: "t = Back m (of_nat (n - 1)) (map fun_line [0..<n])" "back_in c ret (regs c RDI) m"
      using at by (auto simp: jmp1_at_def)
    have "\<exists>u. jmp1_step (regs c RDI) t u" unfolding m(1) by (rule jmp1_goes_on [OF env])
    with m True show ?thesis by auto
  next
    case False
    with at have n: "n = 11" "t = Returned 0 (map fun_line [0..<10])" by (simp_all add: jmp1_at_def)
    have "\<not> jmp1_step (regs c RDI) t u" for u unfolding n(2) by (blast elim: jmp1_ReturnedE)
    with n show ?thesis by simp
  qed
qed

subsection \<open>\<^verbatim>\<open>jmp2.c\<close>\<close>

definition SIGALRM :: u32 where "SIGALRM = 14"

text \<open>The mask that \<open>main\<close> starts with: \<open>SIGALRM\<close> is blocked.\<close>

definition jmp2_block :: "u64 \<Rightarrow> u64 \<Rightarrow> u64 res" where
  "jmp2_block set0 mask0 =
     thenR (sigaddset (sigemptyset set0) SIGALRM) (\<lambda>sset. Inr (new_mask SIG_BLOCK (Some sset) mask0))"

text \<open>Behind \<open>setjmp\<close>: the new \<open>has_jumped\<close> and what was written.\<close>

definition jmp2_after :: "machine \<Rightarrow> u32 \<Rightarrow> string list \<Rightarrow> (u32 \<times> string list) res" where
  "jmp2_after m has_jumped ls =
     (if (ucast (regs m RAX) :: u32) \<noteq> 0
      then let ls = ls @ [''after setjmp'' @ newline]; has_jumped = 1; set_after_jmp = sigmask m
           in thenR (sigismember set_after_jmp SIGALRM) (\<lambda>is.
             Inr (has_jumped, ls @ [(if is \<noteq> 0 then ''PASS: The sigmask is preserved''
                                     else ''FAIL: The sigmask is not preserved'') @ newline]))
      else Inr (has_jumped, ls))"

inductive jmp2_step :: "u64 \<Rightarrow> jmp_state \<Rightarrow> jmp_state \<Rightarrow> bool" for jb :: u64 where
  Jump: "jmp2_after m i ls = Inr (0, ls') \<Longrightarrow> enters_longjmp jb 1 m C m' \<Longrightarrow>
    jmp2_step jb (Back m i ls) (Back (longjmp C m') 0 (ls' @ [''before longjmp'' @ newline]))"
| Finish: "jmp2_after m i ls = Inr (j, ls') \<Longrightarrow> j \<noteq> 0 \<Longrightarrow> jmp2_step jb (Back m i ls) (Returned 0 ls')"

inductive_cases jmp2_BackE: "jmp2_step jb (Back m i ls) t"
inductive_cases jmp2_ReturnedE: "jmp2_step jb (Returned code ls) t"

definition jmp2_start :: "string list" where
  "jmp2_start = [''before setjmp'' @ newline]"

lemma alarm_bit: "sig_bit SIGALRM = Inr (push_bit 13 1)"
  by (simp add: sig_bit_def SIGALRM_def)

lemma alarm_blocked:
  assumes "jmp2_block set0 mask0 = Inr m"
  shows "bit m 13"
  using assms by (auto simp: jmp2_block_def sigaddset_def alarm_bit sigemptyset_def new_mask_def SIG_BLOCK_def
      unblockable_def bit_simps)

lemma alarm_member: "bit m 13 \<Longrightarrow> sigismember m SIGALRM = Inr 1"
  using and_exp_nonzero [of m 13] by (simp add: sigismember_def alarm_bit)

lemma alarm_kept: "bit m 13 \<Longrightarrow> bit ((w OR m) AND NOT unblockable) 13" for w :: u64
  by (simp add: unblockable_def bit_simps)

text \<open>The state after \<open>n\<close> steps.\<close>

definition jmp2_at :: "machine \<Rightarrow> u64 \<Rightarrow> u64 \<Rightarrow> nat \<Rightarrow> jmp_state \<Rightarrow> bool" where
  "jmp2_at c ret jb n t \<longleftrightarrow>
     (if n \<le> 1
      then \<exists>m. t = Back m 0 (jmp2_start @ replicate n (''before longjmp'' @ newline)) \<and> back_in c ret jb m \<and>
             (ucast (regs m RAX) :: u32) = of_nat n \<and> bit (sigmask m) 13
      else n = 2 \<and> t = Returned 0 (jmp2_start @ [''before longjmp'' @ newline, ''after setjmp'' @ newline,
             ''PASS: The sigmask is preserved'' @ newline]))"

lemma jmp2_at_step:
  assumes "jmp2_at c ret jb n t" "jmp2_step jb t u" "bit (sigmask c) 13"
  shows "jmp2_at c ret jb (Suc n) u"
proof -
  consider "n = 0" | "n = 1" | "1 < n" by linarith
  then show ?thesis
  proof cases
    case 1
    with assms(1) obtain m where m: "t = Back m 0 jmp2_start" "back_in c ret jb m" "(ucast (regs m RAX) :: u32) = 0"
      by (auto simp: jmp2_at_def)
    have after: "jmp2_after m 0 jmp2_start = Inr (0, jmp2_start)" using m(3) by (simp add: jmp2_after_def)
    from assms(2) [unfolded m(1)] obtain C m' where
      u: "u = Back (longjmp C m') 0 (jmp2_start @ [''before longjmp'' @ newline])" and enters: "enters_longjmp jb 1 m C m'"
      by (rule jmp2_BackE; unfold after; fastforce)
    note bk = longjmp_back [OF m(2) enters one_neq_zero]
    have "bit (sigmask (longjmp C m')) 13" unfolding bk(3) by (rule alarm_kept [OF assms(3)])
    with 1 u bk(1,2) show ?thesis by (simp add: jmp2_at_def)
  next
    case 2
    with assms(1) obtain m where m: "t = Back m 0 (jmp2_start @ [''before longjmp'' @ newline])"
        "(ucast (regs m RAX) :: u32) = 1" "bit (sigmask m) 13"
      by (auto simp: jmp2_at_def)
    have after: "jmp2_after m 0 (jmp2_start @ [''before longjmp'' @ newline]) =
      Inr (1, jmp2_start @ [''before longjmp'' @ newline, ''after setjmp'' @ newline, ''PASS: The sigmask is preserved'' @ newline])"
      using m(2) alarm_member [OF m(3)] by (simp add: jmp2_after_def)
    from assms(2) [unfolded m(1)] have
      "u = Returned 0 (jmp2_start @ [''before longjmp'' @ newline, ''after setjmp'' @ newline, ''PASS: The sigmask is preserved'' @ newline])"
      by (rule jmp2_BackE; unfold after; fastforce)
    with 2 show ?thesis by (simp add: jmp2_at_def)
  next
    case 3
    with assms(1,2) show ?thesis by (auto simp: jmp2_at_def elim: jmp2_ReturnedE)
  qed
qed

lemma jmp2_goes_on:
  assumes "jmp2_at c ret jb n (Back m i ls)" "jb + 64 \<noteq> 0"
  shows "\<exists>u. jmp2_step jb (Back m i ls) u"
proof -
  have "bit (sigmask m) 13" using assms(1) by (simp add: jmp2_at_def split: if_splits)
  then have "\<exists>j ls'. jmp2_after m i ls = Inr (j, ls')" by (simp add: jmp2_after_def alarm_member)
  then obtain j ls' where after: "jmp2_after m i ls = Inr (j, ls')" by blast
  show ?thesis
    using after enters_longjmp_ex [OF assms(2), of 1 m]
    by (cases "j = 0") (blast intro: jmp2_step.Jump jmp2_step.Finish)+
qed

text \<open>
  C29: \<^verbatim>\<open>jmp2.c\<close>.  With \<open>SIGALRM\<close> blocked before \<open>setjmp\<close>, the run always goes on until \<open>main\<close>
  returns 0 after one jump, and the last line is \<open>PASS\<close>, whatever the mask was before the
  program started and whatever is done to it between \<open>setjmp\<close> and \<open>longjmp\<close>: the signal is
  blocked afterwards even where it was unblocked in between.
\<close>

theorem jmp2_passes:
  assumes "entered c ret s" "env_free C (regs c RDI) (regs s RSP) {regs c RSP - 8, regs c RSP - 16}"
    and "jmp2_block set0 mask0 = Inr (sigmask c)"
    and "(jmp2_step (regs c RDI) ^^ n) (Back (setjmp C s) 0 jmp2_start) t"
  shows "n \<le> 2 \<and> ((\<exists>u. jmp2_step (regs c RDI) t u) \<longleftrightarrow> n < 2) \<and>
    (n = 2 \<longrightarrow> t = Returned 0 (map (\<lambda>l. l @ newline)
       [''before setjmp'', ''before longjmp'', ''after setjmp'', ''PASS: The sigmask is preserved'']))"
proof -
  have alarm: "bit (sigmask c) 13" by (rule alarm_blocked [OF assms(3)])
  have at: "jmp2_at c ret (regs c RDI) n t"
    using assms(4)
  proof (induction n arbitrary: t)
    case 0
    then have "t = Back (setjmp C s) 0 jmp2_start" by simp
    then show ?case using setjmp_back [OF assms(1,2)] alarm by (simp add: jmp2_at_def)
  next
    case (Suc n)
    then show ?case by (auto intro: jmp2_at_step [OF _ _ alarm])
  qed
  have env: "regs c RDI + 64 \<noteq> 0" using assms(2) by (simp add: env_free_def)
  show ?thesis
  proof (cases "n \<le> 1")
    case True
    then obtain m i ls where m: "t = Back m i ls" using at by (auto simp: jmp2_at_def)
    have "\<exists>u. jmp2_step (regs c RDI) t u" using jmp2_goes_on [OF _ env] at unfolding m by blast
    with True show ?thesis by simp
  next
    case False
    with at have n: "n = 2" "t = Returned 0 (jmp2_start @ [''before longjmp'' @ newline, ''after setjmp'' @ newline,
        ''PASS: The sigmask is preserved'' @ newline])" by (simp_all add: jmp2_at_def)
    have "\<not> jmp2_step (regs c RDI) t u" for u unfolding n(2) by (blast elim: jmp2_ReturnedE)
    with n show ?thesis by (simp add: jmp2_start_def)
  qed
qed

end
