(* ===== verification/Mini_Memory.thy ===== *)
theory Mini_Memory
  imports Mini_Syscall C_Text
begin

text \<open>
  The memory functions of \<^verbatim>\<open>hw3/libmini.c\<close> (\<open>bzero\<close>, \<open>strlen\<close>, \<open>memcpy\<close>) on a byte
  memory with explicit aliasing, and \<open>perror\<close>.  \<open>size_t\<close> is the signed \<open>long long\<close> of
  \<^verbatim>\<open>libmini.h\<close>.  An access to an unmapped address is a fault.
\<close>

type_synonym memory = "u64 \<Rightarrow> u8 option"

definition load_byte :: "memory \<Rightarrow> u64 \<Rightarrow> u8 res" where
  "load_byte m a = need Out_Of_Bounds (m a)"

definition store_byte :: "memory \<Rightarrow> u64 \<Rightarrow> u8 \<Rightarrow> memory res" where
  "store_byte m a b = (if m a = None then Inl Out_Of_Bounds else Inr (m(a \<mapsto> b)))"

subsection \<open>\<open>bzero\<close>\<close>

text \<open>\<open>while(size-- > 0) *ptr++ = 0\<close>, \<open>n\<close> iterations from \<open>ptr\<close> on.\<close>

fun bzero_loop :: "nat \<Rightarrow> u64 \<Rightarrow> memory \<Rightarrow> memory res" where
  "bzero_loop 0 ptr m = Inr m"
| "bzero_loop (Suc n) ptr m = thenR (store_byte m ptr 0) (bzero_loop n (ptr + 1))"

definition bzero :: "u64 \<Rightarrow> u64 \<Rightarrow> memory \<Rightarrow> memory res" where
  "bzero s size_arg m = bzero_loop (nat (sint size_arg)) s m"

subsection \<open>\<open>strlen\<close>\<close>

text \<open>
  \<open>while(*s++) count++\<close>.  Where every byte of the address space is mapped and none is zero
  the loop does not end.
\<close>

partial_function (option) strlen_loop :: "memory \<Rightarrow> u64 \<Rightarrow> u64 \<Rightarrow> u64 res option" where
  "strlen_loop m s count =
     (case load_byte m s of
        Inl e \<Rightarrow> Some (Inl e)
      | Inr c \<Rightarrow> if c = 0 then Some (Inr count) else strlen_loop m (s + 1) (count + 1))"

definition strlen :: "memory \<Rightarrow> u64 \<Rightarrow> u64 res option" where
  "strlen m s = strlen_loop m s 0"

subsection \<open>\<open>memcpy\<close>\<close>

text \<open>
  The counter is an \<open>int\<close>: copying more than \<open>INT_MAX\<close> bytes overflows it.  Bytes are
  copied one by one, from the lowest address up.
\<close>

definition INT_MAX :: int where "INT_MAX = 2 ^ 31 - 1"

fun memcpy_loop :: "nat \<Rightarrow> u64 \<Rightarrow> u64 \<Rightarrow> memory \<Rightarrow> memory res" where
  "memcpy_loop 0 dst src m = Inr m"
| "memcpy_loop (Suc n) dst src m =
     thenR (load_byte m src) (\<lambda>b.
     thenR (store_byte m dst b) (memcpy_loop n (dst + 1) (src + 1)))"

definition memcpy :: "u64 \<Rightarrow> u64 \<Rightarrow> u64 \<Rightarrow> memory \<Rightarrow> (u64 \<times> memory) res" where
  "memcpy dst src num m =
     (if INT_MAX < sint num
      then thenR (memcpy_loop (nat (INT_MAX + 1)) dst src m) (\<lambda>m. Inl Int_Overflow)
      else thenR (memcpy_loop (nat (sint num)) dst src m) (\<lambda>m. Inr (dst, m)))"

subsection \<open>Facts\<close>

definition all_mapped :: "memory \<Rightarrow> u64 \<Rightarrow> nat \<Rightarrow> bool" where
  "all_mapped m a n \<longleftrightarrow> (\<forall>i<n. m (a + of_nat i) \<noteq> None)"

text \<open>The offset of an address in a block that starts at \<open>a\<close>.\<close>

definition in_block :: "u64 \<Rightarrow> nat \<Rightarrow> u64 \<Rightarrow> bool" where
  "in_block a n x \<longleftrightarrow> unat (x - a) < n"

lemma all_mapped_Suc: "all_mapped m a (Suc n) \<longleftrightarrow> m a \<noteq> None \<and> all_mapped m (a + 1) n"
proof
  assume l: "all_mapped m a (Suc n)"
  have "m (a + 1 + of_nat i) \<noteq> None" if "i < n" for i
    using l [unfolded all_mapped_def, rule_format, of "Suc i"] that by (simp add: ac_simps)
  moreover have "m a \<noteq> None" using l [unfolded all_mapped_def, rule_format, of 0] by simp
  ultimately show "m a \<noteq> None \<and> all_mapped m (a + 1) n" by (simp add: all_mapped_def)
next
  assume r: "m a \<noteq> None \<and> all_mapped m (a + 1) n"
  show "all_mapped m a (Suc n)"
    unfolding all_mapped_def
  proof (intro allI impI)
    fix i assume "i < Suc n"
    then show "m (a + of_nat i) \<noteq> None"
    proof (cases i)
      case (Suc j)
      with r \<open>i < Suc n\<close> have "m (a + 1 + of_nat j) \<noteq> None" by (simp add: all_mapped_def)
      then show ?thesis by (simp add: Suc ac_simps)
    qed (use r in simp)
  qed
qed

lemma all_mapped_upd: "all_mapped m a n \<Longrightarrow> all_mapped (m(x \<mapsto> b)) a n"
  by (simp add: all_mapped_def)

lemma unat_minus_one_word_64: "unat (- 1 :: u64) = 2 ^ 64 - 1"
  by (simp add: unsigned_minus_1_eq_mask mask_eq_exp_minus_1)

lemma in_block_Suc:
  assumes "Suc n < 2 ^ 64"
  shows "in_block a (Suc n) x \<longleftrightarrow> x = a \<or> in_block (a + 1) n x"
proof -
  obtain d where d: "x = a + d" by (metis add.commute diff_add_cancel)
  have "unat (d - 1) < n \<longleftrightarrow> unat d < Suc n" if "d \<noteq> 0"
    using that unat_minus_one [OF that] unat_gt_0 [of d] by auto
  moreover have "unat (- 1 :: u64) = 2 ^ 64 - 1" by (rule unat_minus_one_word_64)
  ultimately show ?thesis using assms by (cases "d = 0") (simp_all add: d in_block_def)
qed

lemma in_block_0 [simp]: "\<not> in_block a 0 x"
  by (simp add: in_block_def)

lemma not_in_tail: "Suc n < 2 ^ 64 \<Longrightarrow> \<not> in_block (a + 1) n a"
  by (simp add: in_block_def unat_minus_one_word_64)

lemma bzero_loop_eq:
  assumes "all_mapped m s n" "n < 2 ^ 64"
  shows "bzero_loop n s m = Inr (\<lambda>x. if in_block s n x then Some 0 else m x)"
  using assms
proof (induction n arbitrary: s m)
  case 0
  then show ?case by (simp add: fun_eq_iff)
next
  case (Suc n)
  have m: "m s \<noteq> None" "all_mapped (m(s \<mapsto> 0)) (s + 1) n" "n < 2 ^ 64"
    using Suc.prems by (simp_all add: all_mapped_Suc all_mapped_upd)
  have "bzero_loop n (s + 1) (m(s \<mapsto> 0)) = Inr (\<lambda>x. if in_block (s + 1) n x then Some 0 else (m(s \<mapsto> 0)) x)"
    by (rule Suc.IH [OF m(2,3)])
  with m(1) Suc.prems(2) show ?case by (auto simp: store_byte_def in_block_Suc fun_eq_iff)
qed

lemma nat_sint_less: "nat (sint (w :: u64)) < 2 ^ 63"
  using sint_less [of w] by (auto simp: nat_less_iff)

text \<open>
  \<open>bzero\<close> clears exactly the bytes of its block, and none when the (signed) size is not
  positive.
\<close>

theorem bzero_clears:
  assumes "all_mapped m s (nat (sint sz))"
  shows "bzero s sz m = Inr (\<lambda>x. if int (unat (x - s)) < sint sz then Some 0 else m x)"
proof -
  have "in_block s (nat (sint sz)) x \<longleftrightarrow> int (unat (x - s)) < sint sz" for x
    by (auto simp: in_block_def zless_nat_eq_int_zless)
  then show ?thesis
    using bzero_loop_eq [OF assms] nat_sint_less [of sz] by (simp add: bzero_def)
qed

text \<open>Copying upwards is right unless the target starts inside the rest of the source.\<close>

lemma memcpy_loop_eq:
  assumes "all_mapped m src n" "all_mapped m dst n" "dst = src \<or> n \<le> unat (dst - src)" "n < 2 ^ 64"
  shows "memcpy_loop n dst src m = Inr (\<lambda>x. if in_block dst n x then m (src + (x - dst)) else m x)"
  using assms
proof (induction n arbitrary: dst src m)
  case 0
  then show ?case by (simp add: fun_eq_iff)
next
  case (Suc n)
  obtain b where b: "m src = Some b" using Suc.prems(1) by (auto simp: all_mapped_Suc)
  let ?m1 = "m(dst \<mapsto> b)"
  have map1: "all_mapped ?m1 (src + 1) n" "all_mapped ?m1 (dst + 1) n"
    using Suc.prems(1,2) by (simp_all add: all_mapped_Suc all_mapped_upd)
  have "memcpy_loop n (dst + 1) (src + 1) ?m1 =
      Inr (\<lambda>x. if in_block (dst + 1) n x then ?m1 (src + 1 + (x - (dst + 1))) else ?m1 x)"
    by (rule Suc.IH [OF map1]) (use Suc.prems in auto)
  moreover have "?m1 (src + 1 + (x - (dst + 1))) = m (src + (x - dst))" if "in_block (dst + 1) n x" for x
  proof -
    have "src + (x - dst) \<noteq> dst"
    proof
      assume eq: "src + (x - dst) = dst"
      then have "x - dst = dst - src" by (simp add: algebra_simps)
      moreover have "unat (x - dst) < Suc n"
        using that in_block_Suc [of n dst x] Suc.prems(4) by (simp add: in_block_def)
      ultimately have "dst = src" using Suc.prems(3) by auto
      with eq have "x = dst" by simp
      with that not_in_tail [of n dst] Suc.prems(4) show False by simp
    qed
    then show ?thesis by (simp add: algebra_simps)
  qed
  ultimately show ?case
    using Suc.prems b not_in_tail [of n dst]
    by (auto simp: load_byte_def store_byte_def all_mapped_Suc in_block_Suc fun_eq_iff)
qed

text \<open>
  C38: \<open>memcpy\<close> of at most \<open>INT_MAX\<close> bytes copies the block and touches nothing else, also
  where the blocks overlap with the target below the source; with the target inside the
  source it does not (see \<open>memcpy_overlap_fills\<close>).
\<close>

theorem memcpy_copies:
  assumes "all_mapped m src (nat (sint num))" "all_mapped m dst (nat (sint num))" "sint num \<le> INT_MAX"
    and "dst = src \<or> sint num \<le> int (unat (dst - src))"
  shows "memcpy dst src num m =
    Inr (dst, \<lambda>x. if int (unat (x - dst)) < sint num then m (src + (x - dst)) else m x)"
proof -
  have blk: "in_block dst (nat (sint num)) x \<longleftrightarrow> int (unat (x - dst)) < sint num" for x
    by (auto simp: in_block_def zless_nat_eq_int_zless)
  have "dst = src \<or> nat (sint num) \<le> unat (dst - src)" using assms(4) by (metis nat_le_iff)
  with assms(3) memcpy_loop_eq [OF assms(1,2)] nat_sint_less [of num] show ?thesis
    by (simp add: memcpy_def blk)
qed

lemma memcpy_loop_fill:
  assumes "m src = Some b" "all_mapped m (src + 1) n" "Suc n < 2 ^ 64"
  shows "memcpy_loop n (src + 1) src m = Inr (\<lambda>x. if in_block (src + 1) n x then Some b else m x)"
  using assms
proof (induction n arbitrary: src m)
  case 0
  then show ?case by (simp add: fun_eq_iff)
next
  case (Suc n)
  let ?m1 = "m(src + 1 \<mapsto> b)"
  have map1: "all_mapped ?m1 (src + 1 + 1) n"
    using Suc.prems(2) by (simp add: all_mapped_Suc all_mapped_upd)
  have "memcpy_loop n (src + 1 + 1) (src + 1) ?m1 = Inr (\<lambda>x. if in_block (src + 1 + 1) n x then Some b else ?m1 x)"
    by (rule Suc.IH [OF _ map1]) (use Suc.prems in auto)
  then show ?case
    using Suc.prems in_block_Suc [of n "src + 1"]
    by (auto simp: load_byte_def store_byte_def all_mapped_Suc [of m "src + 1" n] fun_eq_iff)
qed

text \<open>
  copying a block one byte up.  \<open>memcpy\<close> is not \<open>memmove\<close>: with the target one byte
  above the source every byte of the target becomes the first byte of the source.
\<close>

theorem memcpy_overlap_fills:
  assumes "m src = Some b" "all_mapped m (src + 1) (nat (sint num))" "0 \<le> sint num" "sint num \<le> INT_MAX"
  shows "memcpy (src + 1) src num m =
    Inr (src + 1, \<lambda>x. if int (unat (x - (src + 1))) < sint num then Some b else m x)"
proof -
  have blk: "in_block (src + 1) (nat (sint num)) x \<longleftrightarrow> int (unat (x - (src + 1))) < sint num" for x
    by (auto simp: in_block_def zless_nat_eq_int_zless)
  show ?thesis
    using assms(4) memcpy_loop_fill [OF assms(1,2)] nat_sint_less [of num]
    by (simp add: memcpy_def blk)
qed

text \<open>The \<open>n\<close> bytes of a C string at \<open>s\<close>, with its terminating zero.\<close>

definition cstring_at :: "memory \<Rightarrow> u64 \<Rightarrow> nat \<Rightarrow> bool" where
  "cstring_at m s n \<longleftrightarrow> (\<forall>i<n. \<exists>c. m (s + of_nat i) = Some c \<and> c \<noteq> 0) \<and> m (s + of_nat n) = Some 0"

lemma cstring_at_Suc:
  "cstring_at m s (Suc n) \<Longrightarrow> (\<exists>c. m s = Some c \<and> c \<noteq> 0) \<and> cstring_at m (s + 1) n"
proof -
  assume c: "cstring_at m s (Suc n)"
  have "\<exists>c. m (s + 1 + of_nat i) = Some c \<and> c \<noteq> 0" if "i < n" for i
    using c that by (auto simp: cstring_at_def ac_simps dest: spec [of _ "Suc i"])
  moreover have "\<exists>c. m s = Some c \<and> c \<noteq> 0" using c by (auto simp: cstring_at_def dest: spec [of _ 0])
  ultimately show ?thesis using c by (simp add: cstring_at_def ac_simps)
qed

lemma strlen_loop_eq: "cstring_at m s n \<Longrightarrow> strlen_loop m s k = Some (Inr (k + of_nat n))"
proof (induction n arbitrary: s k)
  case 0
  then show ?case by (simp add: strlen_loop.simps [of m s] load_byte_def cstring_at_def)
next
  case (Suc n)
  from cstring_at_Suc [OF Suc.prems] obtain c where "m s = Some c" "c \<noteq> 0" "cstring_at m (s + 1) n" by blast
  then show ?case
    using Suc.IH [of "s + 1" "k + 1"] by (simp add: strlen_loop.simps [of m s] load_byte_def ac_simps)
qed



lemma int_of_nat_word: "n < 2 ^ 63 \<Longrightarrow> sint (of_nat n :: u64) = int n"
  by (simp add: sint_uint uint_nat unat_of_nat take_bit_nat_eq_self signed_take_bit_int_eq_self)

text \<open>
  copying a string with its terminator gives a string of the same length, where the
  copy does not overlap the original from above.
\<close>

theorem memcpy_strlen:
  assumes "cstring_at m src n" "int n < INT_MAX" "all_mapped m dst (Suc n)" "n < unat (dst - src)"
  shows "\<exists>m'. memcpy dst src (of_nat (Suc n)) m = Inr (dst, m') \<and> strlen m' dst = Some (Inr (of_nat n))"
proof -
  let ?num = "of_nat (Suc n) :: u64"
  have n: "Suc n < 2 ^ 63" "int (Suc n) \<le> INT_MAX" using assms(2) by (simp_all add: INT_MAX_def)
  then have sz: "sint ?num = int (Suc n)" by (intro int_of_nat_word)
  have src: "all_mapped m src (Suc n)"
    using assms(1) by (auto simp: all_mapped_def cstring_at_def less_Suc_eq)
  define m' where "m' = (\<lambda>x. if int (unat (x - dst)) < sint ?num then m (src + (x - dst)) else m x)"
  have d: "int (Suc n) \<le> uint (dst - src)"
    using assms(4) by (simp only: uint_nat of_nat_le_iff Suc_le_eq)
  have "memcpy dst src ?num m = Inr (dst, m')"
    unfolding m'_def
    by (rule memcpy_copies) (use sz src assms(3) d n(2) in \<open>simp_all del: of_nat_Suc\<close>)
  moreover have "m' (dst + of_nat i) = m (src + of_nat i)" if "i \<le> n" for i
  proof -
    have "unat (of_nat i :: u64) = i" using that n(1) by (simp add: unat_of_nat take_bit_nat_eq_self)
    with that show ?thesis unfolding m'_def sz by simp
  qed
  then have "cstring_at m' dst n" using assms(1) by (simp add: cstring_at_def)
  then have "strlen m' dst = Some (Inr (of_nat n))" using strlen_loop_eq [of m' dst n 0] by (simp add: strlen_def)
  ultimately show ?thesis by blast
qed

subsection \<open>\<open>perror\<close>\<close>

text \<open>\<open>write(2, s, strlen(s))\<close>, with the bytes themselves for the pointer.\<close>

type_synonym 'k stderr_write = "string \<Rightarrow> 'k \<Rightarrow> u64 \<times> 'k"

definition write_err :: "'k stderr_write \<Rightarrow> string \<Rightarrow> 'k proc \<Rightarrow> 'k proc" where
  "write_err W s p =
     snd (WRAPPER_RETval (let (ret, k) = W s (kern p) in (ret, p\<lparr>kern := k\<rparr>)) :: u64 \<times> 'k proc)"

definition PERRMSG_MIN :: int where "PERRMSG_MIN = 0"
definition PERRMSG_MAX :: int where "PERRMSG_MAX = 34"

definition errmsg :: "string list" where
  "errmsg =
     [''Success'', ''Operation not permitted'', ''No such file or directory'', ''No such process'',
      ''Interrupted system call'', ''I/O error'', ''No such device or address'', ''Argument list too long'',
      ''Exec format error'', ''Bad file number'', ''No child processes'', ''Try again'', ''Out of memory'',
      ''Permission denied'', ''Bad address'', ''Block device required'', ''Device or resource busy'',
      ''File exists'', ''Cross-device link'', ''No such device'', ''Not a directory'', ''Is a directory'',
      ''Invalid argument'', ''File table overflow'', ''Too many open files'', ''Not a typewriter'',
      ''Text file busy'', ''File too large'', ''No space left on device'', ''Illegal seek'',
      ''Read-only file system'', ''Too many links'', ''Broken pipe'', ''Math argument out of domain of func'',
      ''Math result not representable'']"

text \<open>
  The range check looks at \<open>errno\<close>, which the writes before it have set; the index is the
  saved value.
\<close>

definition perror :: "'k stderr_write \<Rightarrow> string option \<Rightarrow> 'k proc \<Rightarrow> 'k proc res" where
  "perror W prefix p =
     (let backup = errno p;
          p1 = (case prefix of None \<Rightarrow> p | Some s \<Rightarrow> write_err W '': '' (write_err W s p))
      in thenR (if sint (errno p1) < PERRMSG_MIN \<or> PERRMSG_MAX < sint (errno p1) then Inr ''Unknown''
                else if sint backup < 0 then Inl Out_Of_Bounds
                else index_at errmsg (nat (sint backup)))
           (\<lambda>msg. Inr (write_err W newline (write_err W msg p1))))"

text \<open>A standard error that takes everything; \<open>text\<close> observes what was written.\<close>

definition accepts :: "'k stderr_write \<Rightarrow> ('k \<Rightarrow> string) \<Rightarrow> bool" where
  "accepts W written \<longleftrightarrow>
     (\<forall>s k. 0 \<le> sint (fst (W s k)) \<and> written (snd (W s k)) = written k @ s)"

lemma write_err_accepts:
  assumes "accepts W written"
  shows "errno (write_err W s p) = 0 \<and> written (kern (write_err W s p)) = written (kern p) @ s"
  using assms by (auto simp: accepts_def write_err_def WRAPPER_RETval_def split_beta Let_def not_less [symmetric])

lemma length_errmsg: "length errmsg = 35"
  by (simp add: errmsg_def)

lemma perror_prefix:
  assumes "accepts W written"
  shows "map_sum id (\<lambda>p. written (kern p)) (perror W (Some s) p) =
    (if 0 \<le> sint (errno p) \<and> sint (errno p) \<le> 34
     then Inr (written (kern p) @ s @ '': '' @ errmsg ! nat (sint (errno p)) @ newline)
     else Inl Out_Of_Bounds)"
  using write_err_accepts [OF assms] length_errmsg
  by (auto simp: perror_def Let_def PERRMSG_MIN_def PERRMSG_MAX_def index_at_def)

text \<open>
  \<open>perror\<close> with a prefix.  For an error number in the table it prints the prefix, a
  colon and the message; for any other one it does not print "Unknown" but reads outside
  the table, because its own writes have reset the \<open>errno\<close> that it checks.  Without a prefix
  the check works.
\<close>

theorem perror_prints:
  assumes "accepts W written"
  shows "map_sum id (\<lambda>p. written (kern p)) (perror W (Some s) p) =
      (if 0 \<le> sint (errno p) \<and> sint (errno p) \<le> 34
       then Inr (written (kern p) @ s @ '': '' @ errmsg ! nat (sint (errno p)) @ newline)
       else Inl Out_Of_Bounds) \<and>
    map_sum id (\<lambda>p. written (kern p)) (perror W None p) =
      (if 0 \<le> sint (errno p) \<and> sint (errno p) \<le> 34
       then Inr (written (kern p) @ errmsg ! nat (sint (errno p)) @ newline)
       else Inr (written (kern p) @ ''Unknown'' @ newline))"
  using write_err_accepts [OF assms] length_errmsg perror_prefix [OF assms, of s p]
  by (auto simp: perror_def [of W None] Let_def PERRMSG_MIN_def PERRMSG_MAX_def index_at_def)

end
