(* ===== verification/Mini_Errors.thy ===== *)
theory Mini_Errors
  imports Mini_Memory
begin

text \<open>
  The error numbers of \<^verbatim>\<open>libmini.h\<close> against the messages of \<open>perror\<close> in \<^verbatim>\<open>libmini.c\<close>: from the
  kernel's answer to the text on the standard error.
\<close>

text \<open>The error numbers of the header, with what its comments say of them.\<close>

definition header_errors :: "(string \<times> nat \<times> string) list" where
  "header_errors =
     [(''EPERM'', 1, ''Operation not permitted''),
      (''ENOENT'', 2, ''No such file or directory''),
      (''ESRCH'', 3, ''No such process''),
      (''EINTR'', 4, ''Interrupted system call''),
      (''EIO'', 5, ''I/O error''),
      (''ENXIO'', 6, ''No such device or address''),
      (''E2BIG'', 7, ''Argument list too long''),
      (''ENOEXEC'', 8, ''Exec format error''),
      (''EBADF'', 9, ''Bad file number''),
      (''ECHILD'', 10, ''No child processes''),
      (''EAGAIN'', 11, ''Try again''),
      (''ENOMEM'', 12, ''Out of memory''),
      (''EACCES'', 13, ''Permission denied''),
      (''EFAULT'', 14, ''Bad address''),
      (''ENOTBLK'', 15, ''Block device required''),
      (''EBUSY'', 16, ''Device or resource busy''),
      (''EEXIST'', 17, ''File exists''),
      (''EXDEV'', 18, ''Cross-device link''),
      (''ENODEV'', 19, ''No such device''),
      (''ENOTDIR'', 20, ''Not a directory''),
      (''EISDIR'', 21, ''Is a directory''),
      (''EINVAL'', 22, ''Invalid argument''),
      (''ENFILE'', 23, ''File table overflow''),
      (''EMFILE'', 24, ''Too many open files''),
      (''ENOTTY'', 25, ''Not a typewriter''),
      (''ETXTBSY'', 26, ''Text file busy''),
      (''EFBIG'', 27, ''File too large''),
      (''ENOSPC'', 28, ''No space left on device''),
      (''ESPIPE'', 29, ''Illegal seek''),
      (''EROFS'', 30, ''Read-only file system''),
      (''EMLINK'', 31, ''Too many links''),
      (''EPIPE'', 32, ''Broken pipe''),
      (''EDOM'', 33, ''Math argument out of domain of func''),
      (''ERANGE'', 34, ''Math result not representable'')]"

lemma header_error_numbers: "map (\<lambda>(name, e, text). e) header_errors = [1..<35]"
  by (simp add: header_errors_def upt_rec)

lemma header_error_texts: "map (\<lambda>(name, e, text). text) header_errors = tl errmsg"
  by (simp add: header_errors_def errmsg_def)

lemma header_text:
  assumes "(name, e, text) \<in> set header_errors"
  shows "0 < e" "e < 35" "errmsg ! e = text"
proof -
  obtain i where i: "i < length header_errors" "header_errors ! i = (name, e, text)"
    using assms by (auto simp: in_set_conv_nth)
  have len: "length header_errors = 34" using arg_cong [OF header_error_numbers, of length] by simp
  have "e = map (\<lambda>(name, e, text). e) header_errors ! i" using i by simp
  also have "\<dots> = Suc i" using i(1) len by (simp add: header_error_numbers)
  finally have e: "e = Suc i" .
  have "text = map (\<lambda>(name, e, text). text) header_errors ! i" using i by simp
  also have "\<dots> = errmsg ! Suc i" using i(1) len length_errmsg by (simp add: header_error_texts nth_tl)
  finally show "errmsg ! e = text" by (simp add: e)
  show "0 < e" "e < 35" using i(1) len by (simp_all add: e)
qed

lemma small_errno: "e < 4096 \<Longrightarrow> sint (of_nat e :: u64) = int e"
  by (subst int_of_nat_word) simp_all

lemma perror_text:
  assumes "accepts W written" "(name, e, text) \<in> set header_errors" "errno p = of_nat e"
  shows "map_sum id (\<lambda>q. written (kern q)) (perror W (Some s) p) = Inr (written (kern p) @ s @ '': '' @ text @ newline)"
  using perror_prefix [OF assms(1), of s p] header_text [OF assms(2)] small_errno [of e] by (simp add: assms(3))

text \<open>
  C30: from the kernel to the terminal.  The kernel refuses a call of \<open>mkdir\<close> or \<open>getcwd\<close>
  with the number of an error of the header.  Then the call returns its failure value, and
  \<open>perror\<close> prints what the comment of the header says of that number: the table of messages and
  the header agree on all 34 of them, and the header has no other numbers.
\<close>

theorem error_reported:
  assumes "accepts W written" "(name, e, text) \<in> set header_errors"
  shows "(K 83 [path, scast mode] (kern p) = (- of_nat e, k) \<longrightarrow>
      (\<exists>q. mkdir K path mode p = (- 1, q) \<and>
        map_sum id (\<lambda>q. written (kern q)) (perror W (Some s) q) = Inr (written k @ s @ '': '' @ text @ newline))) \<and>
    (K 79 [buf, sz] (kern p) = (- of_nat e, k) \<longrightarrow>
      (\<exists>q. getcwd K buf sz p = (0, q) \<and>
        map_sum id (\<lambda>q. written (kern q)) (perror W (Some s) q) = Inr (written k @ s @ '': '' @ text @ newline))) \<and>
    e \<in> {1..34} \<and> length header_errors = 34"
proof -
  have e: "0 < e" "e < 4096" "e < 35" using header_text [OF assms(2)] by simp_all
  have perror_ok: "map_sum id (\<lambda>q. written (kern q)) (perror W (Some s) (p\<lparr>errno := of_nat e, kern := k\<rparr>)) =
      Inr (written k @ s @ '': '' @ text @ newline)"
    using perror_text [OF assms, of "p\<lparr>errno := of_nat e, kern := k\<rparr>"] by simp
  have "mkdir K path mode p = (- 1, p\<lparr>errno := of_nat e, kern := k\<rparr>)"
    if "K 83 [path, scast mode] (kern p) = (- of_nat e, k)"
    using w_mkdir.errno_value [of K path mode p e] that e by simp
  moreover have "getcwd K buf sz p = (0, p\<lparr>errno := of_nat e, kern := k\<rparr>)"
    if "K 79 [buf, sz] (kern p) = (- of_nat e, k)"
    using w_getcwd.errno_value [of K buf sz p e] that e by simp
  moreover have "length header_errors = 34" using arg_cong [OF header_error_numbers, of length] by simp
  ultimately show ?thesis using perror_ok e by auto
qed

end
