(* ===== verification/Mini_Sessions.thy ===== *)
theory Mini_Sessions
  imports Mini_Errors Mini_Signal Mini_Jump
begin

text \<open>
  Concrete runs of the \<^verbatim>\<open>hw3\<close> library: a kernel that answers every call with \<open>ENOENT\<close>, a
  memory of a few mapped bytes, and a standard error that collects what is written.
\<close>

definition enoent_kernel :: "unit kernel" where
  "enoent_kernel nr args k = (- 2, k)"

text \<open>The bytes \<open>xs\<close> from address \<open>a\<close> on.\<close>

definition mem_at :: "u64 \<Rightarrow> u8 list \<Rightarrow> memory" where
  "mem_at a xs x = (if unat (x - a) < length xs then Some (xs ! unat (x - a)) else None)"

definition log_err :: "string stderr_write" where
  "log_err s k = (of_nat (length s mod 4096), k @ s)"

lemma accepts_log_err: "accepts log_err id"
proof -
  have "0 \<le> sint (of_nat (n mod 4096) :: u64)" for n :: nat
    by (subst int_of_nat_word) simp_all
  then show ?thesis by (simp add: accepts_def log_err_def)
qed

lemma all_mapped_mem_at: "n \<le> length xs \<Longrightarrow> n < 2 ^ 64 \<Longrightarrow> all_mapped (mem_at a xs) a n"
  by (simp add: all_mapped_def mem_at_def unat_of_nat take_bit_nat_eq_self)

theorem wrappers_report_errors_witness:
  "read enoent_kernel 0 0 0 \<lparr>errno = 0, kern = ()\<rparr> = (- 1, \<lparr>errno = 2, kern = ()\<rparr>)"
  using wrappers_report_errors [of 2 enoent_kernel 0 0 0 "\<lparr>errno = 0, kern = ()\<rparr>"]
  by (simp add: enoent_kernel_def)

theorem bzero_clears_witness:
  "bzero 100 3 (mem_at 100 [1, 2, 3, 4]) =
     Inr (\<lambda>x. if int (unat (x - 100)) < 3 then Some 0 else mem_at 100 [1, 2, 3, 4] x)"
  using bzero_clears [of "mem_at 100 [1, 2, 3, 4]" 100 3] all_mapped_mem_at [of 3 "[1, 2, 3, 4]" 100] by simp

theorem memcpy_copies_witness:
  "memcpy 100 102 2 (mem_at 100 [1, 2, 3, 4]) =
     Inr (100, \<lambda>x. if int (unat (x - 100)) < 2 then mem_at 100 [1, 2, 3, 4] (102 + (x - 100))
                   else mem_at 100 [1, 2, 3, 4] x)"
proof -
  have "all_mapped (mem_at 100 [1, 2, 3, 4]) 102 (nat (sint (2 :: u64)))"
    by (auto simp: all_mapped_def mem_at_def less_2_cases_iff)
  moreover have "all_mapped (mem_at 100 [1, 2, 3, 4]) 100 (nat (sint (2 :: u64)))"
    using all_mapped_mem_at [of 2 "[1, 2, 3, 4]" 100] by simp
  ultimately show ?thesis
    using memcpy_copies [of "mem_at 100 [1, 2, 3, 4]" 102 2 100] by (simp add: INT_MAX_def)
qed

theorem memcpy_overlap_fills_witness:
  "memcpy (100 + 1) 100 3 (mem_at 100 [1, 2, 3, 4]) =
     Inr (100 + 1, \<lambda>x. if int (unat (x - (100 + 1))) < 3 then Some 1 else mem_at 100 [1, 2, 3, 4] x)"
proof -
  have "mem_at 100 [1, 2, 3, 4] 100 = Some 1" by (simp add: mem_at_def)
  moreover have "all_mapped (mem_at 100 [1, 2, 3, 4]) (100 + 1) (nat (sint (3 :: u64)))"
    using all_mapped_mem_at [of 4 "[1, 2, 3, 4]" 100] all_mapped_Suc [of "mem_at 100 [1, 2, 3, 4]" 100 3]
    by simp
  ultimately show ?thesis
    using memcpy_overlap_fills [of "mem_at 100 [1, 2, 3, 4]" 100 1 3] by (simp add: INT_MAX_def)
qed


theorem memcpy_strlen_witness:
  "\<exists>m'. memcpy 103 100 (of_nat (Suc 2)) (mem_at 100 [72, 105, 0, 7, 7, 7]) = Inr (103, m') \<and>
     strlen m' 103 = Some (Inr (of_nat 2))"
proof (rule memcpy_strlen)
  show "cstring_at (mem_at 100 [72, 105, 0, 7, 7, 7]) 100 2"
    by (auto simp: cstring_at_def mem_at_def less_2_cases_iff)
  have "i = 0 \<or> i = 1 \<or> i = 2" if "i < Suc 2" for i using that by auto
  then show "all_mapped (mem_at 100 [72, 105, 0, 7, 7, 7]) 103 (Suc 2)"
    unfolding all_mapped_def by (fastforce simp: mem_at_def)
qed (simp_all add: INT_MAX_def)

theorem perror_prints_witness:
  "map_sum id (\<lambda>p. id (kern p)) (perror log_err (Some ''mkdir'') \<lparr>errno = 2, kern = []\<rparr>) =
      Inr (''mkdir'' @ '': '' @ ''No such file or directory'' @ newline) \<and>
   map_sum id (\<lambda>p. id (kern p)) (perror log_err None \<lparr>errno = 99, kern = []\<rparr>) = Inr (''Unknown'' @ newline)"
  using perror_prints [OF accepts_log_err, of "''mkdir''" "\<lparr>errno = 2, kern = []\<rparr>"]
    perror_prints [OF accepts_log_err, of "''mkdir''" "\<lparr>errno = 99, kern = []\<rparr>"]
  by (simp add: errmsg_def)

theorem error_reported_witness:
  "\<exists>q. mkdir (\<lambda>nr args k. (- 2, k)) 0x1000 0x1ed \<lparr>errno = 0, kern = ''$ ''\<rparr> = (- 1, q) \<and>
     map_sum id (\<lambda>q. id (kern q)) (perror log_err (Some ''mkdir'') q) =
       Inr (''$ '' @ ''mkdir'' @ '': '' @ ''No such file or directory'' @ newline)"
proof -
  have "(''ENOENT'', 2, ''No such file or directory'') \<in> set header_errors" by (simp add: header_errors_def)
  from error_reported [OF accepts_log_err this, of "\<lambda>nr args k. (- 2, k)" "0x1000" "0x1ed" "\<lparr>errno = 0, kern = ''$ ''\<rparr>" "''$ ''" "''mkdir''"]
  show ?thesis by auto
qed

subsection \<open>Signals\<close>

text \<open>A kernel that keeps a table of actions and lets only \<open>SIGINT\<close> and \<open>SIGALRM\<close> be changed.\<close>

definition table_kernel :: "(u32 \<Rightarrow> kernel_sigaction) act_kernel" where
  "table_kernel sig a k = (if sig = 2 \<or> sig = 14 then ((0, k sig), k(sig := a)) else ((- 22, a), k))"

definition default_action :: kernel_sigaction where
  "default_action = \<lparr>k_sa_handler = 0, k_sa_flags = 0, k_sa_restorer = 0, k_sa_mask = 0\<rparr>"

lemma table_kernel_acts: "action_kernel table_kernel id {2, 14}"
  by (simp add: action_kernel_def table_kernel_def)

theorem sigset_add_del_witness: "thenR (sigaddset 0 14) (\<lambda>t. sigdelset t 14) = Inr 0"
  using sigset_add_del [of 14 0] by (simp add: valid_sig_def sigs_def)

theorem sigaction_installs_witness:
  "sigaction 0x400 table_kernel default_action 9 (Some (seen_by_user default_action)) None \<lparr>errno = 0, kern = \<lambda>_. default_action\<rparr>
     = Inr (- 1, None, \<lparr>errno = 22, kern = \<lambda>_. default_action\<rparr>) \<and>
   (\<exists>p'. sigaction 0x400 table_kernel default_action 14 (Some (seen_by_user default_action)) None \<lparr>errno = 7, kern = \<lambda>_. default_action\<rparr>
     = Inr (0, None, p') \<and> errno p' = 0)"
  using sigaction_installs [OF table_kernel_acts, of "0x400" default_action 9 None "\<lparr>errno = 0, kern = \<lambda>_. default_action\<rparr>" "seen_by_user default_action"]
    sigaction_installs [OF table_kernel_acts, of "0x400" default_action 14 None "\<lparr>errno = 7, kern = \<lambda>_. default_action\<rparr>" "seen_by_user default_action"]
  by auto

theorem signal_swaps_witness:
  "\<exists>r1 p1 p2. signal 0x400 table_kernel default_action (seen_by_user default_action) (seen_by_user default_action) 14 0x1000
       \<lparr>errno = 0, kern = \<lambda>_. default_action\<rparr> = Inr (r1, p1) \<and>
     signal 0x400 table_kernel default_action (seen_by_user default_action) (seen_by_user default_action) 14 1 p1 = Inr (0x1000, p2)"
  using signal_swaps [OF table_kernel_acts, where sig = 14 and R = "0x400" and ?k0.0 = default_action
      and ?a0.0 = "seen_by_user default_action" and ?o0.0 = "seen_by_user default_action" and ?h1.0 = "0x1000"
      and p = "\<lparr>errno = 0, kern = \<lambda>_. default_action\<rparr>" and k0' = default_action
      and a0' = "seen_by_user default_action" and o0' = "seen_by_user default_action" and ?h2.0 = 1]
  by auto

subsection \<open>Jumps\<close>

definition jump_caller :: machine where
  "jump_caller = \<lparr>regs = (\<lambda>_. 0)(RSP := 0x1000, RDI := 0x2000, RBX := 7), cells = \<lambda>_. 0, rip = 0, sigmask = 0x2000, err = 0\<rparr>"

definition jump_entered :: machine where
  "jump_entered = jump_caller\<lparr>regs := (regs jump_caller)(RSP := 0xfe0, RBP := 0xff0),
     cells := (\<lambda>_. 0)(0xff8 := 0x400), rip := 0x500\<rparr>"

definition jump_clobbers :: clobbers where
  "jump_clobbers = \<lparr>c_regs = \<lambda>_. 99, c_cells = \<lambda>_. 77, depth = 128\<rparr>"

definition jump_late :: machine where
  "jump_late = (setjmp jump_clobbers jump_entered)\<lparr>regs := (\<lambda>_. 55)(RDI := 0x2000, RSI := 5, RSP := 0xf00), sigmask := 0x4\<rparr>"

lemma jump_entered_caller: "entered jump_caller 0x400 jump_entered"
  by (simp add: entered_def jump_entered_def jump_caller_def)

lemma jump_env_free:
  "env_free jump_clobbers 0x2000 (regs jump_entered RSP) {regs jump_caller RSP - 8, regs jump_caller RSP - 16}"
  "env_free jump_clobbers 0x2000 (regs jump_late RSP - 16) {regs jump_late RSP - 8, regs jump_late RSP - 16}"
  by (simp_all add: env_free_def env_cells_def scratch_def jump_entered_def jump_caller_def jump_clobbers_def jump_late_def)

lemma jump_late_simps:
  "cells jump_late = cells (setjmp jump_clobbers jump_entered)" "regs jump_late RDI = 0x2000"
  "regs jump_late RSI = 5" "sigmask jump_late = 4"
  by (simp_all add: jump_late_def)

theorem longjmp_returns_to_setjmp_witness:
  "regs (setjmp jump_clobbers jump_entered) RAX = 0 \<and> regs (longjmp jump_clobbers jump_late) RAX = 5 \<and>
   regs (longjmp jump_clobbers jump_late) RBX = 7 \<and> rip (longjmp jump_clobbers jump_late) = 0x400"
  using longjmp_returns_to_setjmp [OF jump_entered_caller, of "0x2000" jump_clobbers jump_late jump_clobbers]
    jump_env_free by (simp add: jump_late_simps jump_caller_def)

theorem longjmp_adds_mask_witness: "sigmask (longjmp jump_clobbers jump_late) = 0x2004"
  using longjmp_adds_mask [OF jump_entered_caller, of "0x2000" jump_clobbers jump_late jump_clobbers]
    jump_env_free by (simp add: jump_late_simps jump_caller_def unblockable_def)

end
