(* ===== verification/Jump_Sessions.thy ===== *)
theory Jump_Sessions
  imports Mini_Programs Mini_Sessions
begin

text \<open>Concrete runs of the entry point and of the programs of \<open>Mini_Programs\<close>.\<close>

text \<open>The kernel's stack for a program called with two arguments; it returns their number plus one.\<close>

definition two_args :: machine where
  "two_args = \<lparr>regs = (\<lambda>_. 0)(RSP := 0x7ff0), cells = (\<lambda>_. 0)(0x7ff0 := 2, 0x7ff8 := 0x8100, 0x8000 := 0x8105),
     rip = 0x400, sigmask = 0, err = 0\<rparr>"

definition count_args :: "machine \<Rightarrow> machine option" where
  "count_args s = Some (set_reg RAX (regs s RDI + 1) s)"

theorem start_runs_main_witness:
  "\<exists>t. start 0x40e count_args two_args = Some (set_reg RDI 3 (set_reg RAX 3 t), 60, [3]) \<and>
     cells t (regs t RSI) = 0x8100 \<and> cells t (regs t RSI + 8) = 0x8105 \<and> (regs t RSP + 8) AND 15 = 0"
proof -
  from start_runs_main [of 2 "0x40e" count_args two_args] obtain t where
    t: "start 0x40e count_args two_args =
        map_option (\<lambda>u. (set_reg RDI (regs u RAX) u, 60, [scast (ucast (regs u RAX) :: u32)])) (count_args t)"
      "regs t RDI = cells two_args (regs two_args RSP)" "(regs t RSP + 8) AND 15 = 0"
      "\<forall>i<2. cells t (regs t RSI + 8 * of_nat i) = cells two_args (regs two_args RSP + 8 + 8 * of_nat i)"
    by (auto simp: two_args_def)
  have args: "cells t (regs t RSI + 8 * of_nat 0) = 0x8100" "cells t (regs t RSI + 8 * of_nat 1) = 0x8105"
    by (subst t(4) [rule_format]; simp add: two_args_def)+
  have "count_args t = Some (set_reg RAX 3 t)" using t(2) by (simp add: count_args_def two_args_def)
  with t(1,3) args show ?thesis by (intro exI [of _ t]) simp
qed

lemma jump_env_buffer: "env_free jump_clobbers (regs jump_caller RDI) (regs jump_entered RSP)
    {regs jump_caller RSP - 8, regs jump_caller RSP - 16}"
  using jump_env_free(1) by (simp add: jump_caller_def)

text \<open>A run of as many steps as the property says there are.\<close>

lemma run_exists:
  assumes "\<And>n t. (r ^^ n) x t \<Longrightarrow> n < k \<Longrightarrow> \<exists>u. r t u" "n \<le> k"
  shows "\<exists>t. (r ^^ n) x t"
  using assms(2)
proof (induction n)
  case (Suc n)
  then obtain t where t: "(r ^^ n) x t" by auto
  with assms(1) Suc(2) obtain u where "r t u" by (metis Suc_le_lessD)
  with t show ?case by auto
qed simp

theorem jmp1_prints_all_witness:
  "(jmp1_step 0x2000 ^^ 11) (Back (setjmp jump_clobbers jump_entered) 0 []) (Returned 0 (map fun_line [0..<10])) \<and>
   fun_line 9 = ''This is function j().'' @ newline"
proof -
  have buf: "regs jump_caller RDI = 0x2000" by (simp add: jump_caller_def)
  note run = jmp1_prints_all [OF jump_entered_caller jump_env_buffer, unfolded buf]
  obtain t where t: "(jmp1_step 0x2000 ^^ 11) (Back (setjmp jump_clobbers jump_entered) 0 []) t"
    using run_exists [of "jmp1_step 0x2000" _ 11 11] run by blast
  with run [OF t] show ?thesis by (simp only: fun_line_def) simp
qed

theorem jmp2_passes_witness:
  "(jmp2_step 0x2000 ^^ 2) (Back (setjmp jump_clobbers jump_entered) 0 jmp2_start)
     (Returned 0 (map (\<lambda>l. l @ newline)
        [''before setjmp'', ''before longjmp'', ''after setjmp'', ''PASS: The sigmask is preserved'']))"
proof -
  have buf: "regs jump_caller RDI = 0x2000" by (simp add: jump_caller_def)
  have "jmp2_block 5 0 = Inr (sigmask jump_caller)"
    by (simp add: jmp2_block_def sigaddset_def alarm_bit sigemptyset_def new_mask_def SIG_BLOCK_def unblockable_def jump_caller_def)
  note run = jmp2_passes [OF jump_entered_caller jump_env_buffer this, unfolded buf]
  obtain t where t: "(jmp2_step 0x2000 ^^ 2) (Back (setjmp jump_clobbers jump_entered) 0 jmp2_start) t"
    using run_exists [of "jmp2_step 0x2000" _ 2 2] run by blast
  show ?thesis using run [OF t] t by metis
qed

end
