(* ===== verification/Net_Entries.thy ===== *)
theory Net_Entries
  imports C_Text
begin

text \<open>
  The connection lister of \<^verbatim>\<open>hw1\<close>: one line of \<^verbatim>\<open>/proc/net/tcp\<close> (or \<^verbatim>\<open>tcp6\<close>, \<^verbatim>\<open>udp\<close>,
  \<^verbatim>\<open>udp6\<close>) becomes a \<open>connection_entry\<close> (\<^verbatim>\<open>hw1_utils.h\<close>), and an entry becomes a line of
  output.  Objects on the stack that the code does not assign (or assigns in part) are
  arguments of the model: the type \<open>stack\<close> holds what was there before.  The text form of an
  IPv6 address is a parameter (\<open>inet_ntop\<close> is not code of the program); for IPv4 it is
  written out.
\<close>

subsection \<open>Data\<close>

record connection_entry =
  ip_proto :: string
  local_addr :: string
  local_port :: string
  remote_addr :: string
  remote_port :: string
  pid :: int
  inode :: int

record stack =
  old_port :: u64         \<comment> \<open>\<open>unsigned long port\<close>\<close>
  old_in_addr :: u32      \<comment> \<open>\<open>struct in_addr bin_addr\<close>\<close>
  old_in6_addr :: "u8 list"  \<comment> \<open>\<open>struct in6_addr bin_addr\<close>, sixteen bytes\<close>

subsection \<open>\<open>sscanf(pair, "%x:%x", ...)\<close>\<close>

text \<open>What follows a hexadecimal number.\<close>

definition after_hex :: "string \<Rightarrow> string" where
  "after_hex s =
     (let (_, s') = scan_sign (dropWhile c_space s)
      in case s' of
           a # x # cs \<Rightarrow>
             if a = CHR ''0'' \<and> (x = CHR ''x'' \<or> x = CHR ''X'') then dropWhile (is_digit_of 16) cs
             else dropWhile (is_digit_of 16) s'
         | _ \<Rightarrow> dropWhile (is_digit_of 16) s')"

definition scan_x_x :: "string \<Rightarrow> u32 option \<times> u32 option" where
  "scan_x_x s =
     (case scan_x s of
        None \<Rightarrow> (None, None)
      | Some v \<Rightarrow>
          (case after_hex s of
             c # r \<Rightarrow> if c = CHR '':'' then (Some v, scan_x r) else (Some v, None)
           | [] \<Rightarrow> (Some v, None)))"

text \<open>\<open>%x\<close> stores four bytes: the low half of \<open>unsigned long port\<close>.\<close>

definition store_low :: "u64 \<Rightarrow> u32 option \<Rightarrow> u64" where
  "store_low old v = (case v of None \<Rightarrow> old | Some w \<Rightarrow> (old AND NOT 0xFFFFFFFF) OR ucast w)"

definition store_first4 :: "u8 list \<Rightarrow> u32 option \<Rightarrow> u8 list" where
  "store_first4 old v =
     (case v of
        None \<Rightarrow> old
      | Some w \<Rightarrow> [ucast w, ucast (drop_bit 8 w), ucast (drop_bit 16 w), ucast (drop_bit 24 w)] @ drop 4 old)"

text \<open>\<open>inet_ntop(AF_INET, ...)\<close>: the four bytes in memory order (the machine is little endian).\<close>

definition ntop4 :: "u32 \<Rightarrow> string" where
  "ntop4 w =
     show_llu (ucast w :: u8) @ ''.'' @ show_llu (ucast (drop_bit 8 w) :: u8) @ ''.'' @
     show_llu (ucast (drop_bit 16 w) :: u8) @ ''.'' @ show_llu (ucast (drop_bit 24 w) :: u8)"

text \<open>\<open>port_str\<close>: the test reads the 64 bits, the output the low 32; \<open>char port_str[8]\<close>.\<close>

definition port_text :: "u64 \<Rightarrow> string res" where
  "port_text port =
     (if port = 0 then store_s 8 ''*'' else store_s 8 (show_d (sint (ucast port :: u32))))"

definition parse_addr_port_pair ::
  "(u8 list \<Rightarrow> string) \<Rightarrow> stack \<Rightarrow> string \<Rightarrow> bool \<Rightarrow> (string \<times> string) res" where
  "parse_addr_port_pair ntop6 st pair is_ipv6 =
     (if is_ipv6 then
        let (a, p) = scan_x_x pair;
            bin_addr = store_first4 (old_in6_addr st) a;
            port = store_low (old_port st) p
        in thenR (store_s 64 (ntop6 bin_addr)) (\<lambda>addr.
           thenR (port_text port) (\<lambda>port_str. Inr (addr, port_str)))
      else
        let (a, p) = scan_x_x pair;
            bin_addr = (case a of None \<Rightarrow> old_in_addr st | Some w \<Rightarrow> w);
            port = store_low (old_port st) p
        in thenR (store_s 64 (ntop4 bin_addr)) (\<lambda>addr.
           thenR (port_text port) (\<lambda>port_str. Inr (addr, port_str))))"

subsection \<open>\<open>parse_line\<close>\<close>

text \<open>\<open>st n\<close> is what the stack holds when token \<open>n\<close> is parsed.\<close>

definition parse_token ::
  "(u8 list \<Rightarrow> string) \<Rightarrow> (nat \<Rightarrow> stack) \<Rightarrow> bool \<Rightarrow> nat \<Rightarrow> string \<Rightarrow> connection_entry \<Rightarrow> connection_entry res" where
  "parse_token ntop6 st is_ipv6 count tok e =
     thenR (if count = 1 then
        thenR (parse_addr_port_pair ntop6 (st count) tok is_ipv6) (\<lambda>(a, p). Inr (e\<lparr>local_addr := a, local_port := p\<rparr>))
      else Inr e) (\<lambda>e.
     thenR (if count = 2 then
        thenR (parse_addr_port_pair ntop6 (st count) tok is_ipv6) (\<lambda>(a, p). Inr (e\<lparr>remote_addr := a, remote_port := p\<rparr>))
      else Inr e) (\<lambda>e.
     Inr (if count = 9 then (case scan_d tok of None \<Rightarrow> e | Some i \<Rightarrow> e\<lparr>inode := i\<rparr>) else e)))"

text \<open>The tokens that \<open>strtok\<close> returns; one that starts with a newline is not counted.\<close>

fun parse_tokens ::
  "(u8 list \<Rightarrow> string) \<Rightarrow> (nat \<Rightarrow> stack) \<Rightarrow> bool \<Rightarrow> nat \<Rightarrow> string list \<Rightarrow> connection_entry \<Rightarrow> connection_entry res" where
  "parse_tokens ntop6 st is_ipv6 count [] e = Inr e"
| "parse_tokens ntop6 st is_ipv6 count (tok # toks) e =
     (if take 1 tok = newline then parse_tokens ntop6 st is_ipv6 count toks e
      else thenR (parse_token ntop6 st is_ipv6 count tok e)
             (parse_tokens ntop6 st is_ipv6 (Suc count) toks))"

definition parse_line ::
  "(u8 list \<Rightarrow> string) \<Rightarrow> (nat \<Rightarrow> stack) \<Rightarrow> string \<Rightarrow> connection_entry \<Rightarrow> bool \<Rightarrow> connection_entry res" where
  "parse_line ntop6 st line e is_ipv6 =
     parse_tokens ntop6 st is_ipv6 0 (strtok_all (\<lambda>c. c = CHR '' '') line) e"

subsection \<open>\<open>print_entry\<close>\<close>

text \<open>The \<open>basename\<close> of \<^verbatim>\<open>string.h\<close>: what follows the last slash.\<close>

definition gnu_basename :: "string \<Rightarrow> string" where
  "gnu_basename p = rev (takeWhile (\<lambda>c. c \<noteq> CHR ''/'') (rev p))"

text \<open>
  \<open>getline\<close> on the command line of a process: \<open>None\<close> where the file cannot be opened; at the
  end of an empty file it leaves its new buffer unassigned.  The bytes end at the first newline; the terminating zero is behind them, and a C string
  ends at the first zero.
\<close>

definition first_line :: "string \<Rightarrow> string" where
  "first_line s = takeWhile (\<lambda>c. c \<noteq> CHR 0x0A) s @ take 1 (dropWhile (\<lambda>c. c \<noteq> CHR 0x0A) s)"

type_synonym cmdlines = "int \<Rightarrow> string option"

definition read_cmdline :: "cmdlines \<Rightarrow> int \<Rightarrow> string res" where
  "read_cmdline cl p = thenR (need Null_Deref (cl p)) (\<lambda>s. if s = [] then Inl Uninit_Read else Inr (first_line s @ [NUL]))"

definition print_entry :: "cmdlines \<Rightarrow> connection_entry \<Rightarrow> string res" where
  "print_entry cl e =
     thenR (store_s 32 (local_addr e @ '':'' @ local_port e)) (\<lambda>local_end.
     thenR (store_s 32 (remote_addr e @ '':'' @ remote_port e)) (\<lambda>remote_end.
     thenR (read_cmdline cl (pid e)) (\<lambda>buf.
     thenR (case scan_s (c_string buf) of None \<Rightarrow> Inl Uninit_Read | Some (t, _) \<Rightarrow> store_s 32 t) (\<lambda>program_path.
     let from = length program_path + 1 in
     if length buf \<le> from then Inl Uninit_Read
     else Inr (pad_right 7 (ip_proto e) @ pad_right 25 local_end @ pad_right 25 remote_end @
       show_d (pid e) @ ''/'' @ gnu_basename program_path @ '' '' @ c_string (drop from buf) @ newline)))))"

subsection \<open>Facts\<close>

definition hex_digits :: "string \<Rightarrow> nat \<Rightarrow> bool" where
  "hex_digits s n \<longleftrightarrow> s \<noteq> [] \<and> list_all (is_digit_of 16) s \<and> digits_value 16 s = n"

lemma hex_digits_prefix:
  assumes "hex_digits s n"
  shows "scan_sign (dropWhile c_space (s @ t)) = (False, s @ t)"
proof -
  obtain c cs where c: "s = c # cs" "is_digit_of 16 c"
    using assms by (cases s) (auto simp: hex_digits_def)
  from digit_not_special [OF c(2)] show ?thesis by (simp add: c(1) scan_sign_def)
qed

lemma hex_digits_while:
  assumes "hex_digits s n" "t = [] \<or> \<not> is_digit_of 16 (hd t)"
  shows "takeWhile (is_digit_of 16) (s @ t) = s" "dropWhile (is_digit_of 16) (s @ t) = t"
  using assms by (auto simp: hex_digits_def list_all_iff takeWhile_append dropWhile_append takeWhile_eq_Nil_iff
      dropWhile_eq_self_iff)

text \<open>A number that is followed by something other than a digit or an \<open>x\<close>.\<close>

definition stops_hex :: "string \<Rightarrow> bool" where
  "stops_hex t \<longleftrightarrow> t = [] \<or> \<not> is_digit_of 16 (hd t) \<and> hd t \<noteq> CHR ''x'' \<and> hd t \<noteq> CHR ''X''"

lemma hex_second:
  assumes "hex_digits s n" "stops_hex t" "s @ t = a # x # cs"
  shows "x \<noteq> CHR ''x'' \<and> x \<noteq> CHR ''X''"
proof (cases s)
  case (Cons b u)
  then show ?thesis
  proof (cases u)
    case Nil
    with Cons assms(2,3) show ?thesis by (auto simp: stops_hex_def)
  next
    case (Cons y v)
    with \<open>s = b # u\<close> assms(1,3) have "is_digit_of 16 x" by (auto simp: hex_digits_def)
    from digit_not_special [OF this] show ?thesis by simp
  qed
qed (use assms(1) in \<open>simp add: hex_digits_def\<close>)

lemma scan_hex:
  assumes "hex_digits s n" "stops_hex t"
  shows "scan_llx (s @ t) = Some (to_ull False n) \<and> after_hex (s @ t) = t"
proof -
  have t: "t = [] \<or> \<not> is_digit_of 16 (hd t)" using assms(2) by (auto simp: stops_hex_def)
  note w = hex_digits_while [OF assms(1) t]
  have s: "s \<noteq> []" "digits_value 16 s = n" using assms(1) by (simp_all add: hex_digits_def)
  note pre = hex_digits_prefix [OF assms(1), of t]
  have "scan_hex_digits (s @ t) = Some n \<and> after_hex (s @ t) = t"
  proof (cases "s @ t" rule: remdups_adj.cases)
    case 1
    then show ?thesis using s by simp
  next
    case (2 c)
    then show ?thesis using pre w s by (simp add: scan_hex_digits_def after_hex_def)
  next
    case (3 a x cs)
    note hex_second [OF assms 3]
    then show ?thesis using pre w s by (simp add: 3 scan_hex_digits_def after_hex_def Let_def)
  qed
  then show ?thesis using pre by (simp add: scan_llx_def)
qed

lemma stops_hex_simps: "stops_hex []" "stops_hex (CHR '':'' # t)"
  by (simp_all add: stops_hex_def is_digit_of_def digit_val_def)

lemma scan_pair:
  assumes "hex_digits a n" "hex_digits p v"
  shows "scan_x_x (a @ CHR '':'' # p) = (Some (ucast (to_ull False n)), Some (ucast (to_ull False v)))"
  using scan_hex [OF assms(1) stops_hex_simps(2), of p] scan_hex [OF assms(2) stops_hex_simps(1)]
  by (simp add: scan_x_x_def scan_x_def)

lemma ucast_to_ull: "n < 2 ^ 32 \<Longrightarrow> (ucast (to_ull False n) :: u32) = of_nat n"
  by (simp add: to_ull_def unsigned_of_nat take_bit_nat_eq_self)

lemma low_part: "(ucast ((old AND NOT 0xFFFFFFFF) OR ucast (w :: u32) :: u64) :: u32) = w"
proof (rule bit_word_eqI)
  fix n assume "n < LENGTH(32)"
  moreover from this have "bit (0xFFFFFFFF :: u64) n"
    using bit_mask_iff [of 32 n, where ?'a = u64] by (simp add: mask_numeral)
  ultimately show "bit (ucast ((old AND NOT 0xFFFFFFFF) OR ucast w :: u64) :: u32) n = bit w n"
    by (simp add: bit_simps)
qed

lemma word_or_zero: "a OR b = 0 \<longleftrightarrow> a = 0 \<and> b = 0" for a b :: "'a::len word"
  by (rule or_eq_0_iff)

lemma port_small:
  assumes "v < 65536"
  shows "port_text (store_low old (Some (of_nat v))) =
    Inr (if v = 0 \<and> old AND NOT 0xFFFFFFFF = 0 then ''*'' else show_d (int v))"
proof -
  let ?p = "store_low old (Some (of_nat v))"
  have "sint (of_nat v :: u32) = int v"
    using assms by (simp add: sint_uint uint_nat unat_of_nat take_bit_nat_eq_self signed_take_bit_int_eq_self)
  then have low: "sint (ucast ?p :: u32) = int v" by (simp only: store_low_def option.case low_part)
  have "(ucast (of_nat v :: u32) :: u64) = of_nat v"
    using assms by (simp add: unsigned_of_nat take_bit_nat_eq_self)
  moreover have "(of_nat v :: u64) = 0 \<longleftrightarrow> v = 0"
    using assms by (simp add: word_of_nat_eq_0_iff nat_dvd_not_less) (auto dest: dvd_imp_le)
  ultimately have zero: "?p = 0 \<longleftrightarrow> v = 0 \<and> old AND NOT 0xFFFFFFFF = 0"
    by (auto simp: store_low_def word_or_zero)
  have "length (show_base 10 v) \<le> 5" using assms by (intro length_show_base_le) simp_all
  then have "store_s 8 (show_d (int v)) = Inr (show_d (int v))" by (simp add: store_s_def show_d_def)
  with low zero show ?thesis unfolding port_text_def by (simp add: store_s_def)
qed

lemma length_show_u8: "length (show_llu (b :: u8)) \<le> 3"
  unfolding show_llu_def using unat_u8_less [of b] by (intro length_show_base_le) simp_all

lemma store_ntop4: "store_s 64 (ntop4 w) = Inr (ntop4 w)"
  using length_show_u8 [of "ucast w"] length_show_u8 [of "ucast (drop_bit 8 w)"]
    length_show_u8 [of "ucast (drop_bit 16 w)"] length_show_u8 [of "ucast (drop_bit 24 w)"]
  by (simp add: ntop4_def store_s_def)

text \<open>The text of a port: \<open>*\<close> for zero, but only where the unassigned upper half was zero too.\<close>

definition port_shown :: "u64 \<Rightarrow> nat \<Rightarrow> string" where
  "port_shown old v = (if v = 0 \<and> old AND NOT 0xFFFFFFFF = 0 then ''*'' else show_d (int v))"

text \<open>A pair of an address and a port in hexadecimal.\<close>

definition pair_token :: "string \<Rightarrow> nat \<Rightarrow> nat \<Rightarrow> bool" where
  "pair_token tok n v \<longleftrightarrow>
     (\<exists>a p. tok = a @ CHR '':'' # p \<and> hex_digits a n \<and> hex_digits p v) \<and> v < 65536"

lemma parse_pair_v4:
  assumes "pair_token tok n v" "n < 2 ^ 32"
  shows "parse_addr_port_pair ntop6 st tok False = Inr (ntop4 (of_nat n), port_shown (old_port st) v)"
proof -
  from assms(1) obtain a p where t: "tok = a @ CHR '':'' # p" "hex_digits a n" "hex_digits p v" "v < 65536"
    by (auto simp: pair_token_def)
  then have "v < 2 ^ 32" by simp
  with t assms(2) scan_pair [OF t(2,3)] show ?thesis
    by (simp add: parse_addr_port_pair_def ucast_to_ull store_ntop4 port_small port_shown_def)
qed

lemma parse_tokens_rest: "10 \<le> k \<Longrightarrow> parse_tokens ntop6 st v6 k toks e = Inr e"
  by (induction toks arbitrary: k) (simp_all add: parse_token_def)

lemma store_first4_ones: "store_first4 old (Some (- 1)) = [255, 255, 255, 255] @ drop 4 old"
proof -
  have "(ucast (drop_bit k (- 1 :: u32)) :: u8) = - 1" if "k \<le> 24" for k
    using that by (intro bit_word_eqI) (simp add: bit_simps)
  from this [of 0] this [of 8] this [of 16] this [of 24] show ?thesis
    by (simp add: store_first4_def del: drop_bit_minus_one)
qed

lemma parse_line_eq:
  assumes "strtok_all (\<lambda>c. c = CHR '' '') line = [t0, t1, t2, t3, t4, t5, t6, t7, t8, t9] @ more_toks"
    and "list_all (\<lambda>t. take 1 t \<noteq> newline) [t0, t1, t2, t3, t4, t5, t6, t7, t8, t9]"
    and "pair_token t1 n1 v1" "n1 < 2 ^ 32" "pair_token t2 n2 v2" "n2 < 2 ^ 32" "scan_d t9 = Some i"
  shows "parse_line ntop6 st line e False =
    Inr (e\<lparr>local_addr := ntop4 (of_nat n1), local_port := port_shown (old_port (st 1)) v1,
           remote_addr := ntop4 (of_nat n2), remote_port := port_shown (old_port (st 2)) v2, inode := i\<rparr>)"
proof -
  note t = parse_pair_v4 [OF assms(3,4), of ntop6 "st 1", unfolded One_nat_def] parse_pair_v4 [OF assms(5,6), of ntop6 "st 2", unfolded numeral_2_eq_2] assms(7)
  have "take 1 t \<noteq> newline" if "t \<in> {t0, t1, t2, t3, t4, t5, t6, t7, t8, t9}" for t
    using assms(2) that by auto
  then show ?thesis
    unfolding parse_line_def assms(1) append_Cons append_Nil
    by (simp only: parse_tokens.simps if_False insert_iff simp_thms)
      (simp add: parse_token_def t parse_tokens_rest numeral_2_eq_2)
qed

text \<open>
  C26: one line of the kernel's table.  For IPv4, the entry gets the dotted form of the
  local and the remote address, the two ports and the inode of the socket, and keeps what
  it had for the protocol and the process id.
\<close>

theorem parse_line_fields:
  assumes "strtok_all (\<lambda>c. c = CHR '' '') line = [t0, t1, t2, t3, t4, t5, t6, t7, t8, t9] @ more_toks"
    and "list_all (\<lambda>t. take 1 t \<noteq> newline) [t0, t1, t2, t3, t4, t5, t6, t7, t8, t9]"
    and "pair_token t1 n1 v1" "n1 < 2 ^ 32" "pair_token t2 n2 v2" "n2 < 2 ^ 32" "scan_d t9 = Some i"
  shows "parse_line ntop6 st line e False =
    Inr (e\<lparr>local_addr := ntop4 (of_nat n1), local_port := port_shown (old_port (st 1)) v1,
           remote_addr := ntop4 (of_nat n2), remote_port := port_shown (old_port (st 2)) v2, inode := i\<rparr>)"
  using assms by (rule parse_line_eq)

text \<open>
  IPv6.  \<open>%x\<close> reads a number, not sixteen bytes: any two addresses whose hexadecimal
  form is at least \<open>2 ^ 64\<close> are shown as the same text, made of four bytes \<open>255\<close> and twelve
  bytes that were on the stack before.
\<close>

theorem ipv6_addresses_collapse:
  assumes "pair_token t1 n1 v" "2 ^ 64 \<le> n1" "pair_token t2 n2 v" "2 ^ 64 \<le> n2"
  shows "parse_addr_port_pair ntop6 st t1 True = parse_addr_port_pair ntop6 st t2 True \<and>
    map_sum id fst (parse_addr_port_pair ntop6 st t1 True) =
      store_s 64 (ntop6 ([255, 255, 255, 255] @ drop 4 (old_in6_addr st)))"
proof -
  have shown: "parse_addr_port_pair ntop6 st tok True =
      thenR (store_s 64 (ntop6 ([255, 255, 255, 255] @ drop 4 (old_in6_addr st))))
        (\<lambda>addr. Inr (addr, port_shown (old_port st) v))"
    if tok: "pair_token tok n v" and big: "2 ^ 64 \<le> n" for tok n
  proof -
    from tok obtain a p where t: "tok = a @ CHR '':'' # p" "hex_digits a n" "hex_digits p v" "v < 65536"
      by (auto simp: pair_token_def)
    then have "v < 2 ^ 32" by simp
    moreover have "(ucast (to_ull False n) :: u32) = - 1"
      using big by (simp add: to_ull_def) (rule bit_word_eqI, simp add: bit_simps)
    ultimately show ?thesis
      using t scan_pair [OF t(2,3)]
      by (simp add: parse_addr_port_pair_def ucast_to_ull store_first4_ones port_small port_shown_def)
  qed
  show ?thesis using shown [OF assms(1,2)] shown [OF assms(3,4)] by (simp add: store_s_def)
qed

end
