(* ===== verification/Net_Main.thy ===== *)
theory Net_Main
  imports Net_Entries
begin

text \<open>
  The main program of the connection lister (\<^verbatim>\<open>hw1/main.cpp\<close>): the four protocol files,
  the search of \<^verbatim>\<open>/proc\<close> for the owners of the sockets, the choice of what is listed, and
  the output.  The file system is a parameter: the lines of a file, the names in a
  directory, where a link points; \<open>None\<close> is a file or directory that cannot be opened, which
  the code does not check.
\<close>

record net_env =
  file_lines :: "string \<Rightarrow> string list option"
  dir_names :: "string \<Rightarrow> string list option"
  link_text :: "string \<Rightarrow> string option"
  cmdline_of :: cmdlines
  ntop6_of :: "u8 list \<Rightarrow> string"

text \<open>
  What uninitialised objects hold: the stack of \<open>parse_addr_port_pair\<close> and the entry for a
  line of a protocol file; the buffer that \<open>malloc\<close> returns and \<open>int inode\<close> for a link.
\<close>

record junk =
  j_stack :: "string \<Rightarrow> nat \<Rightarrow> nat \<Rightarrow> stack"
  j_entry :: "string \<Rightarrow> nat \<Rightarrow> connection_entry"
  j_buffer :: "string \<Rightarrow> string"
  j_inode :: "string \<Rightarrow> int"

fun foldR :: "('a \<Rightarrow> 's \<Rightarrow> 's res) \<Rightarrow> 'a list \<Rightarrow> 's \<Rightarrow> 's res" where
  "foldR f [] s = Inr s"
| "foldR f (x # xs) s = thenR (f x s) (foldR f xs)"

subsection \<open>\<open>parse_protocol\<close>\<close>

definition parse_one ::
  "net_env \<Rightarrow> junk \<Rightarrow> string \<Rightarrow> bool \<Rightarrow> nat \<times> string \<Rightarrow> connection_entry list \<Rightarrow> connection_entry list res" where
  "parse_one env J protocol is_ipv6 nl conns =
     (let (line_num, line) = nl; e = j_entry J protocol line_num in
      if line_num \<noteq> 1 then
        thenR (store_s 16 protocol) (\<lambda>proto.
        thenR (parse_line (ntop6_of env) (j_stack J protocol line_num) line (e\<lparr>ip_proto := proto\<rparr>) is_ipv6)
          (\<lambda>e. Inr (conns @ [e])))
      else Inr conns)"

definition parse_protocol ::
  "net_env \<Rightarrow> junk \<Rightarrow> string \<Rightarrow> connection_entry list \<Rightarrow> connection_entry list res" where
  "parse_protocol env J protocol conns =
     thenR (store_s 32 (''/proc/net/'' @ protocol)) (\<lambda>name.
     thenR (need Null_Deref (file_lines env name)) (\<lambda>lines.
     let is_ipv6 = (protocol = ''tcp6'' \<or> protocol = ''udp6'')
     in foldR (parse_one env J protocol is_ipv6) (zip [1..<Suc (length lines)] lines) conns))"

subsection \<open>The owners of the sockets\<close>

fun set_first_pid :: "int \<Rightarrow> int \<Rightarrow> connection_entry list \<Rightarrow> connection_entry list" where
  "set_first_pid i p [] = []"
| "set_first_pid i p (c # cs) = (if inode c = i then c\<lparr>pid := p\<rparr> # cs else c # set_first_pid i p cs)"

definition is_digit :: "char \<Rightarrow> bool" where
  "is_digit c = is_digit_of 10 c"

definition fd_dir :: "string \<Rightarrow> string" where
  "fd_dir name = ''/proc/'' @ name @ ''/fd''"

text \<open>The body of the loop over a descriptor directory; \<open>PATH_MAX\<close> is 4096.\<close>

definition visit_fd ::
  "net_env \<Rightarrow> junk \<Rightarrow> string \<Rightarrow> string \<Rightarrow> string \<Rightarrow> connection_entry list \<Rightarrow> connection_entry list res" where
  "visit_fd env J name dirpath fd conns =
     (if take 1 fd = ''.'' then Inr conns
      else thenR (store_s 4096 (dirpath @ ''/'' @ fd)) (\<lambda>path.
        let buffer = (case link_text env path of Some t \<Rightarrow> t | None \<Rightarrow> []) @ j_buffer J path in
        if take 6 buffer = ''socket'' then
          let i = (if take 8 buffer = ''socket:['' then
                     (case scan_d (drop 8 buffer) of Some i \<Rightarrow> i | None \<Rightarrow> j_inode J path)
                   else j_inode J path)
          in Inr (case scan_d name of Some p \<Rightarrow> set_first_pid i p conns | None \<Rightarrow> conns)
        else Inr conns))"

definition visit_proc ::
  "net_env \<Rightarrow> junk \<Rightarrow> string \<Rightarrow> connection_entry list \<Rightarrow> connection_entry list res" where
  "visit_proc env J name conns =
     (case name of
        [] \<Rightarrow> Inr conns
      | c # _ \<Rightarrow>
          if is_digit c then
            thenR (store_s 32 (fd_dir name)) (\<lambda>dirpath.
            thenR (need Null_Deref (dir_names env dirpath)) (\<lambda>fds.
            foldR (visit_fd env J name dirpath) fds conns))
          else Inr conns)"

definition find_owners ::
  "net_env \<Rightarrow> junk \<Rightarrow> connection_entry list \<Rightarrow> connection_entry list res" where
  "find_owners env J conns =
     thenR (need Null_Deref (dir_names env ''/proc'')) (\<lambda>names. foldR (visit_proc env J) names conns)"

subsection \<open>Options, selection, output\<close>

text \<open>The results of \<open>getopt_long\<close>, until it returns \<open>-1\<close>.\<close>

datatype option_result = Long_Option nat | Short_Option char

text \<open>\<open>None\<close>: \<open>main\<close> returns.\<close>

fun read_options :: "option_result list \<Rightarrow> bool \<times> bool \<Rightarrow> (bool \<times> bool) option" where
  "read_options [] (t, u) = Some (t, u)"
| "read_options (Long_Option k # os) (t, u) = read_options os (t \<or> k = 0, u \<or> k = 1)"
| "read_options (Short_Option c # os) (t, u) =
     (if c = CHR ''t'' then read_options os (True, u)
      else if c = CHR ''u'' then read_options os (t, True)
      else None)"

text \<open>\<open>strstr(s, f) != NULL\<close>\<close>

fun strstr :: "string \<Rightarrow> string \<Rightarrow> bool" where
  "strstr [] f = (f = [])"
| "strstr (c # cs) f = (take (length f) (c # cs) = f \<or> strstr cs f)"

definition select_one ::
  "cmdlines \<Rightarrow> string \<Rightarrow> string \<Rightarrow> connection_entry \<Rightarrow> connection_entry list \<Rightarrow> connection_entry list res" where
  "select_one cl filter_str proto e acc =
     (if take 3 (ip_proto e) = proto then
        thenR (read_cmdline cl (pid e)) (\<lambda>buf.
        Inr (if strstr (c_string buf) filter_str then acc @ [e] else acc))
      else Inr acc)"

definition select_entries ::
  "cmdlines \<Rightarrow> string \<Rightarrow> string \<Rightarrow> connection_entry list \<Rightarrow> connection_entry list res" where
  "select_entries cl filter_str proto conns = foldR (select_one cl filter_str proto) conns []"

definition table_head :: string where
  "table_head = pad_right 7 ''Proto'' @ pad_right 25 ''Local Address'' @ pad_right 25 ''Foreign Address'' @
     ''PID/Program name and arguments'' @ newline"

definition print_section :: "cmdlines \<Rightarrow> string \<Rightarrow> connection_entry list \<Rightarrow> string res" where
  "print_section cl title es =
     (if es = [] then Inr []
      else foldR (\<lambda>e out. thenR (print_entry cl e) (\<lambda>l. Inr (out @ l))) es
             (''List of '' @ title @ '' connections:'' @ newline @ table_head))"

definition net_main ::
  "net_env \<Rightarrow> junk \<Rightarrow> option_result list \<Rightarrow> string option \<Rightarrow> string res" where
  "net_main env J opts arg =
     (case read_options opts (False, False) of
        None \<Rightarrow> Inr []
      | Some (tcp_option, udp_option) \<Rightarrow>
          thenR (store_s 64 (case arg of None \<Rightarrow> [] | Some a \<Rightarrow> a)) (\<lambda>filter_str.
          thenR (parse_protocol env J ''tcp'' []) (\<lambda>conns.
          thenR (parse_protocol env J ''tcp6'' conns) (\<lambda>conns.
          thenR (parse_protocol env J ''udp'' conns) (\<lambda>conns.
          thenR (parse_protocol env J ''udp6'' conns) (\<lambda>conns.
          thenR (find_owners env J conns) (\<lambda>conns.
          thenR (if \<not> (\<not> tcp_option \<and> udp_option)
                 then select_entries (cmdline_of env) filter_str ''tcp'' conns else Inr []) (\<lambda>tcp_entries.
          thenR (if \<not> (tcp_option \<and> \<not> udp_option)
                 then select_entries (cmdline_of env) filter_str ''udp'' conns else Inr []) (\<lambda>udp_entries.
          thenR (print_section (cmdline_of env) ''TCP'' tcp_entries) (\<lambda>out1.
          thenR (print_section (cmdline_of env) ''UDP'' udp_entries) (\<lambda>out2.
          Inr (out1 @ (if tcp_entries \<noteq> [] \<and> udp_entries \<noteq> [] then newline else []) @ out2))))))))))))"

subsection \<open>What the search finds\<close>

text \<open>
  A picture of \<^verbatim>\<open>/proc\<close>: entries that are no process, and processes with their open
  descriptors, of which some are sockets with an inode number.
\<close>

datatype proc_item = Other_Entry string | Process nat "(string \<times> nat option) list"

fun item_name :: "proc_item \<Rightarrow> string" where
  "item_name (Other_Entry s) = s"
| "item_name (Process n fds) = show_d (int n)"

definition socket_link :: "nat \<Rightarrow> string" where
  "socket_link i = ''socket:['' @ show_d (int i) @ '']''"

text \<open>A name that starts with a dot is skipped; another link does not start with an \<open>s\<close>.\<close>

fun fd_shown :: "net_env \<Rightarrow> nat \<Rightarrow> string \<times> nat option \<Rightarrow> bool" where
  "fd_shown env n (fd, None) =
     (take 1 fd = ''.'' \<or>
      length fd < 4000 \<and> (case link_text env (fd_dir (show_d (int n)) @ ''/'' @ fd) of
                          Some t \<Rightarrow> t \<noteq> [] \<and> hd t \<noteq> CHR ''s'' | None \<Rightarrow> False))"
| "fd_shown env n (fd, Some i) =
     (take 1 fd \<noteq> ''.'' \<and> length fd < 4000 \<and> i < 2 ^ 31 \<and>
      link_text env (fd_dir (show_d (int n)) @ ''/'' @ fd) = Some (socket_link i))"

fun item_shown :: "net_env \<Rightarrow> proc_item \<Rightarrow> bool" where
  "item_shown env (Other_Entry s) = (s = [] \<or> \<not> is_digit (hd s))"
| "item_shown env (Process n fds) =
     (n < 2 ^ 31 \<and> dir_names env (fd_dir (show_d (int n))) = Some (map fst fds) \<and>
      list_all (fd_shown env n) fds)"

fun owners :: "proc_item \<Rightarrow> (int \<times> int) list" where
  "owners (Other_Entry s) = []"
| "owners (Process n fds) = List.map_filter (\<lambda>(fd, s). map_option (\<lambda>i. (int i, int n)) s) fds"

definition assign_pids :: "(int \<times> int) list \<Rightarrow> connection_entry list \<Rightarrow> connection_entry list" where
  "assign_pids os conns = fold (\<lambda>(i, p). set_first_pid i p) os conns"

lemma assign_pids_append: "assign_pids (a @ b) conns = assign_pids b (assign_pids a conns)"
  by (simp add: assign_pids_def)

lemma foldR_map: "foldR f (map g xs) s = foldR (\<lambda>x. f (g x)) xs s"
proof (induction xs arbitrary: s)
  case (Cons x xs)
  then show ?case by (cases "f (g x) s") simp_all
qed simp

lemma foldR_assign:
  assumes "\<And>x s. x \<in> set xs \<Longrightarrow> f x s = Inr (assign_pids (g x) s)"
  shows "foldR f xs s = Inr (assign_pids (concat (map g xs)) s)"
  using assms by (induction xs arbitrary: s) (simp_all add: assign_pids_append, simp add: assign_pids_def)

lemma length_show_d: "n < 2 ^ 31 \<Longrightarrow> length (show_d (int n)) \<le> 10"
  unfolding show_d_def by (simp, intro length_show_base_le) simp_all

lemma visit_fd_shown:
  assumes "fd_shown env n x" "n < 2 ^ 31"
  shows "visit_fd env J (show_d (int n)) (fd_dir (show_d (int n))) (fst x) conns =
    Inr (assign_pids (case snd x of None \<Rightarrow> [] | Some i \<Rightarrow> [(int i, int n)]) conns)"
proof -
  obtain fd so where x: "x = (fd, so)" by (cases x)
  have len: "length (fd_dir (show_d (int n)) @ ''/'' @ fd) < 4096" if "length fd < 4000"
    using that length_show_d [OF assms(2)] by (simp add: fd_dir_def)
  show ?thesis
  proof (cases so)
    case None
    show ?thesis
    proof (cases "take 1 fd = ''.''")
      case False
      with assms(1) None x obtain c t where
        "link_text env (fd_dir (show_d (int n)) @ ''/'' @ fd) = Some (c # t)" "c \<noteq> CHR ''s''" "length fd < 4000"
        by (auto split: option.splits simp: neq_Nil_conv)
      then show ?thesis using False None x len
        by (simp add: visit_fd_def store_s_def assign_pids_def)
    qed (simp add: visit_fd_def x None assign_pids_def)
  next
    case (Some i)
    have "scan_d (show_d (int i) @ CHR '']'' # u) = Some (int i)" if "i < 2 ^ 31" for u
      by (rule scan_d_show_d) (use that in \<open>simp_all add: is_digit_of_def digit_val_def\<close>)
    moreover have "scan_d (show_d (int n)) = Some (int n)" using scan_d_show_d [OF assms(2), of "[]"] by simp
    ultimately show ?thesis using assms(1) x Some len
      by (simp add: visit_fd_def store_s_def assign_pids_def socket_link_def)
  qed
qed

lemma visit_proc_shown:
  assumes "item_shown env x"
  shows "visit_proc env J (item_name x) conns = Inr (assign_pids (owners x) conns)"
proof (cases x)
  case (Other_Entry s)
  with assms show ?thesis by (cases s) (simp_all add: visit_proc_def assign_pids_def)
next
  case (Process n fds)
  with assms have n: "n < 2 ^ 31" "dir_names env (fd_dir (show_d (int n))) = Some (map fst fds)"
    "list_all (fd_shown env n) fds" by simp_all
  obtain c u where c: "show_d (int n) = c # u" "is_digit c"
  proof -
    obtain c u where "show_base 10 n = c # u" by (meson neq_Nil_conv show_base_nonempty)
    then show ?thesis using that [of c u] show_base_digits [of 10 c n] by (simp add: show_d_def is_digit_def)
  qed
  have fit: "length (fd_dir (show_d (int n))) < 32" using length_show_d [OF n(1)] by (simp add: fd_dir_def)
  have "foldR (visit_fd env J (show_d (int n)) (fd_dir (show_d (int n)))) (map fst fds) conns =
      foldR (\<lambda>x. visit_fd env J (show_d (int n)) (fd_dir (show_d (int n))) (fst x)) fds conns"
    by (rule foldR_map)
  also have "\<dots> = Inr (assign_pids (concat (map (\<lambda>x. case snd x of None \<Rightarrow> [] | Some i \<Rightarrow> [(int i, int n)]) fds)) conns)"
    by (rule foldR_assign) (use n visit_fd_shown in \<open>auto simp: list_all_iff\<close>)
  also have "concat (map (\<lambda>x. case snd x of None \<Rightarrow> [] | Some i \<Rightarrow> [(int i, int n)]) fds) = owners x"
    unfolding Process by (induction fds) (auto simp: List.map_filter_simps split: option.splits)
  finally show ?thesis
    using n(2) fit c by (simp add: Process visit_proc_def store_s_def)
qed

lemma set_first_pid_nth:
  "length (set_first_pid i p cs) = length cs \<and> map inode (set_first_pid i p cs) = map inode cs \<and>
   (\<forall>k<length cs. set_first_pid i p cs ! k =
      (if inode (cs ! k) = i \<and> i \<notin> set (map inode (take k cs)) then (cs ! k)\<lparr>pid := p\<rparr> else cs ! k))"
  by (induction cs) (auto simp: nth_Cons split: nat.splits)

text \<open>The entry at \<open>k\<close> after the search: the last owner visited, if no earlier entry has its inode.\<close>

definition with_owner :: "(int \<times> int) list \<Rightarrow> connection_entry list \<Rightarrow> nat \<Rightarrow> connection_entry" where
  "with_owner os cs k =
     (if inode (cs ! k) \<in> set (map inode (take k cs)) then cs ! k
      else case map_of (rev os) (inode (cs ! k)) of None \<Rightarrow> cs ! k | Some p \<Rightarrow> (cs ! k)\<lparr>pid := p\<rparr>)"

lemma assign_pids_nth:
  "length (assign_pids os cs) = length cs \<and> map inode (assign_pids os cs) = map inode cs \<and>
   (\<forall>k<length cs. assign_pids os cs ! k = with_owner os cs k)"
proof (induction os rule: rev_induct)
  case Nil
  then show ?case by (auto simp: assign_pids_def with_owner_def)
next
  case (snoc o1 os)
  obtain i p where o1: "o1 = (i, p)" by (cases o1)
  let ?d = "assign_pids os cs"
  have step: "assign_pids (os @ [o1]) cs = set_first_pid i p ?d" by (simp add: assign_pids_def o1)
  have inodes: "map inode (take k ?d) = map inode (take k cs)" for k
    using snoc by (metis take_map)
  have ino: "inode (?d ! k) = inode (cs ! k)" if "k < length cs" for k
    using snoc that by (metis nth_map)
  have "assign_pids (os @ [o1]) cs ! k = with_owner (os @ [o1]) cs k" if k: "k < length cs" for k
  proof -
    have "k < length ?d" using k snoc by simp
    then have h: "set_first_pid i p ?d ! k =
        (if inode (cs ! k) = i \<and> i \<notin> set (map inode (take k cs)) then (?d ! k)\<lparr>pid := p\<rparr> else ?d ! k)"
      using set_first_pid_nth [of i p ?d] by (simp only: inodes ino [OF k])
    have d: "?d ! k = with_owner os cs k" using snoc k by blast
    show ?thesis
    proof (cases "inode (cs ! k) \<in> set (map inode (take k cs)) \<or> inode (cs ! k) \<noteq> i")
      case True
      then have "with_owner (os @ [o1]) cs k = with_owner os cs k" by (auto simp: with_owner_def o1)
      with True h d show ?thesis unfolding step by auto
    next
      case False
      then show ?thesis unfolding step h d by (simp add: with_owner_def o1 split: option.splits)
    qed
  qed
  then show ?case using step snoc set_first_pid_nth [of i p ?d] by simp
qed

lemma find_owners_eq:
  assumes "dir_names env ''/proc'' = Some (map item_name table)" "list_all (item_shown env) table"
  shows "find_owners env J conns = Inr (map (with_owner (concat (map owners table)) conns) [0..<length conns])"
proof -
  have "foldR (visit_proc env J) (map item_name table) conns = foldR (\<lambda>x. visit_proc env J (item_name x)) table conns"
    by (rule foldR_map)
  also have "\<dots> = Inr (assign_pids (concat (map owners table)) conns)"
    by (rule foldR_assign) (use assms(2) visit_proc_shown in \<open>auto simp: list_all_iff\<close>)
  also have "assign_pids (concat (map owners table)) conns =
      map (with_owner (concat (map owners table)) conns) [0..<length conns]"
    using assign_pids_nth [of "concat (map owners table)" conns] by (intro nth_equalityI) auto
  finally show ?thesis by (simp add: find_owners_def assms(1))
qed

text \<open>
  C19: the owners of the sockets.  After the search every connection has the process id of
  the last process visited that holds a socket with its inode; a connection whose inode an
  earlier one has too, or that no visited process holds, keeps its unassigned process id.
\<close>

theorem find_owners_assigns:
  assumes "dir_names env ''/proc'' = Some (map item_name table)" "list_all (item_shown env) table"
  shows "find_owners env J conns = Inr (map (with_owner (concat (map owners table)) conns) [0..<length conns])"
  using assms by (rule find_owners_eq)

subsection \<open>What is listed\<close>

lemma strstr_iff: "strstr s f \<longleftrightarrow> (\<exists>a b. s = a @ f @ b)"
proof (induction s)
  case (Cons c cs)
  have "take (length f) (c # cs) = f \<longleftrightarrow> (\<exists>b. c # cs = f @ b)"
    by (metis append_eq_conv_conj append_take_drop_id)
  moreover have "(\<exists>a b. c # cs = a @ f @ b) \<longleftrightarrow> (\<exists>b. c # cs = f @ b) \<or> (\<exists>a b. cs = a @ f @ b)"
    by (metis Cons_eq_append_conv append_Cons append_Nil)
  ultimately show ?case using Cons by simp
qed simp

text \<open>The part of a command line that the filter is compared with.\<close>

definition shown_cmd :: "cmdlines \<Rightarrow> int \<Rightarrow> string" where
  "shown_cmd cl p = (case cl p of None \<Rightarrow> [] | Some s \<Rightarrow> c_string (first_line s))"

definition readable :: "cmdlines \<Rightarrow> int \<Rightarrow> bool" where
  "readable cl p \<longleftrightarrow> cl p \<noteq> None \<and> cl p \<noteq> Some []"

lemma read_cmdline_cases:
  "if readable cl p then \<exists>buf. read_cmdline cl p = Inr buf \<and> c_string buf = shown_cmd cl p
   else \<exists>f. read_cmdline cl p = Inl f"
  by (cases "cl p") (auto simp: readable_def read_cmdline_def shown_cmd_def)

lemma select_foldR:
  "foldR (select_one cl f proto) conns acc = Inr es \<longleftrightarrow>
     list_all (\<lambda>e. take 3 (ip_proto e) = proto \<longrightarrow> readable cl (pid e)) conns \<and>
     es = acc @ filter (\<lambda>e. take 3 (ip_proto e) = proto \<and> strstr (shown_cmd cl (pid e)) f) conns"
proof (induction conns arbitrary: acc)
  case (Cons e conns)
  show ?case
  proof (cases "take 3 (ip_proto e) = proto")
    case proto: True
    show ?thesis
    proof (cases "readable cl (pid e)")
      case True
      with read_cmdline_cases [of cl "pid e"] obtain buf where
        "read_cmdline cl (pid e) = Inr buf" "c_string buf = shown_cmd cl (pid e)" by auto
      with proto True show ?thesis by (simp add: select_one_def [of cl f proto e] Cons.IH)
    next
      case False
      with read_cmdline_cases [of cl "pid e"] obtain flt where "read_cmdline cl (pid e) = Inl flt" by auto
      with proto False show ?thesis by (simp add: select_one_def [of cl f proto e])
    qed
  next
    case False
    with Cons show ?thesis by (simp add: select_one_def [of cl f proto e])
  qed
qed auto

text \<open>
  C39: the connections of a protocol that are listed are, in their order, those whose
  command line (its first argument, up to a newline) contains the filter.  The program gets
  there only when the command line of every connection of the protocol can be read: a
  connection without an owner, whose process id was never assigned, ends it.
\<close>

theorem select_entries_exact:
  "select_entries cl f proto conns = Inr es \<longleftrightarrow>
     list_all (\<lambda>e. take 3 (ip_proto e) = proto \<longrightarrow> readable cl (pid e)) conns \<and>
     es = filter (\<lambda>e. take 3 (ip_proto e) = proto \<and> (\<exists>a b. shown_cmd cl (pid e) = a @ f @ b)) conns"
  by (simp add: select_entries_def select_foldR strstr_iff)

text \<open>What the options mean: without any, or with both, both protocols are listed.\<close>

lemma read_options_flags:
  "read_options opts (t, u) = Some (t', u') \<Longrightarrow>
     t' = (t \<or> Long_Option 0 \<in> set opts \<or> Short_Option (CHR ''t'') \<in> set opts) \<and>
     u' = (u \<or> Long_Option 1 \<in> set opts \<or> Short_Option (CHR ''u'') \<in> set opts)"
  by (induction opts "(t, u)" arbitrary: t u rule: read_options.induct) (auto split: if_splits)

text \<open>The entries after all four protocol files.\<close>

definition parsed :: "net_env \<Rightarrow> junk \<Rightarrow> connection_entry list res" where
  "parsed env J =
     thenR (parse_protocol env J ''tcp'' []) (\<lambda>conns.
     thenR (parse_protocol env J ''tcp6'' conns) (\<lambda>conns.
     thenR (parse_protocol env J ''udp'' conns) (parse_protocol env J ''udp6'')))"

lemma thenR_assoc: "thenR (thenR r f) g = thenR r (\<lambda>x. thenR (f x) g)"
  by (cases r) simp_all

definition wants :: "option_result list \<Rightarrow> nat \<Rightarrow> char \<Rightarrow> bool" where
  "wants opts k c \<longleftrightarrow> Long_Option k \<in> set opts \<or> Short_Option c \<in> set opts"

definition listed :: "cmdlines \<Rightarrow> string \<Rightarrow> string \<Rightarrow> connection_entry list \<Rightarrow> connection_entry list" where
  "listed cl f proto conns = filter (\<lambda>e. take 3 (ip_proto e) = proto \<and> strstr (shown_cmd cl (pid e)) f) conns"

lemma select_listed:
  "list_all (\<lambda>e. readable cl (pid e)) conns \<Longrightarrow> select_entries cl f proto conns = Inr (listed cl f proto conns)"
  using select_foldR [of cl f proto conns "[]" "listed cl f proto conns"]
  by (auto simp: select_entries_def listed_def list_all_iff)

text \<open>
  C21: the whole program.  When the protocol files could be parsed and every connection has
  an owner whose command line can be read, it prints the section of TCP connections unless
  only UDP was asked for, and the section of UDP connections unless only TCP was asked for;
  in each the connections that the filter lets through, with the owners found in \<^verbatim>\<open>/proc\<close>.
\<close>

theorem net_main_sections:
  assumes "parsed env J = Inr conns" "read_options opts (False, False) \<noteq> None" "length f < 64"
    and "dir_names env ''/proc'' = Some (map item_name table)" "list_all (item_shown env) table"
    and "owned = map (with_owner (concat (map owners table)) conns) [0..<length conns]"
    and "list_all (\<lambda>e. readable (cmdline_of env) (pid e)) owned"
    and "tcp = (if wants opts 0 (CHR ''t'') \<or> \<not> wants opts 1 (CHR ''u'') then listed (cmdline_of env) f ''tcp'' owned else [])"
    and "udp = (if wants opts 1 (CHR ''u'') \<or> \<not> wants opts 0 (CHR ''t'') then listed (cmdline_of env) f ''udp'' owned else [])"
  shows "net_main env J opts (Some f) =
    thenR (print_section (cmdline_of env) ''TCP'' tcp) (\<lambda>out1.
    thenR (print_section (cmdline_of env) ''UDP'' udp) (\<lambda>out2.
    Inr (out1 @ (if tcp \<noteq> [] \<and> udp \<noteq> [] then newline else []) @ out2)))"
proof -
  from assms(2) obtain t u where tu: "read_options opts (False, False) = Some (t, u)" by auto
  have flags: "t = wants opts 0 (CHR ''t'')" "u = wants opts 1 (CHR ''u'')"
    using read_options_flags [OF tu] by (auto simp: wants_def)
  have chain: "thenR (parse_protocol env J ''tcp'' []) (\<lambda>conns.
      thenR (parse_protocol env J ''tcp6'' conns) (\<lambda>conns.
      thenR (parse_protocol env J ''udp'' conns) (\<lambda>conns.
      thenR (parse_protocol env J ''udp6'' conns) g))) = g conns" for g :: "_ \<Rightarrow> string res"
    using assms(1) by (simp add: parsed_def thenR_assoc flip: thenR_assoc)
  note sel = select_listed [OF assms(7), of f]
  show ?thesis
    unfolding net_main_def tu option.case prod.case chain assms(8,9) flags [symmetric]
    using assms(3) sel find_owners_eq [OF assms(4,5), of J conns] assms(6)
    by (cases t; cases u) (simp_all add: store_s_def)
qed

end
