(* ===== verification/Fs_Monitor.thy ===== *)
theory Fs_Monitor
  imports C_Text
begin

text \<open>
  The file system monitor of \<^verbatim>\<open>hw2/fsmon.c\<close>, a library that is loaded before the C library
  and replaces its functions by ones that call the original and write a line about the
  call.  The C library is a parameter over an unspecified state \<open>'k\<close>; an argument is a word
  (a number or an address) or the text that a \<open>const char *\<close> points to.  A hook returns a
  word of its declared return type: 32 bits for \<open>int\<close>, 64 for pointers and sizes.
  \<open>write_msg\<close> uses the original \<open>fopen\<close>, \<open>fclose\<close> and \<open>vfprintf\<close>, so it is not itself
  monitored, but it acts on the same system as the program: it opens, extends and closes a
  file.  Each line is also recorded as an event with its destination.
\<close>

datatype carg = Text string | Word u64

record 'k libc =
  has_function :: "string \<Rightarrow> bool"    \<comment> \<open>\<open>dlopen\<close> and \<open>dlsym\<close> find it\<close>
  real_call :: "string \<Rightarrow> carg list \<Rightarrow> 'k \<Rightarrow> u64 \<times> 'k"
  real_readlink :: "string \<Rightarrow> 'k \<Rightarrow> string option"
  fileno :: "u64 \<Rightarrow> 'k \<Rightarrow> int"
  dirfd :: "u64 \<Rightarrow> 'k \<Rightarrow> int option"         \<comment> \<open>of an open directory stream\<close>
  monitor_output :: "'k \<Rightarrow> string option"  \<comment> \<open>\<open>getenv("MONITOR_OUTPUT")\<close>\<close>
  put_text :: "u64 \<Rightarrow> string \<Rightarrow> 'k \<Rightarrow> 'k"  \<comment> \<open>\<open>vfprintf\<close> of a line to a stream\<close>
  std_err :: u64
  third_arg :: "'k \<Rightarrow> u64"                \<comment> \<open>the third argument register at a call with two arguments\<close>
  text_at :: "u64 \<Rightarrow> 'k \<Rightarrow> string"        \<comment> \<open>the C string at an address\<close>
  d_name_at :: "u64 \<Rightarrow> 'k \<Rightarrow> string"
  stat_at :: "u64 \<Rightarrow> 'k \<Rightarrow> u32 \<times> u64"    \<comment> \<open>\<open>st_mode\<close>, \<open>st_size\<close>\<close>

text \<open>The static buffers, and the lines written: to a file (its name) or to the standard error.\<close>

record 'k mon =
  world :: 'k
  filename :: string
  buff1 :: string    \<comment> \<open>the 128 bytes of \<open>buff1\<close> in \<open>convert_to_verbose_newline\<close>\<close>
  logged :: "(string option \<times> string) list"

type_synonym ('k, 'r) hook = "'k mon \<Rightarrow> ('r word \<times> 'k mon) res"

subsection \<open>Formats\<close>

abbreviation quoted :: "string \<Rightarrow> string" where
  "quoted s \<equiv> CHR 0x22 # s @ [CHR 0x22]"

definition fmt_d :: "'a::len word \<Rightarrow> string" where  \<comment> \<open>\<open>%d\<close>: the low 32 bits, signed\<close>
  "fmt_d w = show_d (sint (ucast w :: u32))"

definition upper :: "char \<Rightarrow> char" where
  "upper c = (let n = (of_char c :: nat) in if 97 \<le> n \<and> n \<le> 122 then char_of (n - 32) else c)"

definition fmt_X :: "'a::len word \<Rightarrow> string" where  \<comment> \<open>\<open>%X\<close>: the low 32 bits\<close>
  "fmt_X w = map upper (show_llx (ucast w :: u32))"

definition fmt_ld :: "u64 \<Rightarrow> string" where
  "fmt_ld w = show_d (sint w)"

subsection \<open>Support functions\<close>

text \<open>A function that is not found is null; every caller calls it at once.\<close>

definition load_function :: "'k libc \<Rightarrow> string \<Rightarrow> unit res" where
  "load_function L func_name = (if has_function L func_name then Inr () else Inl Null_Deref)"

definition write_msg :: "'k libc \<Rightarrow> string \<Rightarrow> 'k mon \<Rightarrow> 'k mon res" where
  "write_msg L msg m =
     (case monitor_output L (world m) of
        Some log_name \<Rightarrow>
          thenR (load_function L ''fclose'') (\<lambda>_.
          thenR (load_function L ''fopen'') (\<lambda>_.
          let (fp, k) = real_call L ''fopen'' [Text log_name, Text ''a''] (world m) in
          if fp = 0 then Inl Null_Deref
          else
            let k = put_text L fp msg k;
                (_, k) = real_call L ''fclose'' [Word fp] k
            in Inr (m\<lparr>world := k, logged := logged m @ [(Some log_name, msg)]\<rparr>)))
      | None \<Rightarrow>
          Inr (m\<lparr>world := put_text L (std_err L) msg (world m), logged := logged m @ [(None, msg)]\<rparr>))"

text \<open>A failed \<open>readlink\<close> returns \<open>-1\<close>, and \<open>filename[-1]\<close> is written.\<close>

definition fd_to_filename :: "'k libc \<Rightarrow> int \<Rightarrow> 'k mon \<Rightarrow> (string \<times> 'k mon) res" where
  "fd_to_filename L fd m =
     (if fd = 1 then Inr (''<STDOUT>'', m\<lparr>filename := ''<STDOUT>''\<rparr>)
      else if fd = 2 then Inr (''<STDERR>'', m\<lparr>filename := ''<STDERR>''\<rparr>)
      else thenR (store_s 64 (''/proc/self/fd/'' @ show_d fd)) (\<lambda>fd_path.
        thenR (load_function L ''readlink'') (\<lambda>_.
        case real_readlink L fd_path (world m) of
          None \<Rightarrow> Inl Out_Of_Bounds
        | Some t \<Rightarrow> let name = c_string (take 127 t) in Inr (name, m\<lparr>filename := name\<rparr>))))"

definition get_file_name :: "'k libc \<Rightarrow> u64 \<Rightarrow> 'k mon \<Rightarrow> (string \<times> 'k mon) res" where
  "get_file_name L fp m = fd_to_filename L (fileno L fp (world m)) m"

definition get_dir_name :: "'k libc \<Rightarrow> u64 \<Rightarrow> 'k mon \<Rightarrow> (string \<times> 'k mon) res" where
  "get_dir_name L dp m = thenR (need Use_After_Free (dirfd L dp (world m))) (\<lambda>fd. fd_to_filename L fd m)"

definition file_type :: "u32 \<Rightarrow> string" where
  "file_type st_mode =
     (let t = st_mode AND 0xF000 in
      if t = 0x6000 then ''block device''
      else if t = 0x2000 then ''character device''
      else if t = 0x4000 then ''directory''
      else if t = 0x1000 then ''FIFO/pipe''
      else if t = 0xA000 then ''symlink''
      else if t = 0x8000 then ''regular file''
      else if t = 0xC000 then ''socket''
      else ''unknown'')"

definition get_verbose_stat :: "u32 \<times> u64 \<Rightarrow> string res" where
  "get_verbose_stat s =
     thenR (store_s 32 (file_type (fst s))) (\<lambda>type.
     store_s 64 (''{type='' @ type @ '', mode='' @ fmt_d (fst s) @ '', size='' @ fmt_ld (snd s) @ ''}''))"

text \<open>
  \<open>strncpy\<close> of all but the last character puts no zero behind what it copies; \<open>snprintf\<close>
  then reads \<open>buff1\<close> up to the first zero.
\<close>

definition convert_to_verbose_newline :: "string option \<Rightarrow> 'k mon \<Rightarrow> (string option \<times> 'k mon) res" where
  "convert_to_verbose_newline format m =
     (case format of
        None \<Rightarrow> Inr (None, m)
      | Some f \<Rightarrow>
          if f = [] then Inl Out_Of_Bounds
          else if last f = CHR 0x0A then
            (let n = length f - 1; b = take n f @ drop n (buff1 m) in
             if 128 < n then Inl Buffer_Overflow
             else if NUL \<notin> set b then Inl Out_Of_Bounds
             else Inr (Some (take 131 (c_string b @ [CHR 0x5C, CHR ''n''])), m\<lparr>buff1 := b\<rparr>))
          else Inr (format, m))"

text \<open>\<open>%s\<close> with a null pointer.\<close>

definition fmt_s :: "string option \<Rightarrow> string" where
  "fmt_s s = (case s of None \<Rightarrow> ''(null)'' | Some t \<Rightarrow> t)"

subsection \<open>The hooks\<close>

text \<open>The original is called with the same arguments; what follows in a hook writes the line.\<close>

definition call_real :: "'k libc \<Rightarrow> string \<Rightarrow> carg list \<Rightarrow> ('k, 'r::len) hook" where
  "call_real L func args m =
     (let (ret, k) = real_call L func args (world m) in Inr (ucast ret, m\<lparr>world := k\<rparr>))"

definition BEGIN_MON ::
  "'k libc \<Rightarrow> string \<Rightarrow> carg list \<Rightarrow> ('r::len word \<Rightarrow> 'k mon \<Rightarrow> 'k mon res) \<Rightarrow> ('k, 'r) hook" where
  "BEGIN_MON L func args body m =
     thenR (load_function L func) (\<lambda>_.
     thenR (call_real L func args m) (\<lambda>(ret, m).
     thenR (body ret m) (\<lambda>m. Inr (ret, m))))"

definition closedir_mon :: "'k libc \<Rightarrow> u64 \<Rightarrow> ('k, 32) hook" where
  "closedir_mon L p1 = BEGIN_MON L ''closedir'' [Word p1]
     (\<lambda>ret m. thenR (get_dir_name L p1 m) (\<lambda>(nm, m).
       write_msg L (''closedir('' @ quoted nm @ '') = '' @ fmt_d ret @ newline) m))"

definition opendir_mon :: "'k libc \<Rightarrow> string \<Rightarrow> ('k, 64) hook" where
  "opendir_mon L p1 = BEGIN_MON L ''opendir'' [Text p1]
     (\<lambda>ret m. write_msg L (''opendir('' @ quoted p1 @ '') = 0x'' @ fmt_X ret @ newline) m)"

definition creat_mon :: "'k libc \<Rightarrow> string \<Rightarrow> u64 \<Rightarrow> ('k, 32) hook" where
  "creat_mon L p1 p2 = BEGIN_MON L ''creat'' [Text p1, Word p2]
     (\<lambda>ret m. write_msg L (''creat('' @ quoted p1 @ '', '' @ fmt_d p2 @ '') = '' @ fmt_d ret @ newline) m)"

text \<open>
  \<open>open\<close> takes a third argument, the mode, when the flags have \<open>O_CREAT\<close> or \<open>O_TMPFILE\<close>.  The
  hook calls the original with two arguments; it then takes as the mode whatever the register
  for the third argument holds.
\<close>

definition needs_mode :: "u64 \<Rightarrow> bool" where
  "needs_mode flags \<longleftrightarrow> flags AND 0x40 \<noteq> 0 \<or> flags AND 0x410000 = 0x410000"

definition open_args :: "'k libc \<Rightarrow> string \<Rightarrow> u64 \<Rightarrow> u64 option \<Rightarrow> 'k \<Rightarrow> carg list" where
  "open_args L path flags mode k =
     [Text path, Word flags] @
     (if needs_mode flags then [Word (case mode of Some md \<Rightarrow> md | None \<Rightarrow> third_arg L k)] else [])"

definition open_mon :: "'k libc \<Rightarrow> string \<Rightarrow> u64 \<Rightarrow> ('k, 32) hook" where
  "open_mon L p1 p2 m = BEGIN_MON L ''open'' (open_args L p1 p2 None (world m))
     (\<lambda>ret m. write_msg L (''open('' @ quoted p1 @ '', '' @ fmt_d p2 @ '') = '' @ fmt_d ret @ newline) m) m"

definition read_mon :: "'k libc \<Rightarrow> u64 \<Rightarrow> u64 \<Rightarrow> u64 \<Rightarrow> ('k, 32) hook" where
  "read_mon L p1 p2 p3 = BEGIN_MON L ''read'' [Word p1, Word p2, Word p3]
     (\<lambda>ret m. thenR (fd_to_filename L (sint (ucast p1 :: u32)) m) (\<lambda>(nm, m).
       write_msg L (''read('' @ nm @ '', 0x'' @ fmt_X p2 @ '', '' @ fmt_d p3 @ '') = '' @ fmt_d ret @ newline) m))"

definition write_mon :: "'k libc \<Rightarrow> u64 \<Rightarrow> u64 \<Rightarrow> u64 \<Rightarrow> ('k, 32) hook" where
  "write_mon L p1 p2 p3 = BEGIN_MON L ''write'' [Word p1, Word p2, Word p3]
     (\<lambda>ret m. write_msg L (''write('' @ fmt_d p1 @ '', 0x'' @ fmt_X p2 @ '', '' @ fmt_d p3 @ '') = '' @ fmt_d ret @ newline) m)"

definition dup_mon :: "'k libc \<Rightarrow> u64 \<Rightarrow> ('k, 32) hook" where
  "dup_mon L p1 = BEGIN_MON L ''dup'' [Word p1]
     (\<lambda>ret m. write_msg L (''dup('' @ fmt_d p1 @ '') = '' @ fmt_d ret @ newline) m)"

definition dup2_mon :: "'k libc \<Rightarrow> u64 \<Rightarrow> u64 \<Rightarrow> ('k, 32) hook" where
  "dup2_mon L p1 p2 = BEGIN_MON L ''dup2'' [Word p1, Word p2]
     (\<lambda>ret m. write_msg L (''dup2('' @ fmt_d p1 @ '', '' @ fmt_d p2 @ '') = '' @ fmt_d ret @ newline) m)"

definition close_mon :: "'k libc \<Rightarrow> u64 \<Rightarrow> ('k, 32) hook" where
  "close_mon L p1 = BEGIN_MON L ''close'' [Word p1]
     (\<lambda>ret m. write_msg L (''close('' @ fmt_d p1 @ '') = '' @ fmt_d ret @ newline) m)"

definition lstat_mon :: "'k libc \<Rightarrow> string \<Rightarrow> u64 \<Rightarrow> ('k, 32) hook" where
  "lstat_mon L p1 p2 = BEGIN_MON L ''lstat'' [Text p1, Word p2]
     (\<lambda>ret m. write_msg L (''lstat('' @ quoted p1 @ '', 0x'' @ fmt_X p2 @ '') = '' @ fmt_d ret @ newline) m)"

definition stat_mon :: "'k libc \<Rightarrow> string \<Rightarrow> u64 \<Rightarrow> ('k, 32) hook" where
  "stat_mon L p1 p2 = BEGIN_MON L ''stat'' [Text p1, Word p2]
     (\<lambda>ret m. write_msg L (''stat('' @ quoted p1 @ '', 0x'' @ fmt_X p2 @ '') = '' @ fmt_d ret @ newline) m)"

definition pwrite_mon :: "'k libc \<Rightarrow> u64 \<Rightarrow> u64 \<Rightarrow> u64 \<Rightarrow> u64 \<Rightarrow> ('k, 64) hook" where
  "pwrite_mon L p1 p2 p3 p4 = BEGIN_MON L ''pwrite'' [Word p1, Word p2, Word p3, Word p4]
     (\<lambda>ret m. write_msg L (''pwrite('' @ fmt_d p1 @ '', 0x'' @ fmt_X p2 @ '', '' @ fmt_d p3 @ '', '' @ fmt_d p4 @ '') = '' @ fmt_d ret @ newline) m)"

definition fopen_mon :: "'k libc \<Rightarrow> string \<Rightarrow> string \<Rightarrow> ('k, 64) hook" where
  "fopen_mon L p1 p2 = BEGIN_MON L ''fopen'' [Text p1, Text p2]
     (\<lambda>ret m. write_msg L (''fopen('' @ quoted p1 @ '', '' @ quoted p2 @ '') = 0x'' @ fmt_X ret @ newline) m)"

definition fread_mon :: "'k libc \<Rightarrow> u64 \<Rightarrow> u64 \<Rightarrow> u64 \<Rightarrow> u64 \<Rightarrow> ('k, 64) hook" where
  "fread_mon L p1 p2 p3 p4 = BEGIN_MON L ''fread'' [Word p1, Word p2, Word p3, Word p4]
     (\<lambda>ret m. thenR (get_file_name L p4 m) (\<lambda>(nm, m).
       write_msg L (''pwrite(0x'' @ fmt_X p1 @ '', '' @ fmt_d p2 @ '', '' @ fmt_d p3 @ '', '' @ nm @ '') = '' @ fmt_d ret @ newline) m))"

definition fwrite_mon :: "'k libc \<Rightarrow> u64 \<Rightarrow> u64 \<Rightarrow> u64 \<Rightarrow> u64 \<Rightarrow> ('k, 64) hook" where
  "fwrite_mon L p1 p2 p3 p4 = BEGIN_MON L ''fwrite'' [Word p1, Word p2, Word p3, Word p4]
     (\<lambda>ret m. thenR (get_file_name L p4 m) (\<lambda>(nm, m).
       write_msg L (''fwrite(0x'' @ fmt_X p1 @ '', '' @ fmt_d p2 @ '', '' @ fmt_d p3 @ '', '' @ nm @ '') = '' @ fmt_d ret @ newline) m))"

definition fwrite_unlocked_mon :: "'k libc \<Rightarrow> u64 \<Rightarrow> u64 \<Rightarrow> u64 \<Rightarrow> u64 \<Rightarrow> ('k, 64) hook" where
  "fwrite_unlocked_mon L p1 p2 p3 p4 = BEGIN_MON L ''fwrite_unlocked'' [Word p1, Word p2, Word p3, Word p4]
     (\<lambda>ret m. thenR (get_file_name L p4 m) (\<lambda>(nm, m).
       write_msg L (''fwrite_unlocked(0x'' @ fmt_X p1 @ '', '' @ fmt_d p2 @ '', '' @ fmt_d p3 @ '', '' @ nm @ '') = '' @ fmt_d ret @ newline) m))"

definition chdir_mon :: "'k libc \<Rightarrow> string \<Rightarrow> ('k, 32) hook" where
  "chdir_mon L p1 = BEGIN_MON L ''chdir'' [Text p1]
     (\<lambda>ret m. write_msg L (''chdir('' @ quoted p1 @ '') = '' @ fmt_d ret @ newline) m)"

definition chown_mon :: "'k libc \<Rightarrow> string \<Rightarrow> u64 \<Rightarrow> u64 \<Rightarrow> ('k, 32) hook" where
  "chown_mon L p1 p2 p3 = BEGIN_MON L ''chown'' [Text p1, Word p2, Word p3]
     (\<lambda>ret m. write_msg L (''chown('' @ quoted p1 @ '', '' @ fmt_d p2 @ '', '' @ fmt_d p3 @ '') = '' @ fmt_d ret @ newline) m)"

definition chmod_mon :: "'k libc \<Rightarrow> string \<Rightarrow> u64 \<Rightarrow> ('k, 32) hook" where
  "chmod_mon L p1 p2 = BEGIN_MON L ''chmod'' [Text p1, Word p2]
     (\<lambda>ret m. write_msg L (''chmod('' @ p1 @ '', '' @ fmt_d p2 @ '') = '' @ fmt_d ret @ newline) m)"

definition remove_mon :: "'k libc \<Rightarrow> string \<Rightarrow> ('k, 32) hook" where
  "remove_mon L p1 = BEGIN_MON L ''remove'' [Text p1]
     (\<lambda>ret m. write_msg L (''remove('' @ quoted p1 @ '') = '' @ fmt_d ret @ newline) m)"

definition rename_mon :: "'k libc \<Rightarrow> string \<Rightarrow> string \<Rightarrow> ('k, 32) hook" where
  "rename_mon L p1 p2 = BEGIN_MON L ''rename'' [Text p1, Text p2]
     (\<lambda>ret m. write_msg L (''rename('' @ quoted p1 @ '', '' @ quoted p2 @ '') = '' @ fmt_d ret @ newline) m)"

definition link_mon :: "'k libc \<Rightarrow> string \<Rightarrow> string \<Rightarrow> ('k, 32) hook" where
  "link_mon L p1 p2 = BEGIN_MON L ''link'' [Text p1, Text p2]
     (\<lambda>ret m. write_msg L (''link('' @ quoted p1 @ '', '' @ quoted p2 @ '') = '' @ fmt_d ret @ newline) m)"

definition unlink_mon :: "'k libc \<Rightarrow> string \<Rightarrow> ('k, 32) hook" where
  "unlink_mon L p1 = BEGIN_MON L ''unlink'' [Text p1]
     (\<lambda>ret m. write_msg L (''unlink('' @ quoted p1 @ '') = '' @ fmt_d ret @ newline) m)"

definition readlink_mon :: "'k libc \<Rightarrow> string \<Rightarrow> u64 \<Rightarrow> u64 \<Rightarrow> ('k, 64) hook" where
  "readlink_mon L p1 p2 p3 = BEGIN_MON L ''readlink'' [Text p1, Word p2, Word p3]
     (\<lambda>ret m. write_msg L (''readlink('' @ quoted p1 @ '', '' @ quoted (text_at L p2 (world m)) @ '', '' @ fmt_d p3 @ '') = '' @ fmt_d ret @ newline) m)"

definition symlink_mon :: "'k libc \<Rightarrow> string \<Rightarrow> string \<Rightarrow> ('k, 32) hook" where
  "symlink_mon L p1 p2 = BEGIN_MON L ''symlink'' [Text p1, Text p2]
     (\<lambda>ret m. write_msg L (''syslink('' @ quoted p1 @ '', '' @ quoted p2 @ '') = '' @ fmt_d ret @ newline) m)"

definition mkdir_mon :: "'k libc \<Rightarrow> string \<Rightarrow> u64 \<Rightarrow> ('k, 32) hook" where
  "mkdir_mon L p1 p2 = BEGIN_MON L ''mkdir'' [Text p1, Word p2]
     (\<lambda>ret m. write_msg L (''mkdir('' @ quoted p1 @ '', '' @ fmt_d p2 @ '') = '' @ fmt_d ret @ newline) m)"

definition rmdir_mon :: "'k libc \<Rightarrow> string \<Rightarrow> ('k, 32) hook" where
  "rmdir_mon L p1 = BEGIN_MON L ''rmdir'' [Text p1]
     (\<lambda>ret m. write_msg L (''rmdir('' @ quoted p1 @ '') = '' @ fmt_d ret @ newline) m)"

definition xstat_mon :: "'k libc \<Rightarrow> u64 \<Rightarrow> string \<Rightarrow> u64 \<Rightarrow> ('k, 32) hook" where
  "xstat_mon L p1 p2 p3 = BEGIN_MON L ''__xstat'' [Word p1, Text p2, Word p3]
     (\<lambda>ret m. thenR (get_verbose_stat (stat_at L p3 (world m))) (\<lambda>st.
       write_msg L (''__xstat('' @ fmt_d p1 @ '', '' @ p2 @ '', 0x'' @ fmt_X p3 @ '' '' @ st @ '') = '' @ fmt_d ret @ newline) m))"

definition lxstat_mon :: "'k libc \<Rightarrow> u64 \<Rightarrow> string \<Rightarrow> u64 \<Rightarrow> ('k, 32) hook" where
  "lxstat_mon L p1 p2 p3 = BEGIN_MON L ''__lxstat'' [Word p1, Text p2, Word p3]
     (\<lambda>ret m. thenR (get_verbose_stat (stat_at L p3 (world m))) (\<lambda>st.
       write_msg L (''__lxstat('' @ fmt_d p1 @ '', '' @ p2 @ '', 0x'' @ fmt_X p3 @ '' '' @ st @ '') = '' @ fmt_d ret @ newline) m))"

definition fputs_unlocked_mon :: "'k libc \<Rightarrow> u64 \<Rightarrow> u64 \<Rightarrow> ('k, 32) hook" where
  "fputs_unlocked_mon L p1 p2 = BEGIN_MON L ''fputs_unlocked'' [Word p1, Word p2]
     (\<lambda>ret m. thenR (get_file_name L p2 m) (\<lambda>(nm, m).
       write_msg L (''fputs_unlocked(0x'' @ fmt_X p1 @ '', '' @ nm @ '') = '' @ fmt_d ret @ newline) m))"

definition fflush_mon :: "'k libc \<Rightarrow> u64 \<Rightarrow> ('k, 32) hook" where
  "fflush_mon L p1 = BEGIN_MON L ''fflush'' [Word p1]
     (\<lambda>ret m. thenR (get_file_name L p1 m) (\<lambda>(nm, m).
       write_msg L (''fflush('' @ nm @ '') = '' @ fmt_d ret @ newline) m))"

definition readdir_mon :: "'k libc \<Rightarrow> u64 \<Rightarrow> ('k, 64) hook" where
  "readdir_mon L p1 = BEGIN_MON L ''readdir'' [Word p1]
     (\<lambda>ret m. if ret \<noteq> 0
       then thenR (get_dir_name L p1 m) (\<lambda>(nm, m).
         write_msg L (''readdir('' @ quoted nm @ '') = '' @ d_name_at L ret (world m) @ newline) m)
       else Inr m)"

definition fclose_mon :: "'k libc \<Rightarrow> u64 \<Rightarrow> ('k, 32) hook" where
  "fclose_mon L p1 m =
     thenR (load_function L ''fclose'') (\<lambda>_.
     thenR (get_file_name L p1 m) (\<lambda>(nm, m).
     thenR (call_real L ''fclose'' [Word p1] m) (\<lambda>(ret, m).
     thenR (write_msg L (''fclose('' @ quoted nm @ '') = '' @ fmt_d ret @ newline) m) (\<lambda>m. Inr (ret, m)))))"

definition fgetc_mon :: "'k libc \<Rightarrow> u64 \<Rightarrow> ('k, 32) hook" where
  "fgetc_mon L p1 = BEGIN_MON L ''fgetc'' [Word p1]
     (\<lambda>ret m. if ret = 10
       then thenR (get_file_name L p1 m) (\<lambda>(nm, m).
         write_msg L (''fgetc('' @ nm @ '') = '' @ [CHR 0x27, CHR 0x5C, CHR ''n'', CHR 0x27] @ newline) m)
       else thenR (get_file_name L p1 m) (\<lambda>(nm, m).
         write_msg L (''fgetc('' @ nm @ '') = '' @ [CHR 0x27, char_of (unat ret mod 256), CHR 0x27] @ newline) m))"

definition fgets_mon :: "'k libc \<Rightarrow> u64 \<Rightarrow> u64 \<Rightarrow> u64 \<Rightarrow> ('k, 64) hook" where
  "fgets_mon L p1 p2 p3 = BEGIN_MON L ''fgets'' [Word p1, Word p2, Word p3]
     (\<lambda>ret m. thenR (get_file_name L p3 m) (\<lambda>(nm, m).
       thenR (convert_to_verbose_newline (if ret = 0 then None else Some (text_at L ret (world m))) m) (\<lambda>(s, m).
       write_msg L (''fgets(0x'' @ fmt_X p1 @ '', '' @ fmt_d p2 @ '', '' @ nm @ '') = '' @ quoted (fmt_s s) @ newline) m)))"

text \<open>\<open>fscanf\<close> and \<open>fprintf\<close> call \<open>vfscanf\<close> and \<open>vfprintf\<close>, which are not replaced.\<close>

definition formatted_io :: "'k libc \<Rightarrow> string \<Rightarrow> string \<Rightarrow> u64 \<Rightarrow> string \<Rightarrow> carg list \<Rightarrow> ('k, 32) hook" where
  "formatted_io L func vfunc stream format vl m =
     thenR (call_real L vfunc (Word stream # Text format # vl) m) (\<lambda>(ret, m).
     thenR (get_file_name L stream m) (\<lambda>(nm, m).
     thenR (convert_to_verbose_newline (Some format) m) (\<lambda>(s, m).
     thenR (write_msg L (func @ ''('' @ nm @ '', '' @ quoted (fmt_s s) @ '', ...) = '' @ fmt_d ret @ newline) m)
       (\<lambda>m. Inr (ret, m)))))"

definition fscanf_mon :: "'k libc \<Rightarrow> u64 \<Rightarrow> string \<Rightarrow> carg list \<Rightarrow> ('k, 32) hook" where
  "fscanf_mon L = formatted_io L ''fscanf'' ''vfscanf''"

definition fprintf_mon :: "'k libc \<Rightarrow> u64 \<Rightarrow> string \<Rightarrow> carg list \<Rightarrow> ('k, 32) hook" where
  "fprintf_mon L = formatted_io L ''fprintf'' ''vfprintf''"

subsection \<open>What every hook keeps\<close>

text \<open>
  What writing a line does to the system, and when it can be done.
\<close>

definition log_opens :: "'k libc \<Rightarrow> 'k \<Rightarrow> bool" where
  "log_opens L k \<longleftrightarrow> (case monitor_output L k of
     None \<Rightarrow> True
   | Some f \<Rightarrow> has_function L ''fclose'' \<and> has_function L ''fopen'' \<and>
       fst (real_call L ''fopen'' [Text f, Text ''a''] k) \<noteq> 0)"

definition after_line :: "'k libc \<Rightarrow> string \<Rightarrow> 'k \<Rightarrow> 'k" where
  "after_line L t k = (case monitor_output L k of
     None \<Rightarrow> put_text L (std_err L) t k
   | Some f \<Rightarrow>
       (let (fp, k) = real_call L ''fopen'' [Text f, Text ''a''] k
        in snd (real_call L ''fclose'' [Word fp] (put_text L fp t k))))"

lemma write_msg_eq:
  "write_msg L t m =
     (if log_opens L (world m)
      then Inr (m\<lparr>world := after_line L t (world m), logged := logged m @ [(monitor_output L (world m), t)]\<rparr>)
      else Inl Null_Deref)"
  by (auto simp: write_msg_def load_function_def log_opens_def after_line_def split_beta Let_def split: option.split)

text \<open>At most one line: the lines, and the states before and after.\<close>

definition noted :: "'k libc \<Rightarrow> 'k \<Rightarrow> 'k \<Rightarrow> (string option \<times> string) list \<Rightarrow> bool" where
  "noted L k k' es \<longleftrightarrow> es = [] \<and> k' = k \<or>
     (\<exists>t. es = [(monitor_output L k, t)] \<and> log_opens L k \<and> k' = after_line L t k)"

text \<open>
  A hook gives the value that the original returns (cut to the hook's return type) and its
  effect, followed by that of writing at most one line.
\<close>

locale monitored =
  fixes L :: "'k libc" and hook :: "('k, 'r::len) hook" and act :: "'k \<Rightarrow> u64 \<times> 'k"
  assumes through: "hook m = Inr (r, m') \<Longrightarrow>
      r = ucast (fst (act (world m))) \<and>
      (\<exists>es. logged m' = logged m @ es \<and> noted L (snd (act (world m))) (world m') es)"
begin

text \<open>The result as the caller sees it in \<open>rax\<close>.\<close>

lemma through_wide:
  "map_sum id (apfst ucast) (hook m) = Inr (w, m') \<Longrightarrow>
     w = ucast (ucast (fst (act (world m))) :: 'r word) \<and>
     (\<exists>es. logged m' = logged m @ es \<and> noted L (snd (act (world m))) (world m') es)"
  by (cases "hook m") (auto dest!: through)

end

definition quiet :: "'k libc \<Rightarrow> ('k mon \<Rightarrow> 'k mon res) \<Rightarrow> bool" where
  "quiet L f \<longleftrightarrow> (\<forall>m m'. f m = Inr m' \<longrightarrow>
     (\<exists>es. logged m' = logged m @ es \<and> noted L (world m) (world m') es))"

lemma noted_nil: "noted L k k []"
  by (simp add: noted_def)

lemma write_msgD:
  "write_msg L t m = Inr m' \<Longrightarrow> \<exists>es. logged m' = logged m @ es \<and> noted L (world m) (world m') es"
  by (auto simp: write_msg_eq noted_def split: if_splits)

lemma fd_to_filenameD:
  "fd_to_filename L fd m = Inr (nm, m') \<Longrightarrow> world m' = world m \<and> logged m' = logged m"
  by (auto simp: fd_to_filename_def load_function_def thenR_eq_Inr Let_def split: option.splits if_splits)

lemma get_file_nameD: "get_file_name L p m = Inr (nm, m') \<Longrightarrow> world m' = world m \<and> logged m' = logged m"
  unfolding get_file_name_def by (rule fd_to_filenameD)

lemma get_dir_nameD: "get_dir_name L p m = Inr (nm, m') \<Longrightarrow> world m' = world m \<and> logged m' = logged m"
  unfolding get_dir_name_def by (auto simp: thenR_eq_Inr dest: fd_to_filenameD)

lemma convertD:
  "convert_to_verbose_newline f m = Inr (t, m') \<Longrightarrow> world m' = world m \<and> logged m' = logged m"
  by (auto simp: convert_to_verbose_newline_def Let_def split: option.splits if_splits)

lemmas logD = write_msgD get_file_nameD get_dir_nameD fd_to_filenameD convertD

lemma call_real_eq: "call_real L func args m = Inr (r, m') \<longleftrightarrow>
    r = ucast (fst (real_call L func args (world m))) \<and> m' = m\<lparr>world := snd (real_call L func args (world m))\<rparr>"
  by (auto simp: call_real_def split_beta)

lemma begin_mon_at:
  assumes "\<And>ret. quiet L (body ret)"
  shows "monitored L (\<lambda>m. BEGIN_MON L func (args (world m)) body m) (\<lambda>k. real_call L func (args k) k)"
proof
  fix m r m' assume h: "BEGIN_MON L func (args (world m)) body m = Inr (r, m')"
  let ?rc = "real_call L func (args (world m)) (world m)"
  let ?m = "m\<lparr>world := snd ?rc\<rparr>"
  from h have "body (ucast (fst ?rc)) ?m = Inr m'" and "r = ucast (fst ?rc)"
    by (auto simp: BEGIN_MON_def thenR_eq_Inr call_real_eq)
  with assms show "r = ucast (fst ?rc) \<and> (\<exists>es. logged m' = logged m @ es \<and> noted L (snd ?rc) (world m') es)"
    unfolding quiet_def by fastforce
qed

lemmas begin_mon = begin_mon_at [where args = "\<lambda>_. args" for args]

lemma formatted_io_monitored:
  "monitored L (formatted_io L func vfunc stream format vl) (real_call L vfunc (Word stream # Text format # vl))"
proof
  fix m r m' assume h: "formatted_io L func vfunc stream format vl m = Inr (r, m')"
  let ?rc = "real_call L vfunc (Word stream # Text format # vl) (world m)"
  from h obtain nm m1 t m2 where
    "get_file_name L stream (m\<lparr>world := snd ?rc\<rparr>) = Inr (nm, m1)"
    "convert_to_verbose_newline (Some format) m1 = Inr (t, m2)"
    "write_msg L (func @ ''('' @ nm @ '', '' @ quoted (fmt_s t) @ '', ...) = '' @ fmt_d r @ newline) m2 = Inr m'"
    "r = ucast (fst ?rc)"
    by (auto simp: formatted_io_def thenR_eq_Inr call_real_eq)
  then show "r = ucast (fst ?rc) \<and> (\<exists>es. logged m' = logged m @ es \<and> noted L (snd ?rc) (world m') es)"
    by (auto dest!: logD)
qed

interpretation m_closedir: monitored L "closedir_mon L p1" "real_call L ''closedir'' ([Word p1])" for L p1
  unfolding closedir_mon_def by (rule begin_mon) (auto simp: quiet_def thenR_eq_Inr noted_nil dest!: logD split: if_splits)

interpretation m_opendir: monitored L "opendir_mon L p1" "real_call L ''opendir'' ([Text p1])" for L p1
  unfolding opendir_mon_def by (rule begin_mon) (auto simp: quiet_def thenR_eq_Inr noted_nil dest!: logD split: if_splits)

interpretation m_readdir: monitored L "readdir_mon L p1" "real_call L ''readdir'' ([Word p1])" for L p1
  unfolding readdir_mon_def by (rule begin_mon) (auto simp: quiet_def thenR_eq_Inr noted_nil dest!: logD split: if_splits)

interpretation m_creat: monitored L "creat_mon L p1 p2" "real_call L ''creat'' ([Text p1, Word p2])" for L p1 p2
  unfolding creat_mon_def by (rule begin_mon) (auto simp: quiet_def thenR_eq_Inr noted_nil dest!: logD split: if_splits)

interpretation m_open: monitored L "open_mon L p1 p2" "\<lambda>k. real_call L ''open'' (open_args L p1 p2 None k) k" for L p1 p2
  unfolding open_mon_def [abs_def] by (rule begin_mon_at) (auto simp: quiet_def thenR_eq_Inr noted_nil dest!: logD split: if_splits)

interpretation m_read: monitored L "read_mon L p1 p2 p3" "real_call L ''read'' ([Word p1, Word p2, Word p3])" for L p1 p2 p3
  unfolding read_mon_def by (rule begin_mon) (auto simp: quiet_def thenR_eq_Inr noted_nil dest!: logD split: if_splits)

interpretation m_write: monitored L "write_mon L p1 p2 p3" "real_call L ''write'' ([Word p1, Word p2, Word p3])" for L p1 p2 p3
  unfolding write_mon_def by (rule begin_mon) (auto simp: quiet_def thenR_eq_Inr noted_nil dest!: logD split: if_splits)

interpretation m_dup: monitored L "dup_mon L p1" "real_call L ''dup'' ([Word p1])" for L p1
  unfolding dup_mon_def by (rule begin_mon) (auto simp: quiet_def thenR_eq_Inr noted_nil dest!: logD split: if_splits)

interpretation m_dup2: monitored L "dup2_mon L p1 p2" "real_call L ''dup2'' ([Word p1, Word p2])" for L p1 p2
  unfolding dup2_mon_def by (rule begin_mon) (auto simp: quiet_def thenR_eq_Inr noted_nil dest!: logD split: if_splits)

interpretation m_close: monitored L "close_mon L p1" "real_call L ''close'' ([Word p1])" for L p1
  unfolding close_mon_def by (rule begin_mon) (auto simp: quiet_def thenR_eq_Inr noted_nil dest!: logD split: if_splits)

interpretation m_lstat: monitored L "lstat_mon L p1 p2" "real_call L ''lstat'' ([Text p1, Word p2])" for L p1 p2
  unfolding lstat_mon_def by (rule begin_mon) (auto simp: quiet_def thenR_eq_Inr noted_nil dest!: logD split: if_splits)

interpretation m_stat: monitored L "stat_mon L p1 p2" "real_call L ''stat'' ([Text p1, Word p2])" for L p1 p2
  unfolding stat_mon_def by (rule begin_mon) (auto simp: quiet_def thenR_eq_Inr noted_nil dest!: logD split: if_splits)

interpretation m_pwrite: monitored L "pwrite_mon L p1 p2 p3 p4" "real_call L ''pwrite'' ([Word p1, Word p2, Word p3, Word p4])" for L p1 p2 p3 p4
  unfolding pwrite_mon_def by (rule begin_mon) (auto simp: quiet_def thenR_eq_Inr noted_nil dest!: logD split: if_splits)

interpretation m_fopen: monitored L "fopen_mon L p1 p2" "real_call L ''fopen'' ([Text p1, Text p2])" for L p1 p2
  unfolding fopen_mon_def by (rule begin_mon) (auto simp: quiet_def thenR_eq_Inr noted_nil dest!: logD split: if_splits)

interpretation m_fclose: monitored L "fclose_mon L p1" "real_call L ''fclose'' ([Word p1])" for L p1
  unfolding fclose_mon_def [abs_def]
  by unfold_locales (auto simp: thenR_eq_Inr call_real_eq dest!: logD)

interpretation m_fread: monitored L "fread_mon L p1 p2 p3 p4" "real_call L ''fread'' ([Word p1, Word p2, Word p3, Word p4])" for L p1 p2 p3 p4
  unfolding fread_mon_def by (rule begin_mon) (auto simp: quiet_def thenR_eq_Inr noted_nil dest!: logD split: if_splits)

interpretation m_fwrite: monitored L "fwrite_mon L p1 p2 p3 p4" "real_call L ''fwrite'' ([Word p1, Word p2, Word p3, Word p4])" for L p1 p2 p3 p4
  unfolding fwrite_mon_def by (rule begin_mon) (auto simp: quiet_def thenR_eq_Inr noted_nil dest!: logD split: if_splits)

interpretation m_fwrite_unlocked: monitored L "fwrite_unlocked_mon L p1 p2 p3 p4" "real_call L ''fwrite_unlocked'' ([Word p1, Word p2, Word p3, Word p4])" for L p1 p2 p3 p4
  unfolding fwrite_unlocked_mon_def by (rule begin_mon) (auto simp: quiet_def thenR_eq_Inr noted_nil dest!: logD split: if_splits)

interpretation m_fgetc: monitored L "fgetc_mon L p1" "real_call L ''fgetc'' ([Word p1])" for L p1
  unfolding fgetc_mon_def by (rule begin_mon) (auto simp: quiet_def thenR_eq_Inr noted_nil dest!: logD split: if_splits)

interpretation m_fgets: monitored L "fgets_mon L p1 p2 p3" "real_call L ''fgets'' ([Word p1, Word p2, Word p3])" for L p1 p2 p3
  unfolding fgets_mon_def by (rule begin_mon) (auto simp: quiet_def thenR_eq_Inr noted_nil dest!: logD split: if_splits)

interpretation m_fscanf: monitored L "fscanf_mon L p1 p2 p3" "real_call L ''vfscanf'' (Word p1 # Text p2 # p3)" for L p1 p2 p3
  unfolding fscanf_mon_def by (rule formatted_io_monitored)

interpretation m_fprintf: monitored L "fprintf_mon L p1 p2 p3" "real_call L ''vfprintf'' (Word p1 # Text p2 # p3)" for L p1 p2 p3
  unfolding fprintf_mon_def by (rule formatted_io_monitored)

interpretation m_chdir: monitored L "chdir_mon L p1" "real_call L ''chdir'' ([Text p1])" for L p1
  unfolding chdir_mon_def by (rule begin_mon) (auto simp: quiet_def thenR_eq_Inr noted_nil dest!: logD split: if_splits)

interpretation m_chown: monitored L "chown_mon L p1 p2 p3" "real_call L ''chown'' ([Text p1, Word p2, Word p3])" for L p1 p2 p3
  unfolding chown_mon_def by (rule begin_mon) (auto simp: quiet_def thenR_eq_Inr noted_nil dest!: logD split: if_splits)

interpretation m_chmod: monitored L "chmod_mon L p1 p2" "real_call L ''chmod'' ([Text p1, Word p2])" for L p1 p2
  unfolding chmod_mon_def by (rule begin_mon) (auto simp: quiet_def thenR_eq_Inr noted_nil dest!: logD split: if_splits)

interpretation m_remove: monitored L "remove_mon L p1" "real_call L ''remove'' ([Text p1])" for L p1
  unfolding remove_mon_def by (rule begin_mon) (auto simp: quiet_def thenR_eq_Inr noted_nil dest!: logD split: if_splits)

interpretation m_rename: monitored L "rename_mon L p1 p2" "real_call L ''rename'' ([Text p1, Text p2])" for L p1 p2
  unfolding rename_mon_def by (rule begin_mon) (auto simp: quiet_def thenR_eq_Inr noted_nil dest!: logD split: if_splits)

interpretation m_link: monitored L "link_mon L p1 p2" "real_call L ''link'' ([Text p1, Text p2])" for L p1 p2
  unfolding link_mon_def by (rule begin_mon) (auto simp: quiet_def thenR_eq_Inr noted_nil dest!: logD split: if_splits)

interpretation m_unlink: monitored L "unlink_mon L p1" "real_call L ''unlink'' ([Text p1])" for L p1
  unfolding unlink_mon_def by (rule begin_mon) (auto simp: quiet_def thenR_eq_Inr noted_nil dest!: logD split: if_splits)

interpretation m_readlink: monitored L "readlink_mon L p1 p2 p3" "real_call L ''readlink'' ([Text p1, Word p2, Word p3])" for L p1 p2 p3
  unfolding readlink_mon_def by (rule begin_mon) (auto simp: quiet_def thenR_eq_Inr noted_nil dest!: logD split: if_splits)

interpretation m_symlink: monitored L "symlink_mon L p1 p2" "real_call L ''symlink'' ([Text p1, Text p2])" for L p1 p2
  unfolding symlink_mon_def by (rule begin_mon) (auto simp: quiet_def thenR_eq_Inr noted_nil dest!: logD split: if_splits)

interpretation m_mkdir: monitored L "mkdir_mon L p1 p2" "real_call L ''mkdir'' ([Text p1, Word p2])" for L p1 p2
  unfolding mkdir_mon_def by (rule begin_mon) (auto simp: quiet_def thenR_eq_Inr noted_nil dest!: logD split: if_splits)

interpretation m_rmdir: monitored L "rmdir_mon L p1" "real_call L ''rmdir'' ([Text p1])" for L p1
  unfolding rmdir_mon_def by (rule begin_mon) (auto simp: quiet_def thenR_eq_Inr noted_nil dest!: logD split: if_splits)

interpretation m_xstat: monitored L "xstat_mon L p1 p2 p3" "real_call L ''__xstat'' ([Word p1, Text p2, Word p3])" for L p1 p2 p3
  unfolding xstat_mon_def by (rule begin_mon) (auto simp: quiet_def thenR_eq_Inr noted_nil dest!: logD split: if_splits)

interpretation m_lxstat: monitored L "lxstat_mon L p1 p2 p3" "real_call L ''__lxstat'' ([Word p1, Text p2, Word p3])" for L p1 p2 p3
  unfolding lxstat_mon_def by (rule begin_mon) (auto simp: quiet_def thenR_eq_Inr noted_nil dest!: logD split: if_splits)

interpretation m_fputs_unlocked: monitored L "fputs_unlocked_mon L p1 p2" "real_call L ''fputs_unlocked'' ([Word p1, Word p2])" for L p1 p2
  unfolding fputs_unlocked_mon_def by (rule begin_mon) (auto simp: quiet_def thenR_eq_Inr noted_nil dest!: logD split: if_splits)

interpretation m_fflush: monitored L "fflush_mon L p1" "real_call L ''fflush'' ([Word p1])" for L p1
  unfolding fflush_mon_def by (rule begin_mon) (auto simp: quiet_def thenR_eq_Inr noted_nil dest!: logD split: if_splits)

subsection \<open>A monitored program\<close>

text \<open>
  The calls that a program makes.  \<open>seen\<close> is the value that arrives in \<open>rax\<close> for a function
  whose declared return type in the monitor has 32 bits.
\<close>

datatype fs_call =
    C_closedir u64
  | C_opendir string
  | C_readdir u64
  | C_creat string u64
  | C_open string u64 "u64 option"
  | C_read u64 u64 u64
  | C_write u64 u64 u64
  | C_dup u64
  | C_dup2 u64 u64
  | C_close u64
  | C_lstat string u64
  | C_stat string u64
  | C_pwrite u64 u64 u64 u64
  | C_fopen string string
  | C_fclose u64
  | C_fread u64 u64 u64 u64
  | C_fwrite u64 u64 u64 u64
  | C_fwrite_unlocked u64 u64 u64 u64
  | C_fgetc u64
  | C_fgets u64 u64 u64
  | C_fscanf u64 string "carg list"
  | C_fprintf u64 string "carg list"
  | C_chdir string
  | C_chown string u64 u64
  | C_chmod string u64
  | C_remove string
  | C_rename string string
  | C_link string string
  | C_unlink string
  | C_readlink string u64 u64
  | C_symlink string string
  | C_mkdir string u64
  | C_rmdir string
  | C_xstat u64 string u64
  | C_lxstat u64 string u64
  | C_fputs_unlocked u64 u64
  | C_fflush u64

definition seen :: "u64 \<Rightarrow> u64" where
  "seen w = ucast (ucast w :: u32)"

fun with_monitor :: "'k libc \<Rightarrow> fs_call \<Rightarrow> 'k mon \<Rightarrow> (u64 \<times> 'k mon) res" where
  "with_monitor L (C_closedir p1) m = map_sum id (apfst ucast) (closedir_mon L p1 m)"
| "with_monitor L (C_opendir p1) m = map_sum id (apfst ucast) (opendir_mon L p1 m)"
| "with_monitor L (C_readdir p1) m = map_sum id (apfst ucast) (readdir_mon L p1 m)"
| "with_monitor L (C_creat p1 p2) m = map_sum id (apfst ucast) (creat_mon L p1 p2 m)"
| "with_monitor L (C_open p1 p2 mode) m = map_sum id (apfst ucast) (open_mon L p1 p2 m)"
| "with_monitor L (C_read p1 p2 p3) m = map_sum id (apfst ucast) (read_mon L p1 p2 p3 m)"
| "with_monitor L (C_write p1 p2 p3) m = map_sum id (apfst ucast) (write_mon L p1 p2 p3 m)"
| "with_monitor L (C_dup p1) m = map_sum id (apfst ucast) (dup_mon L p1 m)"
| "with_monitor L (C_dup2 p1 p2) m = map_sum id (apfst ucast) (dup2_mon L p1 p2 m)"
| "with_monitor L (C_close p1) m = map_sum id (apfst ucast) (close_mon L p1 m)"
| "with_monitor L (C_lstat p1 p2) m = map_sum id (apfst ucast) (lstat_mon L p1 p2 m)"
| "with_monitor L (C_stat p1 p2) m = map_sum id (apfst ucast) (stat_mon L p1 p2 m)"
| "with_monitor L (C_pwrite p1 p2 p3 p4) m = map_sum id (apfst ucast) (pwrite_mon L p1 p2 p3 p4 m)"
| "with_monitor L (C_fopen p1 p2) m = map_sum id (apfst ucast) (fopen_mon L p1 p2 m)"
| "with_monitor L (C_fclose p1) m = map_sum id (apfst ucast) (fclose_mon L p1 m)"
| "with_monitor L (C_fread p1 p2 p3 p4) m = map_sum id (apfst ucast) (fread_mon L p1 p2 p3 p4 m)"
| "with_monitor L (C_fwrite p1 p2 p3 p4) m = map_sum id (apfst ucast) (fwrite_mon L p1 p2 p3 p4 m)"
| "with_monitor L (C_fwrite_unlocked p1 p2 p3 p4) m = map_sum id (apfst ucast) (fwrite_unlocked_mon L p1 p2 p3 p4 m)"
| "with_monitor L (C_fgetc p1) m = map_sum id (apfst ucast) (fgetc_mon L p1 m)"
| "with_monitor L (C_fgets p1 p2 p3) m = map_sum id (apfst ucast) (fgets_mon L p1 p2 p3 m)"
| "with_monitor L (C_fscanf p1 p2 p3) m = map_sum id (apfst ucast) (fscanf_mon L p1 p2 p3 m)"
| "with_monitor L (C_fprintf p1 p2 p3) m = map_sum id (apfst ucast) (fprintf_mon L p1 p2 p3 m)"
| "with_monitor L (C_chdir p1) m = map_sum id (apfst ucast) (chdir_mon L p1 m)"
| "with_monitor L (C_chown p1 p2 p3) m = map_sum id (apfst ucast) (chown_mon L p1 p2 p3 m)"
| "with_monitor L (C_chmod p1 p2) m = map_sum id (apfst ucast) (chmod_mon L p1 p2 m)"
| "with_monitor L (C_remove p1) m = map_sum id (apfst ucast) (remove_mon L p1 m)"
| "with_monitor L (C_rename p1 p2) m = map_sum id (apfst ucast) (rename_mon L p1 p2 m)"
| "with_monitor L (C_link p1 p2) m = map_sum id (apfst ucast) (link_mon L p1 p2 m)"
| "with_monitor L (C_unlink p1) m = map_sum id (apfst ucast) (unlink_mon L p1 m)"
| "with_monitor L (C_readlink p1 p2 p3) m = map_sum id (apfst ucast) (readlink_mon L p1 p2 p3 m)"
| "with_monitor L (C_symlink p1 p2) m = map_sum id (apfst ucast) (symlink_mon L p1 p2 m)"
| "with_monitor L (C_mkdir p1 p2) m = map_sum id (apfst ucast) (mkdir_mon L p1 p2 m)"
| "with_monitor L (C_rmdir p1) m = map_sum id (apfst ucast) (rmdir_mon L p1 m)"
| "with_monitor L (C_xstat p1 p2 p3) m = map_sum id (apfst ucast) (xstat_mon L p1 p2 p3 m)"
| "with_monitor L (C_lxstat p1 p2 p3) m = map_sum id (apfst ucast) (lxstat_mon L p1 p2 p3 m)"
| "with_monitor L (C_fputs_unlocked p1 p2) m = map_sum id (apfst ucast) (fputs_unlocked_mon L p1 p2 m)"
| "with_monitor L (C_fflush p1) m = map_sum id (apfst ucast) (fflush_mon L p1 m)"

text \<open>The function of the library that a call reaches without the monitor, and its arguments.\<close>

fun called :: "'k libc \<Rightarrow> 'k \<Rightarrow> fs_call \<Rightarrow> string \<times> carg list" where
  "called L k (C_closedir p1) = (''closedir'', [Word p1])"
| "called L k (C_opendir p1) = (''opendir'', [Text p1])"
| "called L k (C_readdir p1) = (''readdir'', [Word p1])"
| "called L k (C_creat p1 p2) = (''creat'', [Text p1, Word p2])"
| "called L k (C_open p1 p2 mode) = (''open'', open_args L p1 p2 mode k)"
| "called L k (C_read p1 p2 p3) = (''read'', [Word p1, Word p2, Word p3])"
| "called L k (C_write p1 p2 p3) = (''write'', [Word p1, Word p2, Word p3])"
| "called L k (C_dup p1) = (''dup'', [Word p1])"
| "called L k (C_dup2 p1 p2) = (''dup2'', [Word p1, Word p2])"
| "called L k (C_close p1) = (''close'', [Word p1])"
| "called L k (C_lstat p1 p2) = (''lstat'', [Text p1, Word p2])"
| "called L k (C_stat p1 p2) = (''stat'', [Text p1, Word p2])"
| "called L k (C_pwrite p1 p2 p3 p4) = (''pwrite'', [Word p1, Word p2, Word p3, Word p4])"
| "called L k (C_fopen p1 p2) = (''fopen'', [Text p1, Text p2])"
| "called L k (C_fclose p1) = (''fclose'', [Word p1])"
| "called L k (C_fread p1 p2 p3 p4) = (''fread'', [Word p1, Word p2, Word p3, Word p4])"
| "called L k (C_fwrite p1 p2 p3 p4) = (''fwrite'', [Word p1, Word p2, Word p3, Word p4])"
| "called L k (C_fwrite_unlocked p1 p2 p3 p4) = (''fwrite_unlocked'', [Word p1, Word p2, Word p3, Word p4])"
| "called L k (C_fgetc p1) = (''fgetc'', [Word p1])"
| "called L k (C_fgets p1 p2 p3) = (''fgets'', [Word p1, Word p2, Word p3])"
| "called L k (C_fscanf p1 p2 p3) = (''vfscanf'', Word p1 # Text p2 # p3)"
| "called L k (C_fprintf p1 p2 p3) = (''vfprintf'', Word p1 # Text p2 # p3)"
| "called L k (C_chdir p1) = (''chdir'', [Text p1])"
| "called L k (C_chown p1 p2 p3) = (''chown'', [Text p1, Word p2, Word p3])"
| "called L k (C_chmod p1 p2) = (''chmod'', [Text p1, Word p2])"
| "called L k (C_remove p1) = (''remove'', [Text p1])"
| "called L k (C_rename p1 p2) = (''rename'', [Text p1, Text p2])"
| "called L k (C_link p1 p2) = (''link'', [Text p1, Text p2])"
| "called L k (C_unlink p1) = (''unlink'', [Text p1])"
| "called L k (C_readlink p1 p2 p3) = (''readlink'', [Text p1, Word p2, Word p3])"
| "called L k (C_symlink p1 p2) = (''symlink'', [Text p1, Text p2])"
| "called L k (C_mkdir p1 p2) = (''mkdir'', [Text p1, Word p2])"
| "called L k (C_rmdir p1) = (''rmdir'', [Text p1])"
| "called L k (C_xstat p1 p2 p3) = (''__xstat'', [Word p1, Text p2, Word p3])"
| "called L k (C_lxstat p1 p2 p3) = (''__lxstat'', [Word p1, Text p2, Word p3])"
| "called L k (C_fputs_unlocked p1 p2) = (''fputs_unlocked'', [Word p1, Word p2])"
| "called L k (C_fflush p1) = (''fflush'', [Word p1])"

fun int_result :: "fs_call \<Rightarrow> bool" where
  "int_result (C_opendir p1) = False"
| "int_result (C_readdir p1) = False"
| "int_result (C_read p1 p2 p3) = False"
| "int_result (C_write p1 p2 p3) = False"
| "int_result (C_pwrite p1 p2 p3 p4) = False"
| "int_result (C_fopen p1 p2) = False"
| "int_result (C_fread p1 p2 p3 p4) = False"
| "int_result (C_fwrite p1 p2 p3 p4) = False"
| "int_result (C_fwrite_unlocked p1 p2 p3 p4) = False"
| "int_result (C_fgets p1 p2 p3) = False"
| "int_result (C_readlink p1 p2 p3) = False"
| "int_result c = True"

definition bare :: "'k libc \<Rightarrow> fs_call \<Rightarrow> 'k \<Rightarrow> u64 \<times> 'k" where
  "bare L c k =
     (let (f, args) = called L k c; (r, k') = real_call L f args k in (if int_result c then seen r else r, k'))"

lemma bare_simps [simp]:
  "bare L (C_closedir p1_0) k = apfst seen (real_call L ''closedir'' ([Word p1_0]) k)"
  "bare L (C_opendir p1_1) k = (real_call L ''opendir'' ([Text p1_1]) k)"
  "bare L (C_readdir p1_2) k = (real_call L ''readdir'' ([Word p1_2]) k)"
  "bare L (C_creat p1_3 p2_3) k = apfst seen (real_call L ''creat'' ([Text p1_3, Word p2_3]) k)"
  "bare L (C_open p1_4 p2_4 mode) k = apfst seen (real_call L ''open'' (open_args L p1_4 p2_4 mode k) k)"
  "bare L (C_read p1_5 p2_5 p3_5) k = (real_call L ''read'' ([Word p1_5, Word p2_5, Word p3_5]) k)"
  "bare L (C_write p1_6 p2_6 p3_6) k = (real_call L ''write'' ([Word p1_6, Word p2_6, Word p3_6]) k)"
  "bare L (C_dup p1_7) k = apfst seen (real_call L ''dup'' ([Word p1_7]) k)"
  "bare L (C_dup2 p1_8 p2_8) k = apfst seen (real_call L ''dup2'' ([Word p1_8, Word p2_8]) k)"
  "bare L (C_close p1_9) k = apfst seen (real_call L ''close'' ([Word p1_9]) k)"
  "bare L (C_lstat p1_10 p2_10) k = apfst seen (real_call L ''lstat'' ([Text p1_10, Word p2_10]) k)"
  "bare L (C_stat p1_11 p2_11) k = apfst seen (real_call L ''stat'' ([Text p1_11, Word p2_11]) k)"
  "bare L (C_pwrite p1_12 p2_12 p3_12 p4_12) k = (real_call L ''pwrite'' ([Word p1_12, Word p2_12, Word p3_12, Word p4_12]) k)"
  "bare L (C_fopen p1_13 p2_13) k = (real_call L ''fopen'' ([Text p1_13, Text p2_13]) k)"
  "bare L (C_fclose p1_14) k = apfst seen (real_call L ''fclose'' ([Word p1_14]) k)"
  "bare L (C_fread p1_15 p2_15 p3_15 p4_15) k = (real_call L ''fread'' ([Word p1_15, Word p2_15, Word p3_15, Word p4_15]) k)"
  "bare L (C_fwrite p1_16 p2_16 p3_16 p4_16) k = (real_call L ''fwrite'' ([Word p1_16, Word p2_16, Word p3_16, Word p4_16]) k)"
  "bare L (C_fwrite_unlocked p1_17 p2_17 p3_17 p4_17) k = (real_call L ''fwrite_unlocked'' ([Word p1_17, Word p2_17, Word p3_17, Word p4_17]) k)"
  "bare L (C_fgetc p1_18) k = apfst seen (real_call L ''fgetc'' ([Word p1_18]) k)"
  "bare L (C_fgets p1_19 p2_19 p3_19) k = (real_call L ''fgets'' ([Word p1_19, Word p2_19, Word p3_19]) k)"
  "bare L (C_fscanf p1_20 p2_20 p3_20) k = apfst seen (real_call L ''vfscanf'' (Word p1_20 # Text p2_20 # p3_20) k)"
  "bare L (C_fprintf p1_21 p2_21 p3_21) k = apfst seen (real_call L ''vfprintf'' (Word p1_21 # Text p2_21 # p3_21) k)"
  "bare L (C_chdir p1_22) k = apfst seen (real_call L ''chdir'' ([Text p1_22]) k)"
  "bare L (C_chown p1_23 p2_23 p3_23) k = apfst seen (real_call L ''chown'' ([Text p1_23, Word p2_23, Word p3_23]) k)"
  "bare L (C_chmod p1_24 p2_24) k = apfst seen (real_call L ''chmod'' ([Text p1_24, Word p2_24]) k)"
  "bare L (C_remove p1_25) k = apfst seen (real_call L ''remove'' ([Text p1_25]) k)"
  "bare L (C_rename p1_26 p2_26) k = apfst seen (real_call L ''rename'' ([Text p1_26, Text p2_26]) k)"
  "bare L (C_link p1_27 p2_27) k = apfst seen (real_call L ''link'' ([Text p1_27, Text p2_27]) k)"
  "bare L (C_unlink p1_28) k = apfst seen (real_call L ''unlink'' ([Text p1_28]) k)"
  "bare L (C_readlink p1_29 p2_29 p3_29) k = (real_call L ''readlink'' ([Text p1_29, Word p2_29, Word p3_29]) k)"
  "bare L (C_symlink p1_30 p2_30) k = apfst seen (real_call L ''symlink'' ([Text p1_30, Text p2_30]) k)"
  "bare L (C_mkdir p1_31 p2_31) k = apfst seen (real_call L ''mkdir'' ([Text p1_31, Word p2_31]) k)"
  "bare L (C_rmdir p1_32) k = apfst seen (real_call L ''rmdir'' ([Text p1_32]) k)"
  "bare L (C_xstat p1_33 p2_33 p3_33) k = apfst seen (real_call L ''__xstat'' ([Word p1_33, Text p2_33, Word p3_33]) k)"
  "bare L (C_lxstat p1_34 p2_34 p3_34) k = apfst seen (real_call L ''__lxstat'' ([Word p1_34, Text p2_34, Word p3_34]) k)"
  "bare L (C_fputs_unlocked p1_35 p2_35) k = apfst seen (real_call L ''fputs_unlocked'' ([Word p1_35, Word p2_35]) k)"
  "bare L (C_fflush p1_36) k = apfst seen (real_call L ''fflush'' ([Word p1_36]) k)"
  by (simp_all add: bare_def split_beta apfst_def map_prod_def)

text \<open>\<open>read\<close> and \<open>write\<close> return \<open>ssize_t\<close>, but the monitor declares them \<open>int\<close>.\<close>

fun narrowed :: "fs_call \<Rightarrow> bool" where
  "narrowed (C_read p1 p2 p3) = True"
| "narrowed (C_write p1 p2 p3) = True"
| "narrowed c = False"

definition arrives :: "fs_call \<Rightarrow> u64 \<Rightarrow> u64" where
  "arrives c r = (if narrowed c then seen r else r)"

text \<open>What a call becomes behind the hook: \<open>open\<close> loses the mode.\<close>

fun passed :: "'k libc \<Rightarrow> 'k \<Rightarrow> fs_call \<Rightarrow> fs_call" where
  "passed L k (C_open p f mode) = C_open p f (if needs_mode f then Some (third_arg L k) else mode)"
| "passed L k c = c"

fun creates :: "fs_call \<Rightarrow> bool" where
  "creates (C_open p f mode) = needs_mode f"
| "creates c = False"

text \<open>The same call, but for an arbitrary mode where one is needed.\<close>

fun passed_on :: "fs_call \<Rightarrow> fs_call \<Rightarrow> bool" where
  "passed_on (C_open p f mode) c' =
     (case c' of
        C_open p' f' mode' \<Rightarrow> p' = p \<and> f' = f \<and> (if needs_mode f then mode' \<noteq> None else mode' = mode)
      | _ \<Rightarrow> False)"
| "passed_on c c' = (c' = c)"

fun run_monitored :: "'k libc \<Rightarrow> fs_call list \<Rightarrow> 'k mon \<Rightarrow> (u64 list \<times> 'k mon) res" where
  "run_monitored L [] m = Inr ([], m)"
| "run_monitored L (c # cs) m =
     thenR (with_monitor L c m) (\<lambda>(r, m). thenR (run_monitored L cs m) (\<lambda>(rs, m). Inr (r # rs, m)))"

fun run_bare :: "'k libc \<Rightarrow> fs_call list \<Rightarrow> 'k \<Rightarrow> u64 list \<times> 'k" where
  "run_bare L [] k = ([], k)"
| "run_bare L (c # cs) k =
     (let (r, k) = bare L c k; (rs, k) = run_bare L cs k in (r # rs, k))"

lemmas through_all =
  m_closedir.through_wide
  m_opendir.through_wide
  m_readdir.through_wide
  m_creat.through_wide
  m_open.through_wide
  m_read.through_wide
  m_write.through_wide
  m_dup.through_wide
  m_dup2.through_wide
  m_close.through_wide
  m_lstat.through_wide
  m_stat.through_wide
  m_pwrite.through_wide
  m_fopen.through_wide
  m_fclose.through_wide
  m_fread.through_wide
  m_fwrite.through_wide
  m_fwrite_unlocked.through_wide
  m_fgetc.through_wide
  m_fgets.through_wide
  m_fscanf.through_wide
  m_fprintf.through_wide
  m_chdir.through_wide
  m_chown.through_wide
  m_chmod.through_wide
  m_remove.through_wide
  m_rename.through_wide
  m_link.through_wide
  m_unlink.through_wide
  m_readlink.through_wide
  m_symlink.through_wide
  m_mkdir.through_wide
  m_rmdir.through_wide
  m_xstat.through_wide
  m_lxstat.through_wide
  m_fputs_unlocked.through_wide
  m_fflush.through_wide

lemma passed_on_passed: "passed_on c (passed L k c)"
  by (cases c) simp_all

lemma passed_same: "\<not> creates c \<Longrightarrow> passed L k c = c"
  by (cases c) simp_all

lemma passed_on_same: "passed_on c c' \<Longrightarrow> \<not> creates c \<Longrightarrow> c' = c"
  by (cases c) (auto split: fs_call.splits)

lemma open_args_fill:
  "open_args L p f (if needs_mode f then Some (third_arg L k) else mode) k = open_args L p f None k"
  by (simp add: open_args_def)

lemma with_monitor_bare:
  "with_monitor L c m = Inr (r, m') \<Longrightarrow>
     r = arrives c (fst (bare L (passed L (world m) c) (world m))) \<and>
     (\<exists>es. logged m' = logged m @ es \<and> noted L (snd (bare L (passed L (world m) c) (world m))) (world m') es)"
  by (cases c; simp only: with_monitor.simps passed.simps arrives_def bare_simps narrowed.simps open_args_fill if_True if_False;
      drule through_all)
     (auto simp: seen_def apfst_def map_prod_def split_beta)

subsection \<open>A log that the program does not notice\<close>

text \<open>
  Two states of the system are alike for a program when they agree in \<open>view\<close>, what it can
  observe, and in the streams that are open (with their descriptors).  The contract: opening
  the log, writing to it, and closing it act on the streams as \<open>fopen\<close>, \<open>vfprintf\<close> and \<open>fclose\<close>
  are documented to act, and else on nothing in the view; so does a line on the standard
  error.  The view has neither \<open>errno\<close> nor what is in the log and on the standard error.  A
  call that is \<open>apart\<close> from these, and what the monitor looks up, depend only on the view
  and on the streams.
\<close>

definition alike :: "('k \<Rightarrow> 'v) \<Rightarrow> ('k \<Rightarrow> u64 set) \<Rightarrow> 'k \<Rightarrow> 'k \<Rightarrow> bool" where
  "alike view streams k1 k2 \<longleftrightarrow> view k1 = view k2 \<and> streams k1 = streams k2"

locale separate_log =
  fixes L :: "'k libc" and view :: "'k \<Rightarrow> 'v" and streams :: "'k \<Rightarrow> u64 set"
    and apart :: "string \<Rightarrow> carg list \<Rightarrow> bool"
  assumes open_log: "monitor_output L k = Some f \<Longrightarrow> real_call L ''fopen'' [Text f, Text ''a''] k = (fp, k') \<Longrightarrow> fp \<noteq> 0 \<Longrightarrow>
      fp \<notin> streams k \<and> streams k' = insert fp (streams k) \<and> view k' = view k"
    and put_log: "monitor_output L k = Some f \<Longrightarrow> real_call L ''fopen'' [Text f, Text ''a''] k = (fp, k') \<Longrightarrow> fp \<noteq> 0 \<Longrightarrow>
      streams (put_text L fp t k') = streams k' \<and> view (put_text L fp t k') = view k'"
    and close_log: "monitor_output L k = Some f \<Longrightarrow> real_call L ''fopen'' [Text f, Text ''a''] k = (fp, k') \<Longrightarrow> fp \<noteq> 0 \<Longrightarrow>
      streams (snd (real_call L ''fclose'' [Word fp] (put_text L fp t k'))) = streams (put_text L fp t k') - {fp} \<and>
      view (snd (real_call L ''fclose'' [Word fp] (put_text L fp t k'))) = view (put_text L fp t k')"
    and put_err: "streams (put_text L (std_err L) t k) = streams k \<and> view (put_text L (std_err L) t k) = view k"
    and call_apart: "apart func args \<Longrightarrow> alike view streams k1 k2 \<Longrightarrow>
      fst (real_call L func args k1) = fst (real_call L func args k2) \<and>
      alike view streams (snd (real_call L func args k1)) (snd (real_call L func args k2))"
    and same_log: "alike view streams k1 k2 \<Longrightarrow>
      monitor_output L k1 = monitor_output L k2 \<and> log_opens L k1 = log_opens L k2"
    and same_names: "alike view streams k1 k2 \<Longrightarrow>
      fileno L a k1 = fileno L a k2 \<and> dirfd L a k1 = dirfd L a k2 \<and> real_readlink L p k1 = real_readlink L p k2"
    and same_texts: "alike view streams k1 k2 \<Longrightarrow>
      text_at L a k1 = text_at L a k2 \<and> d_name_at L a k1 = d_name_at L a k2 \<and> stat_at L a k1 = stat_at L a k2"
begin

lemma line_unnoticed: "log_opens L k \<Longrightarrow> alike view streams (after_line L t k) k"
proof -
  assume opens: "log_opens L k"
  show ?thesis
  proof (cases "monitor_output L k")
    case None
    then show ?thesis using put_err by (simp add: after_line_def alike_def)
  next
    case (Some f)
    obtain fp k1 where fp: "real_call L ''fopen'' [Text f, Text ''a''] k = (fp, k1)" "fp \<noteq> 0"
      using opens Some by (cases "real_call L ''fopen'' [Text f, Text ''a''] k") (auto simp: log_opens_def)
    show ?thesis
      using open_log [OF Some fp] put_log [OF Some fp, of t] close_log [OF Some fp, of t]
      by (simp add: after_line_def alike_def Some fp(1))
  qed
qed

lemma noted_unnoticed: "noted L k k' es \<Longrightarrow> alike view streams k' k"
  using line_unnoticed by (auto simp: noted_def alike_def)

end

lemma alike_trans: "alike view streams k1 k2 \<Longrightarrow> alike view streams k2 k3 \<Longrightarrow> alike view streams k1 k3"
  by (simp add: alike_def)

lemma alike_sym: "alike view streams k1 k2 \<Longrightarrow> alike view streams k2 k1"
  by (simp add: alike_def)

text \<open>The call that reaches the library keeps apart from the log.\<close>

definition set_apart :: "'k libc \<Rightarrow> (string \<Rightarrow> carg list \<Rightarrow> bool) \<Rightarrow> fs_call \<Rightarrow> bool" where
  "set_apart L apart c \<longleftrightarrow> (\<forall>c' k. passed_on c c' \<longrightarrow> apart (fst (called L k c')) (snd (called L k c')))"

lemma called_passed_on: "passed_on c c' \<Longrightarrow> called L k1 c' = called L k2 c'"
  by (cases c) (auto simp: open_args_def split: fs_call.splits if_splits)

lemma noted_length: "noted L k k' es \<Longrightarrow> length es \<le> 1"
  by (auto simp: noted_def)

context separate_log
begin

lemma bare_alike:
  assumes "set_apart L apart c" "passed_on c c'" "alike view streams k1 k2"
  shows "fst (bare L c' k1) = fst (bare L c' k2)" "alike view streams (snd (bare L c' k1)) (snd (bare L c' k2))"
proof -
  have "called L k1 c' = called L k2 c'" by (rule called_passed_on [OF assms(2)])
  moreover have "apart (fst (called L k2 c')) (snd (called L k2 c'))" using assms(1,2) by (simp add: set_apart_def)
  ultimately show "fst (bare L c' k1) = fst (bare L c' k2)" "alike view streams (snd (bare L c' k1)) (snd (bare L c' k2))"
    using call_apart [OF _ assms(3)] by (simp_all add: bare_def split_beta)
qed

lemma monitored_alike:
  assumes "run_monitored L cs m = Inr (rs, m')" "\<forall>c\<in>set cs. set_apart L apart c" "alike view streams (world m) k"
  shows "\<exists>cs' rs' k'. list_all2 passed_on cs cs' \<and> run_bare L cs' k = (rs', k') \<and> rs = map2 arrives cs rs' \<and>
    alike view streams (world m') k' \<and> (\<exists>es. logged m' = logged m @ es \<and> length es \<le> length cs)"
  using assms
proof (induction cs arbitrary: m rs k)
  case (Cons c cs)
  from Cons.prems(1) obtain r m1 rs1 where
    1: "with_monitor L c m = Inr (r, m1)" "run_monitored L cs m1 = Inr (rs1, m')" "rs = r # rs1"
    by (auto simp: thenR_eq_Inr)
  let ?c = "passed L (world m) c"
  obtain es where r: "r = arrives c (fst (bare L ?c (world m)))"
    and es: "logged m1 = logged m @ es" "noted L (snd (bare L ?c (world m))) (world m1) es"
    using with_monitor_bare [OF 1(1)] by blast
  have apart: "set_apart L apart c" using Cons.prems(2) by simp
  note b = bare_alike [OF apart passed_on_passed Cons.prems(3), of L "world m"]
  have "alike view streams (world m1) (snd (bare L ?c k))"
    using alike_trans [OF noted_unnoticed [OF es(2)] b(2)] .
  from Cons.IH [OF 1(2) _ this] Cons.prems(2) obtain cs' rs' k' e2 where
    rest: "list_all2 passed_on cs cs'" "run_bare L cs' (snd (bare L ?c k)) = (rs', k')" "rs1 = map2 arrives cs rs'"
      "alike view streams (world m') k'" "logged m' = logged m1 @ e2" "length e2 \<le> length cs" by auto
  have "run_bare L (?c # cs') k = (fst (bare L ?c k) # rs', k')" using rest(2) by (simp add: split_beta)
  moreover have "list_all2 passed_on (c # cs) (?c # cs')" using rest(1) passed_on_passed by simp
  moreover have "rs = map2 arrives (c # cs) (fst (bare L ?c k) # rs')" using 1(3) r b(1) rest(3) by simp
  moreover have "logged m' = logged m @ es @ e2" "length (es @ e2) \<le> length (c # cs)"
    using es(1) rest(5,6) noted_length [OF es(2)] by simp_all
  ultimately show ?case using rest(4) by blast
qed simp

end

lemma passed_on_all: "list_all2 passed_on cs cs' \<Longrightarrow> \<forall>c\<in>set cs. \<not> creates c \<Longrightarrow> cs' = cs"
  by (induction rule: list_all2_induct) (auto dest: passed_on_same)

text \<open>
  C13: a program under the monitor.  As long as no hook runs into a fault, a sequence of
  monitored calls has the results and the effects of the same calls without the monitor, in
  which the writing of the log leaves no trace (no stream stays open), and at most one line
  is written for each; except that of the results of \<open>read\<close> and \<open>write\<close> only the low 32 bits
  arrive, and that an \<open>open\<close> that creates a file gets an arbitrary mode in place of the
  program's.  Without such an \<open>open\<close> the calls are exactly those of the program.
\<close>

theorem monitor_is_transparent:
  assumes "separate_log L view streams apart"
    and "run_monitored L cs m = Inr (rs, m')" "\<forall>c\<in>set cs. set_apart L apart c"
  shows "\<exists>cs' rs' k'. list_all2 passed_on cs cs' \<and> ((\<forall>c\<in>set cs. \<not> creates c) \<longrightarrow> cs' = cs) \<and>
    run_bare L cs' (world m) = (rs', k') \<and> rs = map2 arrives cs rs' \<and> alike view streams (world m') k' \<and>
    (\<exists>es. logged m' = logged m @ es \<and> length es \<le> length cs)"
proof -
  have "alike view streams (world m) (world m)" by (simp add: alike_def)
  from separate_log.monitored_alike [OF assms this] passed_on_all show ?thesis by metis
qed

subsection \<open>Names\<close>

text \<open>The destination of the lines.\<close>

definition log_to :: "'k libc \<Rightarrow> 'k \<Rightarrow> string option \<Rightarrow> bool" where
  "log_to L k dest \<longleftrightarrow> monitor_output L k = dest \<and> log_opens L k"

lemma write_msg_log_to:
  "log_to L (world m) dest \<Longrightarrow>
     write_msg L t m = Inr (m\<lparr>world := after_line L t (world m), logged := logged m @ [(dest, t)]\<rparr>)"
  by (simp add: log_to_def write_msg_eq)

text \<open>The link of a descriptor.\<close>

definition fd_path :: "int \<Rightarrow> string" where
  "fd_path fd = ''/proc/self/fd/'' @ show_d fd"

lemma fd_path_fits: "- (2 ^ 31) \<le> fd \<Longrightarrow> fd < 2 ^ 31 \<Longrightarrow> length (fd_path fd) < 64"
proof -
  assume fd: "- (2 ^ 31) \<le> fd" "fd < 2 ^ 31"
  have "nat (- fd) < 10 ^ 10" "nat fd < 10 ^ 10" using fd by simp_all
  then have "length (show_base 10 (nat (- fd))) \<le> 10" "length (show_base 10 (nat fd)) \<le> 10"
    by (intro length_show_base_le; simp)+
  then show ?thesis by (simp add: fd_path_def show_d_def)
qed

subsection \<open>Texts\<close>

text \<open>
  a text that ends in a newline is shown with a backslash and an \<open>n\<close>, behind the
  contents of a buffer that keeps the tail of what was shown before: the line shows the
  text itself only when the buffer happens to hold a zero at the right place.
\<close>

theorem verbose_newline_tail:
  assumes "length (buff1 m) = 128" "length s < 128" "NUL \<notin> set s" "NUL \<in> set (drop (length s) (buff1 m))"
  shows "\<exists>m'. convert_to_verbose_newline (Some (s @ newline)) m =
      Inr (Some (s @ c_string (drop (length s) (buff1 m)) @ [CHR 0x5C, CHR ''n'']), m') \<and>
    buff1 m' = s @ drop (length s) (buff1 m) \<and> length (buff1 m') = 128 \<and>
    (c_string (drop (length s) (buff1 m)) = [] \<longleftrightarrow> buff1 m ! length s = NUL)"
proof -
  let ?t = "drop (length s) (buff1 m)"
  have c: "c_string (s @ ?t) = s @ c_string ?t" using assms(3) unfolding c_string_def by (intro takeWhile_append2) auto
  have "length (c_string ?t) \<le> 127 - length s"
  proof -
    obtain a b where ab: "?t = a @ NUL # b" using assms(4) by (meson split_list)
    then have "length (c_string ?t) \<le> length a" unfolding c_string_def by (simp add: takeWhile_append length_takeWhile_le)
    moreover have "length a + 1 + length b = 128 - length s" using ab assms(1) by (metis (no_types) length_append length_Cons length_drop add.assoc plus_1_eq_Suc)
    ultimately show ?thesis by simp
  qed
  moreover have "c_string ?t = [] \<longleftrightarrow> buff1 m ! length s = NUL"
    using assms(1,2) by (simp add: c_string_def takeWhile_eq_Nil_iff hd_drop_conv_nth)
  ultimately show ?thesis using assms c by (simp add: convert_to_verbose_newline_def Let_def)
qed

lemma length_file_type: "length (file_type st_mode) \<le> 16"
  by (simp add: file_type_def Let_def)

text \<open>
  the description of a file fits its buffers, whatever the mode and the size.
\<close>

lemma verbose_stat_fits_eq:
  assumes "st_mode < 0x10000"
  shows "get_verbose_stat (st_mode, st_size) =
    Inr (''{type='' @ file_type st_mode @ '', mode='' @ fmt_d st_mode @ '', size='' @ fmt_ld st_size @ ''}'')"
proof -
  note t = length_file_type [of st_mode]
  have mode: "length (fmt_d st_mode) \<le> 5"
  proof -
    have u: "unat st_mode < 65536" using assms by (simp add: word_less_nat_alt)
    then have "uint st_mode < 2 ^ 31" unfolding uint_nat by (simp del: of_nat_unat)
    then have "sint st_mode = int (unat st_mode)"
      unfolding sint_uint uint_nat by (intro signed_take_bit_int_eq_self) (simp_all del: of_nat_unat)
    moreover have "length (show_base 10 (unat st_mode)) \<le> 5" using u by (intro length_show_base_le) simp_all
    ultimately show ?thesis by (simp add: fmt_d_def show_d_def)
  qed
  have sz: "length (fmt_ld st_size) \<le> 20"
  proof -
    have "nat (- sint st_size) < 10 ^ 19" "nat (sint st_size) < 10 ^ 19"
      using sint_greater_eq [of st_size] sint_less [of st_size] by simp_all
    then have "length (show_base 10 (nat (- sint st_size))) \<le> 19" "length (show_base 10 (nat (sint st_size))) \<le> 19"
      by (intro length_show_base_le; simp)+
    then show ?thesis by (simp add: fmt_ld_def show_d_def)
  qed
  show ?thesis using t mode sz by (simp add: get_verbose_stat_def store_s_def)
qed

end
