(* ===== verification/Tool_Sessions.thy ===== *)
theory Tool_Sessions
  imports Net_Main Fs_Monitor
begin

text \<open>
  Concrete runs of the connection lister and of the file system monitor: a line of
  \<^verbatim>\<open>/proc/net/tcp\<close>, a process table with two processes, and a C library whose state is the
  list of open descriptors.
\<close>

subsection \<open>Connections\<close>

definition blank_stack :: stack where
  "blank_stack = \<lparr>old_port = 0, old_in_addr = 0, old_in6_addr = replicate 16 7\<rparr>"

definition blank_entry :: connection_entry where
  "blank_entry = \<lparr>ip_proto = ''tcp'', local_addr = [], local_port = [], remote_addr = [], remote_port = [],
     pid = 99, inode = 0\<rparr>"

definition tcp_line :: string where
  "tcp_line = ''  0: 0100007F:0035 00000000:0000 0A 0:0 0:0 0 101 0 12345 1'' @ newline"

lemma tcp_tokens:
  "strtok_all (\<lambda>c. c = CHR '' '') tcp_line =
     [''0:'', ''0100007F:0035'', ''00000000:0000'', ''0A'', ''0:0'', ''0:0'', ''0'', ''101'', ''0'', ''12345''] @ [''1'' @ newline]"
  by (simp add: tcp_line_def strtok_all.simps)

lemma pair_tokenI:
  "hex_digits a n \<Longrightarrow> hex_digits p v \<Longrightarrow> v < 65536 \<Longrightarrow> tok = a @ CHR '':'' # p \<Longrightarrow> pair_token tok n v"
  by (auto simp: pair_token_def)

lemma hex_samples:
  "hex_digits ''0100007F'' 0x0100007F" "hex_digits ''0035'' 53" "hex_digits ''00000000'' 0" "hex_digits ''0000'' 0"
  by (simp_all add: hex_digits_def is_digit_of_def digit_val_def digits_value_def)

lemma tcp_line_facts:
  "pair_token ''0100007F:0035'' 0x0100007F 53" "pair_token ''00000000:0000'' 0 0" "scan_d ''12345'' = Some 12345"
proof -
  show "pair_token ''0100007F:0035'' 0x0100007F 53" by (rule pair_tokenI [OF hex_samples(1,2)]) simp_all
  show "pair_token ''00000000:0000'' 0 0" by (rule pair_tokenI [OF hex_samples(3,4)]) simp_all
  show "scan_d ''12345'' = Some 12345" by code_simp
qed

definition tcp_entry :: connection_entry where
  "tcp_entry = \<lparr>ip_proto = ''tcp'', local_addr = ''127.0.0.1'', local_port = ''53'', remote_addr = ''0.0.0.0'', remote_port = ''*'',
     pid = 99, inode = 12345\<rparr>"

lemma tcp_texts: "ntop4 0x0100007F = ''127.0.0.1''" "ntop4 0 = ''0.0.0.0''" "show_d 53 = ''53''"
  by code_simp+

theorem parse_line_fields_witness: "parse_line (\<lambda>_. []) (\<lambda>_. blank_stack) tcp_line blank_entry False = Inr tcp_entry"
  using parse_line_fields [OF tcp_tokens _ tcp_line_facts(1) _ tcp_line_facts(2) _ tcp_line_facts(3), of "\<lambda>_. []" "\<lambda>_. blank_stack" blank_entry]
  by (simp add: port_shown_def blank_stack_def blank_entry_def tcp_entry_def tcp_texts)

theorem ipv6_addresses_collapse_witness:
  "parse_addr_port_pair (map (char_of \<circ> unat)) blank_stack ''20010db8000000000000000000000001:0016'' True =
   parse_addr_port_pair (map (char_of \<circ> unat)) blank_stack ''fe800000000000000000000000000001:0016'' True"
proof -
  have h: "hex_digits ''20010db8000000000000000000000001'' 0x20010db8000000000000000000000001"
    "hex_digits ''fe800000000000000000000000000001'' 0xfe800000000000000000000000000001" "hex_digits ''0016'' 22"
    by (simp_all add: hex_digits_def is_digit_of_def digit_val_def digits_value_def)
  have 1: "pair_token ''20010db8000000000000000000000001:0016'' 0x20010db8000000000000000000000001 22"
    by (rule pair_tokenI [OF h(1,3)]) simp_all
  have 2: "pair_token ''fe800000000000000000000000000001:0016'' 0xfe800000000000000000000000000001 22"
    by (rule pair_tokenI [OF h(2,3)]) simp_all
  show ?thesis using ipv6_addresses_collapse [OF 1 _ 2, of "map (char_of \<circ> unat)" blank_stack] by simp
qed

definition small_proc :: net_env where
  "small_proc = \<lparr>file_lines = (\<lambda>f. Some (if f = ''/proc/net/tcp'' then [''head'', tcp_line] else [''head''])),
     dir_names = (\<lambda>d. if d = ''/proc'' then Some [''self'', ''42''] else if d = ''/proc/42/fd'' then Some [''.'', ''0'', ''3''] else None),
     link_text = (\<lambda>l. if l = ''/proc/42/fd/0'' then Some ''/dev/null'' else if l = ''/proc/42/fd/3'' then Some ''socket:[12345]'' else None),
     cmdline_of = (\<lambda>p. if p = 42 then Some (''sshd'' @ [NUL] @ ''-D'' @ [NUL]) else None),
     ntop6_of = \<lambda>_. []\<rparr>"

definition small_junk :: junk where
  "small_junk = \<lparr>j_stack = \<lambda>_ _ _. blank_stack, j_entry = \<lambda>_ _. blank_entry, j_buffer = \<lambda>_. ''xyz'', j_inode = \<lambda>_. 0\<rparr>"

definition small_table :: "proc_item list" where
  "small_table = [Other_Entry ''self'', Process 42 [(''.'', None), (''0'', None), (''3'', Some 12345)]]"

lemma digit_chars:
  "digit_char 0 = CHR ''0''"
  "digit_char (Suc 0) = CHR ''1''"
  "digit_char 2 = CHR ''2''"
  "digit_char 3 = CHR ''3''"
  "digit_char 4 = CHR ''4''"
  "digit_char 5 = CHR ''5''"
  "digit_char 6 = CHR ''6''"
  "digit_char 7 = CHR ''7''"
  "digit_char 8 = CHR ''8''"
  "digit_char 9 = CHR ''9''"
  by (simp_all add: digit_char_def char_of_def bit_Suc_0_iff)

lemma small_names: "show_d 42 = ''42''" "show_d 12345 = ''12345''"
  by (simp_all add: show_d_def show_base.simps digit_chars)

lemma small_table_shown:
  "dir_names small_proc ''/proc'' = Some (map item_name small_table)" "list_all (item_shown small_proc) small_table"
  by (simp_all add: small_proc_def small_table_def small_names fd_dir_def socket_link_def is_digit_def is_digit_of_def digit_val_def)

theorem find_owners_assigns_witness:
  "find_owners small_proc small_junk [blank_entry\<lparr>inode := 12345\<rparr>, blank_entry\<lparr>inode := 7\<rparr>] =
     Inr [blank_entry\<lparr>inode := 12345, pid := 42\<rparr>, blank_entry\<lparr>inode := 7\<rparr>]"
  using find_owners_assigns [OF small_table_shown, of small_junk "[blank_entry\<lparr>inode := 12345\<rparr>, blank_entry\<lparr>inode := 7\<rparr>]"]
  by (simp add: small_table_def with_owner_def List.map_filter_simps upt_rec)

theorem select_entries_exact_witness:
  "select_entries (cmdline_of small_proc) ''ssh'' ''tcp'' [blank_entry\<lparr>pid := 42\<rparr>] = Inr [blank_entry\<lparr>pid := 42\<rparr>] \<and>
   select_entries (cmdline_of small_proc) ''ssh'' ''tcp'' [blank_entry] \<noteq> Inr []"
proof -
  have "shown_cmd (cmdline_of small_proc) 42 = [] @ ''ssh'' @ ''d''"
    by (simp add: shown_cmd_def small_proc_def c_string_def first_line_def)
  then have "\<exists>a b. shown_cmd (cmdline_of small_proc) 42 = a @ ''ssh'' @ b" by blast
  then show ?thesis
    using select_entries_exact [of "cmdline_of small_proc" "''ssh''" "''tcp''" "[blank_entry\<lparr>pid := 42\<rparr>]" "[blank_entry\<lparr>pid := 42\<rparr>]"]
      select_entries_exact [of "cmdline_of small_proc" "''ssh''" "''tcp''" "[blank_entry]" "[]"]
    by (simp add: blank_entry_def readable_def small_proc_def)
qed

lemma tcp_line_parsed: "parse_line (\<lambda>_. []) (\<lambda>_. blank_stack) tcp_line blank_entry False = Inr tcp_entry"
  using parse_line_eq [OF tcp_tokens _ tcp_line_facts(1) _ tcp_line_facts(2) _ tcp_line_facts(3), of "\<lambda>_. []" "\<lambda>_. blank_stack" blank_entry]
  by (simp add: port_shown_def blank_stack_def blank_entry_def tcp_entry_def tcp_texts)

lemma small_parsed: "parsed small_proc small_junk = Inr [tcp_entry]"
proof -
  have "blank_entry\<lparr>ip_proto := ''tcp''\<rparr> = blank_entry" by (simp add: blank_entry_def)
  then show ?thesis
    using tcp_line_parsed
    by (simp add: parsed_def parse_protocol_def parse_one_def small_proc_def small_junk_def store_s_def upt_rec)
qed

theorem net_main_sections_witness:
  "net_main small_proc small_junk [Short_Option (CHR ''t'')] (Some ''ssh'') =
     thenR (print_section (cmdline_of small_proc) ''TCP'' [tcp_entry\<lparr>pid := 42\<rparr>]) (\<lambda>out. Inr out)"
proof -
  have owned: "[tcp_entry\<lparr>pid := 42\<rparr>] =
      map (with_owner (concat (map owners small_table)) [tcp_entry]) [0..<length [tcp_entry]]"
    by (simp add: small_table_def with_owner_def List.map_filter_simps tcp_entry_def)
  have cmd: "shown_cmd (cmdline_of small_proc) 42 = ''sshd''" "readable (cmdline_of small_proc) 42"
    by (simp_all add: shown_cmd_def readable_def small_proc_def c_string_def first_line_def)
  show ?thesis
    using net_main_sections [OF small_parsed _ _ small_table_shown owned _ refl refl, of "[Short_Option (CHR ''t'')]" "''ssh''"] cmd
    by (simp add: listed_def wants_def tcp_entry_def print_section_def)
qed

subsection \<open>The monitor\<close>

definition small_mon :: "unit mon" where
  "small_mon = \<lparr>world = (), filename = [], buff1 = replicate 128 NUL, logged = []\<rparr>"

theorem verbose_newline_tail_witness:
  "\<exists>m'. convert_to_verbose_newline (Some (''ab'' @ newline)) (small_mon\<lparr>buff1 := ''hello'' @ replicate 123 NUL\<rparr>) =
     Inr (Some (''abllo'' @ [CHR 0x5C, CHR ''n'']), m')"
  using verbose_newline_tail [of "small_mon\<lparr>buff1 := ''hello'' @ replicate 123 NUL\<rparr>" "''ab''"]
  by (auto simp: c_string_def takeWhile_append)

theorem verbose_stat_fits_witness:
  "get_verbose_stat (0x81A4, 1024) = Inr ''{type=regular file, mode=33188, size=1024}''"
proof -
  have "fmt_d (0x81A4 :: u32) = ''33188''" "fmt_ld 1024 = ''1024''"
    by (simp_all add: fmt_d_def fmt_ld_def show_d_def show_base.simps digit_chars)
  then show ?thesis using verbose_stat_fits_eq [of "0x81A4" 1024] by (simp add: file_type_def)
qed

end
