(* ===== verification/Fs_Log.thy ===== *)
theory Fs_Log
  imports Fs_Monitor
begin

text \<open>
  The log of the monitor of \<^verbatim>\<open>hw2/fsmon.c\<close>: which calls the monitor can serve, and that such a
  call gets its line under the name of the function.
\<close>

subsection \<open>Names\<close>

text \<open>The function whose original a hook calls, and the name that its line begins with.\<close>

fun fname :: "fs_call \<Rightarrow> string" where
  "fname (C_closedir p1) = ''closedir''"
| "fname (C_opendir p1) = ''opendir''"
| "fname (C_readdir p1) = ''readdir''"
| "fname (C_creat p1 p2) = ''creat''"
| "fname (C_open p1 p2 mode) = ''open''"
| "fname (C_read p1 p2 p3) = ''read''"
| "fname (C_write p1 p2 p3) = ''write''"
| "fname (C_dup p1) = ''dup''"
| "fname (C_dup2 p1 p2) = ''dup2''"
| "fname (C_close p1) = ''close''"
| "fname (C_lstat p1 p2) = ''lstat''"
| "fname (C_stat p1 p2) = ''stat''"
| "fname (C_pwrite p1 p2 p3 p4) = ''pwrite''"
| "fname (C_fopen p1 p2) = ''fopen''"
| "fname (C_fclose p1) = ''fclose''"
| "fname (C_fread p1 p2 p3 p4) = ''fread''"
| "fname (C_fwrite p1 p2 p3 p4) = ''fwrite''"
| "fname (C_fwrite_unlocked p1 p2 p3 p4) = ''fwrite_unlocked''"
| "fname (C_fgetc p1) = ''fgetc''"
| "fname (C_fgets p1 p2 p3) = ''fgets''"
| "fname (C_fscanf p1 p2 p3) = ''fscanf''"
| "fname (C_fprintf p1 p2 p3) = ''fprintf''"
| "fname (C_chdir p1) = ''chdir''"
| "fname (C_chown p1 p2 p3) = ''chown''"
| "fname (C_chmod p1 p2) = ''chmod''"
| "fname (C_remove p1) = ''remove''"
| "fname (C_rename p1 p2) = ''rename''"
| "fname (C_link p1 p2) = ''link''"
| "fname (C_unlink p1) = ''unlink''"
| "fname (C_readlink p1 p2 p3) = ''readlink''"
| "fname (C_symlink p1 p2) = ''symlink''"
| "fname (C_mkdir p1 p2) = ''mkdir''"
| "fname (C_rmdir p1) = ''rmdir''"
| "fname (C_xstat p1 p2 p3) = ''__xstat''"
| "fname (C_lxstat p1 p2 p3) = ''__lxstat''"
| "fname (C_fputs_unlocked p1 p2) = ''fputs_unlocked''"
| "fname (C_fflush p1) = ''fflush''"

definition shown_name :: "fs_call \<Rightarrow> string" where
  "shown_name c =
     (if fname c = ''fread'' then ''pwrite'' else if fname c = ''symlink'' then ''syslink'' else fname c)"

definition name_of_line :: "string \<Rightarrow> string" where
  "name_of_line t = takeWhile (\<lambda>c. c \<noteq> CHR ''('') t"

subsection \<open>Calls that the monitor can serve\<close>

definition resolves :: "'k libc \<Rightarrow> int \<Rightarrow> 'k \<Rightarrow> bool" where
  "resolves L fd k \<longleftrightarrow> fd = 1 \<or> fd = 2 \<or>
     - (2 ^ 31) \<le> fd \<and> fd < 2 ^ 31 \<and> has_function L ''readlink'' \<and> real_readlink L (fd_path fd) k \<noteq> None"

text \<open>
  The stream or descriptor whose name the line shows, in the state \<open>k\<close> when it is looked up:
  before the call for \<open>fclose\<close>, after it for the others.
\<close>

fun name_ok :: "'k libc \<Rightarrow> fs_call \<Rightarrow> 'k \<Rightarrow> bool" where
  "name_ok L (C_closedir d) k = (case dirfd L d k of None \<Rightarrow> False | Some fd \<Rightarrow> resolves L fd k)"
| "name_ok L (C_readdir d) k = (case dirfd L d k of None \<Rightarrow> False | Some fd \<Rightarrow> resolves L fd k)"
| "name_ok L (C_read p1 p2 p3) k = resolves L (sint (ucast p1 :: u32)) k"
| "name_ok L (C_fclose p) k = resolves L (fileno L p k) k"
| "name_ok L (C_fread p1 p2 p3 p) k = resolves L (fileno L p k) k"
| "name_ok L (C_fwrite p1 p2 p3 p) k = resolves L (fileno L p k) k"
| "name_ok L (C_fwrite_unlocked p1 p2 p3 p) k = resolves L (fileno L p k) k"
| "name_ok L (C_fgetc p) k = resolves L (fileno L p k) k"
| "name_ok L (C_fgets p1 p2 p) k = resolves L (fileno L p k) k"
| "name_ok L (C_fscanf p f vl) k = resolves L (fileno L p k) k"
| "name_ok L (C_fprintf p f vl) k = resolves L (fileno L p k) k"
| "name_ok L (C_fputs_unlocked p1 p) k = resolves L (fileno L p k) k"
| "name_ok L (C_fflush p) k = resolves L (fileno L p k) k"
| "name_ok L c k = True"

text \<open>The text that the line shows without a conversion: it does not end in a newline.\<close>

definition one_line :: "string \<Rightarrow> bool" where
  "one_line t \<longleftrightarrow> t \<noteq> [] \<and> last t \<noteq> CHR 0x0A"

fun plain_text :: "'k libc \<Rightarrow> fs_call \<Rightarrow> u64 \<Rightarrow> 'k \<Rightarrow> bool" where
  "plain_text L (C_fgets p1 p2 p3) r k = (r = 0 \<or> one_line (text_at L r k))"
| "plain_text L (C_fscanf p f vl) r k = one_line f"
| "plain_text L (C_fprintf p f vl) r k = one_line f"
| "plain_text L (C_xstat p1 p2 p3) r k = (fst (stat_at L p3 k) < 0x10000)"
| "plain_text L (C_lxstat p1 p2 p3) r k = (fst (stat_at L p3 k) < 0x10000)"
| "plain_text L c r k = True"

definition looked_up :: "fs_call \<Rightarrow> 'k \<Rightarrow> 'k \<Rightarrow> 'k" where
  "looked_up c k k' = (if fname c = ''fclose'' then k else k')"

text \<open>A call that creates a file through \<open>open\<close> is not among them: it loses its mode.\<close>

definition served :: "'k libc \<Rightarrow> string option \<Rightarrow> fs_call \<Rightarrow> 'k \<Rightarrow> bool" where
  "served L dest c k \<longleftrightarrow>
     (let (r, k') = bare L c k in
      \<not> creates c \<and> has_function L (fname c) \<and> log_to L k' dest \<and> plain_text L c r k' \<and>
      name_ok L c (looked_up c k k'))"

text \<open>The end of a directory is not logged.\<close>

definition silent :: "'k libc \<Rightarrow> fs_call \<Rightarrow> 'k \<Rightarrow> bool" where
  "silent L c k \<longleftrightarrow> fname c = ''readdir'' \<and> fst (bare L c k) = 0"

subsection \<open>One call\<close>

lemma resolves_fd:
  assumes "resolves L fd (world m)"
  shows "\<exists>nm. fd_to_filename L fd m = Inr (nm, m\<lparr>filename := nm\<rparr>)"
  using assms fd_path_fits [of fd]
  by (auto simp: resolves_def fd_to_filename_def fd_path_def store_s_def load_function_def Let_def)

lemma resolves_names:
  "resolves L (fileno L p (world m)) (world m) \<Longrightarrow> \<exists>nm. get_file_name L p m = Inr (nm, m\<lparr>filename := nm\<rparr>)"
  "dirfd L p (world m) = Some fd \<Longrightarrow> resolves L fd (world m) \<Longrightarrow> \<exists>nm. get_dir_name L p m = Inr (nm, m\<lparr>filename := nm\<rparr>)"
  using resolves_fd by (auto simp: get_file_name_def get_dir_name_def)

lemma convert_plain: "one_line t \<Longrightarrow> convert_to_verbose_newline (Some t) m = Inr (Some t, m)"
  "convert_to_verbose_newline None m = Inr (None, m)"
  by (simp_all add: one_line_def convert_to_verbose_newline_def)

lemma stat_fits: "fst s < 0x10000 \<Longrightarrow> \<exists>t. get_verbose_stat s = Inr t"
  using verbose_stat_fits_eq [of "fst s" "snd s"] by simp

text \<open>The line that a hook has written.\<close>

definition wrote :: "string option \<Rightarrow> string \<Rightarrow> 'k mon \<Rightarrow> 'k mon \<Rightarrow> bool" where
  "wrote dest nm m m' \<longleftrightarrow> (\<exists>t. logged m' = logged m @ [(dest, t)] \<and> name_of_line t = nm)"

lemma write_msg_wrote:
  assumes "log_to L (world m) dest" "name_of_line t = nm" "logged m0 = logged m"
  shows "\<exists>m'. write_msg L t m = Inr m' \<and> wrote dest nm m0 m'"
  using assms by (auto simp: write_msg_log_to wrote_def)

lemma begin_mon_wrote:
  assumes "has_function L func"
    and "\<exists>m'. body (ucast (fst (real_call L func args (world m)))) (m\<lparr>world := snd (real_call L func args (world m))\<rparr>) = Inr m' \<and> P m'"
  shows "\<exists>r m'. map_sum id (apfst ucast) (BEGIN_MON L func args body m) = Inr (r :: u64, m') \<and> P m'"
  using assms by (auto simp: BEGIN_MON_def load_function_def call_real_def split_beta)

lemma named_wrote:
  assumes "\<exists>x. g m = Inr (x, m\<lparr>filename := x\<rparr>)" "log_to L (world m) dest"
    and "\<And>x. name_of_line (f x) = nm" "logged m0 = logged m"
  shows "\<exists>m'. thenR (g m) (\<lambda>(x, m). write_msg L (f x) m) = Inr m' \<and> wrote dest nm m0 m'"
  using assms by (auto simp: write_msg_log_to wrote_def)

lemmas hook_defs = closedir_mon_def opendir_mon_def creat_mon_def open_mon_def read_mon_def write_mon_def dup_mon_def
  dup2_mon_def close_mon_def lstat_mon_def stat_mon_def pwrite_mon_def fopen_mon_def fread_mon_def fwrite_mon_def
  fwrite_unlocked_mon_def chdir_mon_def chown_mon_def chmod_mon_def remove_mon_def rename_mon_def link_mon_def
  unlink_mon_def readlink_mon_def symlink_mon_def mkdir_mon_def rmdir_mon_def xstat_mon_def lxstat_mon_def
  fputs_unlocked_mon_def fflush_mon_def readdir_mon_def fgetc_mon_def fgets_mon_def fscanf_mon_def fprintf_mon_def

text \<open>What is logged for a call that can be served.\<close>

definition logs :: "'k libc \<Rightarrow> string option \<Rightarrow> fs_call \<Rightarrow> 'k mon \<Rightarrow> 'k mon \<Rightarrow> bool" where
  "logs L dest c m m' \<longleftrightarrow>
     (if silent L c (world m) then logged m' = logged m else wrote dest (shown_name c) m m')"

lemma served_parts:
  assumes "served L dest c k"
  shows "has_function L (fname c)" "log_to L (snd (bare L c k)) dest"
    "plain_text L c (fst (bare L c k)) (snd (bare L c k))" "name_ok L c (looked_up c k (snd (bare L c k)))"
    "\<not> creates c"
  using assms by (auto simp: served_def Let_def split_beta)

lemma open_args_plain: "\<not> needs_mode f \<Longrightarrow> open_args L p f mode k = [Text p, Word f]"
  by (simp add: open_args_def)

lemma unnamed_logs:
  assumes "served L dest c (world m)" "fname c \<in> {''opendir'', ''creat'', ''open'', ''write'', ''dup'', ''dup2'', ''close'',
      ''lstat'', ''stat'', ''pwrite'', ''fopen'', ''chdir'', ''chown'', ''chmod'', ''remove'', ''rename'', ''link'',
      ''unlink'', ''readlink'', ''symlink'', ''mkdir'', ''rmdir''}"
  shows "\<exists>r m'. with_monitor L c m = Inr (r, m') \<and> logs L dest c m m'"
proof -
  note served = served_parts [OF assms(1)]
  show ?thesis
    using assms(2) served(1,2,5)
    by (cases c; simp add: hook_defs logs_def silent_def shown_name_def open_args_plain;
        intro begin_mon_wrote write_msg_wrote; simp add: name_of_line_def)
qed

lemma stream_logs:
  assumes "served L dest c (world m)" "fname c \<in> {''read'', ''fread'', ''fwrite'', ''fwrite_unlocked'', ''fgetc'',
      ''fputs_unlocked'', ''fflush''}"
  shows "\<exists>r m'. with_monitor L c m = Inr (r, m') \<and> logs L dest c m m'"
proof -
  note served = served_parts [OF assms(1)]
  show ?thesis
    using assms(2) served(1,2,4)
    by (cases c; simp add: hook_defs logs_def silent_def shown_name_def looked_up_def;
        intro begin_mon_wrote; simp; intro conjI impI named_wrote resolves_names resolves_fd; simp add: name_of_line_def)
qed

lemma closedir_logs:
  assumes "served L dest (C_closedir p) (world m)"
  shows "\<exists>r m'. with_monitor L (C_closedir p) m = Inr (r, m') \<and> logs L dest (C_closedir p) m m'"
proof -
  note served = served_parts [OF assms]
  let ?m = "m\<lparr>world := snd (real_call L ''closedir'' [Word p] (world m))\<rparr>"
  obtain nm where "get_dir_name L p ?m = Inr (nm, ?m\<lparr>filename := nm\<rparr>)"
    using resolves_names(2) [of L p ?m] served(4) by (auto simp: looked_up_def split: option.splits)
  with served(1,2) show ?thesis
    by (simp add: closedir_mon_def BEGIN_MON_def load_function_def call_real_def split_beta logs_def silent_def
        write_msg_log_to wrote_def shown_name_def name_of_line_def)
qed

lemma readdir_logs:
  assumes "served L dest (C_readdir p) (world m)"
  shows "\<exists>r m'. with_monitor L (C_readdir p) m = Inr (r, m') \<and> logs L dest (C_readdir p) m m'"
proof -
  note served = served_parts [OF assms]
  let ?rc = "real_call L ''readdir'' [Word p] (world m)"
  let ?m = "m\<lparr>world := snd ?rc\<rparr>"
  show ?thesis
  proof (cases "fst ?rc = 0")
    case True
    with served(1) show ?thesis
      by (simp add: readdir_mon_def BEGIN_MON_def load_function_def call_real_def split_beta logs_def silent_def)
  next
    case False
    obtain nm where "get_dir_name L p ?m = Inr (nm, ?m\<lparr>filename := nm\<rparr>)"
      using resolves_names(2) [of L p ?m] served(4) by (auto simp: looked_up_def split: option.splits)
    with False served(1,2) show ?thesis
      by (simp add: readdir_mon_def BEGIN_MON_def load_function_def call_real_def split_beta logs_def silent_def
          write_msg_log_to wrote_def shown_name_def name_of_line_def)
  qed
qed

lemma fclose_logs:
  assumes "served L dest (C_fclose p) (world m)"
  shows "\<exists>r m'. with_monitor L (C_fclose p) m = Inr (r, m') \<and> logs L dest (C_fclose p) m m'"
proof -
  note served = served_parts [OF assms]
  obtain nm where "get_file_name L p m = Inr (nm, m\<lparr>filename := nm\<rparr>)"
    using resolves_names(1) [of L p m] served(4) by (auto simp: looked_up_def)
  with served(1,2) show ?thesis
    by (simp add: fclose_mon_def load_function_def call_real_def split_beta logs_def silent_def
        write_msg_log_to wrote_def shown_name_def name_of_line_def)
qed

lemma stat_logs:
  assumes "served L dest c (world m)" "fname c \<in> {''__xstat'', ''__lxstat''}"
  shows "\<exists>r m'. with_monitor L c m = Inr (r, m') \<and> logs L dest c m m'"
proof -
  note served = served_parts [OF assms(1)]
  consider p1 p2 p3 where "c = C_xstat p1 p2 p3" | p1 p2 p3 where "c = C_lxstat p1 p2 p3"
    using assms(2) by (cases c) simp_all
  then show ?thesis
  proof cases
    case 1
    then obtain t where "get_verbose_stat (stat_at L p3 (snd (bare L c (world m)))) = Inr t"
      using stat_fits served(3) by fastforce
    with 1 served(1,2) show ?thesis
      by (simp add: hook_defs BEGIN_MON_def load_function_def call_real_def split_beta logs_def silent_def
          write_msg_log_to wrote_def shown_name_def name_of_line_def)
  next
    case 2
    then obtain t where "get_verbose_stat (stat_at L p3 (snd (bare L c (world m)))) = Inr t"
      using stat_fits served(3) by fastforce
    with 2 served(1,2) show ?thesis
      by (simp add: hook_defs BEGIN_MON_def load_function_def call_real_def split_beta logs_def silent_def
          write_msg_log_to wrote_def shown_name_def name_of_line_def)
  qed
qed

lemma fgets_logs:
  assumes "served L dest (C_fgets p1 p2 p) (world m)"
  shows "\<exists>r m'. with_monitor L (C_fgets p1 p2 p) m = Inr (r, m') \<and> logs L dest (C_fgets p1 p2 p) m m'"
proof -
  note served = served_parts [OF assms]
  let ?rc = "real_call L ''fgets'' [Word p1, Word p2, Word p] (world m)"
  let ?m = "m\<lparr>world := snd ?rc\<rparr>"
  obtain nm where "get_file_name L p ?m = Inr (nm, ?m\<lparr>filename := nm\<rparr>)"
    using resolves_names(1) [of L p ?m] served(4) by (auto simp: looked_up_def)
  moreover have "fst ?rc = 0 \<or> one_line (text_at L (fst ?rc) (snd ?rc))" using served(3) by simp
  ultimately show ?thesis using served(1,2)
    by (cases "fst ?rc = 0") (simp_all add: fgets_mon_def BEGIN_MON_def load_function_def call_real_def split_beta
        convert_plain logs_def silent_def write_msg_log_to wrote_def shown_name_def name_of_line_def)
qed

lemma formatted_logs:
  assumes "log_to L (snd rc) dest" "one_line f" "resolves L (fileno L p (snd rc)) (snd rc)"
    and "rc = real_call L vfunc (Word p # Text f # vl) (world m)" "\<forall>c \<in> set func. c \<noteq> CHR ''(''"
  shows "\<exists>r m'. map_sum id (apfst ucast) (formatted_io L func vfunc p f vl m) = Inr (r :: u64, m') \<and> wrote dest func m m'"
proof -
  obtain nm where "get_file_name L p (m\<lparr>world := snd rc\<rparr>) = Inr (nm, m\<lparr>world := snd rc, filename := nm\<rparr>)"
    using resolves_names(1) [of L p "m\<lparr>world := snd rc\<rparr>"] assms(3) by auto
  moreover have "name_of_line (func @ CHR ''('' # t) = func" for t
    using assms(5) by (simp add: name_of_line_def takeWhile_append)
  ultimately show ?thesis using assms(1,2,4)
    by (simp add: formatted_io_def call_real_def split_beta convert_plain write_msg_log_to wrote_def)
qed

lemma format_logs:
  assumes "served L dest c (world m)" "fname c \<in> {''fscanf'', ''fprintf''}"
  shows "\<exists>r m'. with_monitor L c m = Inr (r, m') \<and> logs L dest c m m'"
proof -
  note served = served_parts [OF assms(1)]
  show ?thesis
    using assms(2) served(2-4)
    by (cases c; simp add: hook_defs logs_def silent_def shown_name_def looked_up_def; intro formatted_logs [OF _ _ _ refl]; simp)
qed

lemma with_monitor_logs:
  assumes "served L dest c (world m)"
  shows "\<exists>r m'. with_monitor L c m = Inr (r, m') \<and> logs L dest c m m'"
  using unnamed_logs [OF assms] stream_logs [OF assms] stat_logs [OF assms] format_logs [OF assms]
    readdir_logs [of L dest _ m] closedir_logs [of L dest _ m] fclose_logs [of L dest _ m] fgets_logs [of L dest _ _ _ m] assms
  by (cases c) simp_all

end
