(* ===== verification/Fs_Programs.thy ===== *)
theory Fs_Programs
  imports Fs_Log
begin

text \<open>
  Programs under the monitor of \<^verbatim>\<open>hw2/fsmon.c\<close>.  A program chooses its next call by what the
  earlier ones returned and by what its memory holds; it also calls functions that have no
  hook.  The test programs of \<^verbatim>\<open>hw2/testcases\<close> are programs of this kind.
\<close>

subsection \<open>Programs\<close>

datatype action = Hooked fs_call | Direct string "carg list"

text \<open>
  At a control point \<open>'p\<close>, in a state of the system: the exit code, or the call to make and
  where its result leads.
\<close>

type_synonym ('p, 'k) program = "'p \<Rightarrow> 'k \<Rightarrow> u32 + action \<times> (u64 \<Rightarrow> 'p)"

text \<open>A run without the monitor, with its calls and the states they are made in.\<close>

inductive runs :: "'k libc \<Rightarrow> ('p, 'k) program \<Rightarrow> 'p \<Rightarrow> 'k \<Rightarrow> (action \<times> 'k) list \<Rightarrow> u32 \<Rightarrow> 'k \<Rightarrow> bool"
  for L :: "'k libc" and P :: "('p, 'k) program" where
  Ends: "P p k = Inl code \<Longrightarrow> runs L P p k [] code k"
| Calls: "P p k = Inr (Hooked c, q) \<Longrightarrow> bare L c k = (r, k1) \<Longrightarrow> runs L P (q r) k1 as code k' \<Longrightarrow>
    runs L P p k ((Hooked c, k) # as) code k'"
| Other: "P p k = Inr (Direct f args, q) \<Longrightarrow> real_call L f args k = (r, k1) \<Longrightarrow> runs L P (q r) k1 as code k' \<Longrightarrow>
    runs L P p k ((Direct f args, k) # as) code k'"

text \<open>The run with the monitor; \<open>None\<close> is a program that runs for ever.\<close>

partial_function (option) run_program ::
  "'k libc \<Rightarrow> ('p, 'k) program \<Rightarrow> 'p \<Rightarrow> 'k mon \<Rightarrow> (u32 \<times> 'k mon) res option" where
  "run_program L P p m =
     (case P p (world m) of
        Inl code \<Rightarrow> Some (Inr (code, m))
      | Inr (a, q) \<Rightarrow>
          (case a of
             Hooked c \<Rightarrow>
               (case with_monitor L c m of
                  Inl e \<Rightarrow> Some (Inl e)
                | Inr (r, m1) \<Rightarrow> run_program L P (q r) m1)
           | Direct f args \<Rightarrow>
               (case real_call L f args (world m) of (r, k) \<Rightarrow> run_program L P (q r) (m\<lparr>world := k\<rparr>))))"

definition log_of :: "string option \<Rightarrow> 'k libc \<Rightarrow> (action \<times> 'k) list \<Rightarrow> (string option \<times> string) list" where
  "log_of dest L as = concat (map (\<lambda>(a, k).
     case a of Hooked c \<Rightarrow> if silent L c k then [] else [(dest, shown_name c)] | Direct f args \<Rightarrow> []) as)"

text \<open>
  A program that heeds only what it can observe.  A call that the monitor serves, whose result
  arrives uncut, and which keeps apart from the log.
\<close>

definition heeds :: "('k \<Rightarrow> 'v) \<Rightarrow> ('k \<Rightarrow> u64 set) \<Rightarrow> ('p, 'k) program \<Rightarrow> bool" where
  "heeds view streams P \<longleftrightarrow> (\<forall>p k1 k2. alike view streams k1 k2 \<longrightarrow> P p k1 = P p k2)"

definition serves :: "'k libc \<Rightarrow> (string \<Rightarrow> carg list \<Rightarrow> bool) \<Rightarrow> string option \<Rightarrow> action \<Rightarrow> 'k \<Rightarrow> bool" where
  "serves L apart dest a k = (case a of
     Hooked c \<Rightarrow> served L dest c k \<and> set_apart L apart c \<and> arrives c (fst (bare L c k)) = fst (bare L c k)
   | Direct f args \<Rightarrow> apart f args)"

lemma logs_log_of:
  assumes "logs L dest c m m'"
  shows "\<exists>es. logged m' = logged m @ es \<and> map (\<lambda>(d, t). (d, name_of_line t)) es = log_of dest L [(Hooked c, world m)]"
  using assms by (auto simp: logs_def wrote_def log_of_def split: if_splits)

lemma log_of_Cons: "log_of dest L (x # as) = log_of dest L [x] @ log_of dest L as"
  by (simp add: log_of_def)

lemma creates_passed_on: "\<not> creates c \<Longrightarrow> passed_on c c"
  by (cases c) simp_all

context separate_log
begin

lemma served_bare:
  assumes "serves L apart dest (Hooked c) k" "alike view streams k2 k"
  shows "fst (bare L c k2) = fst (bare L c k)" "alike view streams (snd (bare L c k2)) (snd (bare L c k))"
proof -
  have "set_apart L apart c" "passed_on c c"
    using assms(1) by (auto simp: serves_def intro: creates_passed_on dest: served_parts(5))
  from bare_alike [OF this assms(2)] show "fst (bare L c k2) = fst (bare L c k)"
    "alike view streams (snd (bare L c k2)) (snd (bare L c k))" .
qed

lemma resolves_alike: "alike view streams k1 k2 \<Longrightarrow> resolves L fd k1 = resolves L fd k2"
  using same_names by (auto simp: resolves_def)

lemma name_ok_alike: "alike view streams k1 k2 \<Longrightarrow> name_ok L c k1 = name_ok L c k2"
  using same_names [of k1 k2] resolves_alike [of k1 k2] by (cases c) (simp_all split: option.split)

lemma plain_text_alike: "alike view streams k1 k2 \<Longrightarrow> plain_text L c r k1 = plain_text L c r k2"
  using same_texts [of k1 k2] by (cases c) simp_all

lemma log_to_alike: "alike view streams k1 k2 \<Longrightarrow> log_to L k1 dest = log_to L k2 dest"
  using same_log [of k1 k2] by (simp add: log_to_def)

lemma served_alike:
  assumes "serves L apart dest (Hooked c) k" "alike view streams k2 k"
  shows "served L dest c k2"
proof -
  note b = served_bare [OF assms]
  have "alike view streams (looked_up c k2 (snd (bare L c k2))) (looked_up c k (snd (bare L c k)))"
    using assms(2) b(2) by (simp add: looked_up_def)
  with assms(1) b show ?thesis
    using name_ok_alike [of _ _ c] plain_text_alike [OF b(2)] log_to_alike [OF b(2)]
    by (simp add: serves_def served_def Let_def split_beta)
qed

text \<open>One call under the monitor, from a state that is like the one of the bare run.\<close>

lemma monitored_call:
  assumes "serves L apart dest (Hooked c) k" "alike view streams (world m) k"
  shows "\<exists>m1 e. with_monitor L c m = Inr (fst (bare L c k), m1) \<and> alike view streams (world m1) (snd (bare L c k)) \<and>
    logged m1 = logged m @ e \<and> map (\<lambda>(d, t). (d, name_of_line t)) e = log_of dest L [(Hooked c, k)]"
proof -
  note b = served_bare [OF assms] and served = served_alike [OF assms]
  obtain r m1 where m1: "with_monitor L c m = Inr (r, m1)" "logs L dest c m m1"
    using with_monitor_logs [OF served] by blast
  have same: "passed L (world m) c = c" using served_parts(5) [OF served] by (rule passed_same)
  obtain es where "r = arrives c (fst (bare L c (world m)))" "noted L (snd (bare L c (world m))) (world m1) es"
    using with_monitor_bare [OF m1(1)] same by auto
  then have "r = fst (bare L c k)" "alike view streams (world m1) (snd (bare L c k))"
    using b assms(1) alike_trans [OF noted_unnoticed b(2)] by (simp_all add: serves_def)
  moreover have "log_of dest L [(Hooked c, world m)] = log_of dest L [(Hooked c, k)]"
    using b(1) by (simp add: log_of_def silent_def)
  ultimately show ?thesis using m1(1) logs_log_of [OF m1(2)] by auto
qed

lemma monitored_runs:
  assumes "runs L P p k as code k'" "\<forall>(a, k)\<in>set as. serves L apart dest a k" "heeds view streams P"
    and "alike view streams (world m) k"
  shows "\<exists>m' es. run_program L P p m = Some (Inr (code, m')) \<and> alike view streams (world m') k' \<and>
    logged m' = logged m @ es \<and> map (\<lambda>(d, t). (d, name_of_line t)) es = log_of dest L as"
  using assms(1,2,4)
proof (induction p k as code k' arbitrary: m rule: runs.induct)
  case (Ends p k code)
  then have "P p (world m) = Inl code" using assms(3) by (metis heeds_def)
  with Ends.prems(2) show ?case by (subst run_program.simps) (simp add: log_of_def)
next
  case (Calls p k c q r k1 as code k')
  have P: "P p (world m) = Inr (Hooked c, q)" using Calls.hyps(1) Calls.prems(2) assms(3) by (metis heeds_def)
  obtain m1 e where m1: "with_monitor L c m = Inr (r, m1)" "alike view streams (world m1) k1"
      "logged m1 = logged m @ e" "map (\<lambda>(d, t). (d, name_of_line t)) e = log_of dest L [(Hooked c, k)]"
    using monitored_call [OF _ Calls.prems(2), of dest c] Calls.prems(1) Calls.hyps(2) by auto
  obtain m' es where rest: "run_program L P (q r) m1 = Some (Inr (code, m'))" "alike view streams (world m') k'"
      "logged m' = logged m1 @ es" "map (\<lambda>(d, t). (d, name_of_line t)) es = log_of dest L as"
    using Calls.IH [OF _ m1(2)] Calls.prems(1) by auto
  have "run_program L P p m = Some (Inr (code, m'))" using P m1(1) rest(1) by (subst run_program.simps) simp
  moreover have "map (\<lambda>(d, t). (d, name_of_line t)) (e @ es) = log_of dest L ((Hooked c, k) # as)"
    using m1(4) rest(4) by (subst log_of_Cons) simp
  ultimately show ?case using rest(2,3) m1(3) by (metis append.assoc)
next
  case (Other p k f args q r k1 as code k')
  have P: "P p (world m) = Inr (Direct f args, q)" using Other.hyps(1) Other.prems(2) assms(3) by (metis heeds_def)
  have "apart f args" using Other.prems(1) by (simp add: serves_def)
  from call_apart [OF this Other.prems(2)] have
    k2: "fst (real_call L f args (world m)) = r" "alike view streams (snd (real_call L f args (world m))) k1"
    using Other.hyps(2) by simp_all
  let ?m = "m\<lparr>world := snd (real_call L f args (world m))\<rparr>"
  obtain m' es where rest: "run_program L P (q r) ?m = Some (Inr (code, m'))" "alike view streams (world m') k'"
      "logged m' = logged m @ es" "map (\<lambda>(d, t). (d, name_of_line t)) es = log_of dest L as"
    using Other.IH [of ?m] k2(2) Other.prems(1) by auto
  have "run_program L P p m = Some (Inr (code, m'))"
    using P k2(1) rest(1) by (subst run_program.simps) (simp add: split_beta)
  moreover have "log_of dest L ((Direct f args, k) # as) = log_of dest L as" by (simp add: log_of_def)
  ultimately show ?case using rest(2-4) by metis
qed

end

text \<open>
  C14: programs under the monitor.  A program that ends with an exit code when it runs by
  itself, where the monitor can serve each of its calls (none of them an \<open>open\<close> that needs a
  mode), ends with the same exit code under the monitor, and leaves a system that is the same
  but for \<open>errno\<close> and the log; and the log has received one line for each of its calls
  that have a hook, in their order and under their names (\<open>fread\<close> and \<open>symlink\<close> under wrong
  ones; the end of a directory is not logged).  Its decisions between the calls are arbitrary.
\<close>

theorem monitored_program:
  assumes "separate_log L view streams apart" "heeds view streams P"
    and "runs L P p (world m) as code k'" "\<forall>(a, k)\<in>set as. serves L apart dest a k"
  shows "\<exists>m' es. run_program L P p m = Some (Inr (code, m')) \<and> alike view streams (world m') k' \<and>
    logged m' = logged m @ es \<and> map (\<lambda>(d, t). (d, name_of_line t)) es = log_of dest L as"
  by (rule separate_log.monitored_runs [OF assms(1,3,4,2)]) (simp add: alike_def)

subsection \<open>The test programs\<close>

text \<open>
  Where the compiled program has its string literals and variables, what a variable holds,
  the streams of the C library, and whether the program was compiled against a library in
  which \<open>stat\<close> and \<open>lstat\<close> are macros for \<open>__xstat\<close> and \<open>__lxstat\<close> (as the binaries
  in the repository were).
\<close>

record 'k exe =
  literal :: "string \<Rightarrow> u64"
  variable :: "string \<Rightarrow> u64"
  value_at :: "u64 \<Rightarrow> 'k \<Rightarrow> u64"
  std_in :: u64
  std_out :: u64
  old_stat :: bool

text \<open>\<^verbatim>\<open>dir.c\<close>.\<close>

datatype dir_pc = Dir_Start | Dir_Next u64 | Dir_Show u64 u64 | Dir_Close u64 | Dir_End u32

fun dir_main :: "'k libc \<Rightarrow> (dir_pc, 'k) program" where
  "dir_main L Dir_Start k =
     Inr (Hooked (C_opendir ''.''), \<lambda>dir. if dir = 0 then Dir_End (- 1) else Dir_Next dir)"
| "dir_main L (Dir_Next dir) k =
     Inr (Hooked (C_readdir dir), \<lambda>d. if d \<noteq> 0 then Dir_Show dir d else Dir_Close dir)"
| "dir_main L (Dir_Show dir d) k =
     Inr (Direct ''printf'' [Text (''%s'' @ newline), Text (d_name_at L d k)], \<lambda>_. Dir_Next dir)"
| "dir_main L (Dir_Close dir) k = Inr (Hooked (C_closedir dir), \<lambda>_. Dir_End 0)"
| "dir_main L (Dir_End code) k = Inl code"

text \<open>\<^verbatim>\<open>file.c\<close>; between the two \<open>open\<close> calls and from \<open>dup2\<close> on no result is used.\<close>

definition FILENAME1 :: string where "FILENAME1 = ''./test1.txt''"
definition FILENAME2 :: string where "FILENAME2 = ''./test2.txt''"
definition DIRNAME :: string where "DIRNAME = ''./dir1''"

datatype file_pc =
    File_Start
  | File_Chdir u64
  | File_First "action list"
  | File_Dup u64
  | File_Dup2 u64 u64
  | File_Second "action list"
  | File_Fail string
  | File_End u32

definition negative :: "u64 \<Rightarrow> bool" where
  "negative fd \<longleftrightarrow> sint (ucast fd :: u32) < 0"

definition file_writes :: "'k exe \<Rightarrow> u64 \<Rightarrow> action list" where
  "file_writes I fd =
     [Hooked (C_write fd (literal I ''ABCD'') 4),
      Direct ''lseek'' [Word fd, Word 4096, Word 0],
      Hooked (C_write fd (literal I ''EFGH'') 4),
      Hooked (C_pwrite fd (literal I ''IJKL'') 4 8192),
      Hooked (C_close fd)]"

definition stat_call :: "'k exe \<Rightarrow> string \<Rightarrow> u64 \<Rightarrow> fs_call" where
  "stat_call I path st = (if old_stat I then C_xstat 1 path st else C_stat path st)"

definition lstat_call :: "'k exe \<Rightarrow> string \<Rightarrow> u64 \<Rightarrow> fs_call" where
  "lstat_call I path st = (if old_stat I then C_lxstat 1 path st else C_lstat path st)"

definition file_changes :: "'k exe \<Rightarrow> u64 \<Rightarrow> u64 \<Rightarrow> u64 \<Rightarrow> action list" where
  "file_changes I fd fd2 fd3 =
     [Hooked (C_read fd2 (variable I ''buf'') 16),
      Direct ''pread'' [Word fd3, Word (variable I ''buf''), Word 16, Word 8192],
      Hooked (C_close fd),
      Hooked (stat_call I FILENAME1 (variable I ''st'')),
      Hooked (C_chown FILENAME1 0 0),
      Hooked (C_chmod FILENAME1 0x180),
      Hooked (lstat_call I FILENAME1 (variable I ''st'')),
      Hooked (C_rename FILENAME1 FILENAME2),
      Hooked (C_link FILENAME2 FILENAME1),
      Hooked (C_unlink FILENAME2),
      Hooked (C_symlink FILENAME1 FILENAME2),
      Hooked (C_readlink FILENAME2 (variable I ''buf'') 16),
      Hooked (C_mkdir DIRNAME 0x1ff),
      Hooked (lstat_call I DIRNAME (variable I ''st'')),
      Hooked (C_rmdir DIRNAME),
      Hooked (C_unlink FILENAME1),
      Hooked (C_remove FILENAME2)]"

fun file_main :: "'k exe \<Rightarrow> (file_pc, 'k) program" where
  "file_main I File_Start k = Inr (Hooked (C_creat FILENAME1 0x1a4), File_Chdir)"
| "file_main I (File_Chdir fd) k =
     Inr (Hooked (C_chdir ''./././''), \<lambda>_. if negative fd then File_Fail ''creat'' else File_First (file_writes I fd))"
| "file_main I (File_First (a # as)) k = Inr (a, \<lambda>_. File_First as)"
| "file_main I (File_First []) k =
     Inr (Hooked (C_open FILENAME1 0 None), \<lambda>fd. if negative fd then File_Fail ''open'' else File_Dup fd)"
| "file_main I (File_Dup fd) k = Inr (Hooked (C_dup fd), File_Dup2 fd)"
| "file_main I (File_Dup2 fd fd2) k =
     Inr (Hooked (C_dup2 fd 1000), \<lambda>fd3. File_Second (file_changes I fd fd2 fd3))"
| "file_main I (File_Second []) k = Inl 0"
| "file_main I (File_Second (a # as)) k = Inr (a, \<lambda>_. File_Second as)"
| "file_main I (File_Fail x) k = Inr (Direct ''perror'' [Text x], \<lambda>_. File_End (- 1))"
| "file_main I (File_End code) k = Inl code"

text \<open>\<^verbatim>\<open>fscanf.c\<close>.\<close>

datatype scan_pc = Scan_Ask | Scan_Read | Scan_Show | Scan_End

fun fscanf_main :: "'k exe \<Rightarrow> (scan_pc, 'k) program" where
  "fscanf_main I Scan_Ask k = Inr (Hooked (C_fprintf (std_out I) ''Value: '' []), \<lambda>_. Scan_Read)"
| "fscanf_main I Scan_Read k = Inr (Hooked (C_fscanf (std_in I) ''%d'' [Word (variable I ''value'')]), \<lambda>_. Scan_Show)"
| "fscanf_main I Scan_Show k =
     Inr (Hooked (C_fprintf (std_out I) (''Value [%d]'' @ newline) [Word (value_at I (variable I ''value'') k)]), \<lambda>_. Scan_End)"
| "fscanf_main I Scan_End k = Inl 0"

text \<open>\<^verbatim>\<open>getline.c\<close>.\<close>

datatype line_pc = Line_Start | Line_Next u64 | Line_Write u64 u64 | Line_Free u64 | Line_Close u64 | Line_End u32

fun getline_main :: "'k exe \<Rightarrow> (line_pc, 'k) program" where
  "getline_main I Line_Start k =
     Inr (Hooked (C_fopen ''/etc/passwd'' ''rt''), \<lambda>fp. if fp = 0 then Line_End (- 1) else Line_Next fp)"
| "getline_main I (Line_Next fp) k =
     Inr (Direct ''getline'' [Word (variable I ''lineptr''), Word (variable I ''linelen''), Word fp],
       \<lambda>rlen. if 0 \<le> sint rlen then (if 0 < sint rlen then Line_Write fp rlen else Line_Next fp) else Line_Free fp)"
| "getline_main I (Line_Write fp rlen) k =
     Inr (Hooked (C_fwrite (value_at I (variable I ''lineptr'') k) 1 rlen (std_out I)), \<lambda>_. Line_Next fp)"
| "getline_main I (Line_Free fp) k =
     (let lineptr = value_at I (variable I ''lineptr'') k in
      if lineptr \<noteq> 0 then Inr (Direct ''free'' [Word lineptr], \<lambda>_. Line_Close fp)
      else Inr (Hooked (C_fclose fp), \<lambda>_. Line_End 0))"
| "getline_main I (Line_Close fp) k = Inr (Hooked (C_fclose fp), \<lambda>_. Line_End 0)"
| "getline_main I (Line_End code) k = Inl code"

text \<open>\<^verbatim>\<open>stdio.c\<close>; the number of \<open>Stdio_Open\<close> counts the four times the file is opened.\<close>

definition TESTFILE :: string where "TESTFILE = ''test1.txt''"

datatype stdio_pc =
    Stdio_Start
  | Stdio_Pid u64
  | Stdio_Seed u64 u64
  | Stdio_Open nat
  | Stdio_Rand u64 nat
  | Stdio_Print u64 nat u64
  | Stdio_Getc u64
  | Stdio_Gets u64
  | Stdio_Scan u64
  | Stdio_Close nat u64
  | Stdio_Unlink
  | Stdio_Fail
  | Stdio_End u32

fun stdio_main :: "'k exe \<Rightarrow> (stdio_pc, 'k) program" where
  "stdio_main I Stdio_Start k = Inr (Direct ''time'' [Word 0], Stdio_Pid)"
| "stdio_main I (Stdio_Pid t) k = Inr (Direct ''getpid'' [], Stdio_Seed t)"
| "stdio_main I (Stdio_Seed t p) k = Inr (Direct ''srand'' [Word (seen (t XOR p))], \<lambda>_. Stdio_Open 0)"
| "stdio_main I (Stdio_Open n) k =
     Inr (Hooked (C_fopen TESTFILE (if n = 0 then ''wt'' else ''rt'')),
       \<lambda>fp. if fp = 0 then Stdio_Fail
            else if n = 0 then Stdio_Rand fp 0
            else if n = 1 then Stdio_Getc fp
            else if n = 2 then Stdio_Gets fp
            else Stdio_Scan fp)"
| "stdio_main I (Stdio_Rand fp i) k = Inr (Direct ''rand'' [], Stdio_Print fp i)"
| "stdio_main I (Stdio_Print fp i r) k =
     Inr (Hooked (C_fprintf fp (''%d'' @ newline) [Word (seen r mod 100)]),
       \<lambda>_. if Suc i < 10 then Stdio_Rand fp (Suc i) else Stdio_Close 0 fp)"
| "stdio_main I (Stdio_Getc fp) k =
     Inr (Hooked (C_fgetc fp), \<lambda>i. if (ucast i :: u32) \<noteq> - 1 then Stdio_Getc fp else Stdio_Close 1 fp)"
| "stdio_main I (Stdio_Gets fp) k =
     Inr (Hooked (C_fgets (variable I ''buf'') 16 fp), \<lambda>b. if b \<noteq> 0 then Stdio_Gets fp else Stdio_Close 2 fp)"
| "stdio_main I (Stdio_Scan fp) k =
     Inr (Hooked (C_fscanf fp ''%d'' [Word (variable I ''i'')]),
       \<lambda>n. if 0 < sint (ucast n :: u32) then Stdio_Scan fp else Stdio_Close 3 fp)"
| "stdio_main I (Stdio_Close n fp) k =
     Inr (Hooked (C_fclose fp), \<lambda>_. if n < 3 then Stdio_Open (Suc n) else Stdio_Unlink)"
| "stdio_main I Stdio_Unlink k = Inr (Hooked (C_unlink TESTFILE), \<lambda>_. Stdio_End 0)"
| "stdio_main I Stdio_Fail k = Inr (Direct ''perror'' [Text ''fopen''], \<lambda>_. Stdio_End (- 1))"
| "stdio_main I (Stdio_End code) k = Inl code"

subsection \<open>What the tests show\<close>

text \<open>One step of a run at a given control point.\<close>

lemma runs_iff:
  "runs L P p k as code k' \<longleftrightarrow>
     (case P p k of
        Inl c \<Rightarrow> as = [] \<and> code = c \<and> k' = k
      | Inr (Hooked c, q) \<Rightarrow>
          (\<exists>as'. as = (Hooked c, k) # as' \<and> runs L P (q (fst (bare L c k))) (snd (bare L c k)) as' code k')
      | Inr (Direct f args, q) \<Rightarrow>
          (\<exists>as'. as = (Direct f args, k) # as' \<and>
            runs L P (q (fst (real_call L f args k))) (snd (real_call L f args k)) as' code k'))"
  (is "_ = ?R")
proof
  assume "runs L P p k as code k'"
  then show ?R by (cases rule: runs.cases) auto
next
  assume ?R
  then show "runs L P p k as code k'"
    by (auto intro: runs.intros simp: prod_eq_iff split: sum.splits prod.splits action.splits)
qed

text \<open>The names of the calls that have a hook.\<close>

definition names :: "action list \<Rightarrow> string list" where
  "names as = concat (map (\<lambda>a. case a of Hooked c \<Rightarrow> [shown_name c] | Direct f args \<Rightarrow> []) as)"

lemma log_of_unsilent:
  "\<forall>a\<in>set (map fst as). \<forall>c. a = Hooked c \<longrightarrow> fname c \<noteq> ''readdir'' \<Longrightarrow>
     log_of dest L as = map (\<lambda>n. (dest, n)) (names (map fst as))"
  by (induction as) (auto simp: log_of_def silent_def names_def split: action.split)

lemma file_fails: "\<not> runs L (file_main I) (File_Fail x) k as 0 k'"
proof
  assume "runs L (file_main I) (File_Fail x) k as 0 k'"
  from iffD1 [OF runs_iff this] have "\<exists>k as. runs L (file_main I) (File_End (- 1)) k as 0 k'" by auto
  then obtain k1 as1 where "runs L (file_main I) (File_End (- 1)) k1 as1 0 k'" by blast
  from iffD1 [OF runs_iff this] show False by simp
qed

lemma file_second_calls:
  "runs L (file_main I) (File_Second as) k tr code k' \<Longrightarrow> code = 0 \<and> map fst tr = as"
proof (induction as arbitrary: k tr)
  case Nil
  from iffD1 [OF runs_iff Nil] show ?case by simp
next
  case (Cons a as)
  from iffD1 [OF runs_iff Cons.prems] obtain k1 tr1 where "tr = (a, k) # tr1" "runs L (file_main I) (File_Second as) k1 tr1 code k'"
    by (cases a) auto
  with Cons.IH show ?case by auto
qed

lemma file_first_calls:
  "runs L (file_main I) (File_First as) k tr 0 k' \<Longrightarrow>
     \<exists>fd fd2 fd3. map fst tr = as @ [Hooked (C_open FILENAME1 0 None), Hooked (C_dup fd), Hooked (C_dup2 fd 1000)] @
       file_changes I fd fd2 fd3"
proof (induction as arbitrary: k tr)
  case Nil
  from iffD1 [OF runs_iff Nil] obtain tr1 fd k1 where 1: "tr = (Hooked (C_open FILENAME1 0 None), k) # tr1"
      "runs L (file_main I) (if negative fd then File_Fail ''open'' else File_Dup fd) k1 tr1 0 k'" by auto
  with file_fails [of L I "''open''" k1 tr1 k'] have "runs L (file_main I) (File_Dup fd) k1 tr1 0 k'" by (auto split: if_splits)
  from iffD1 [OF runs_iff this] obtain tr2 fd2 k2 where 2: "tr1 = (Hooked (C_dup fd), k1) # tr2"
      "runs L (file_main I) (File_Dup2 fd fd2) k2 tr2 0 k'" by auto
  from iffD1 [OF runs_iff 2(2)] obtain tr3 fd3 k3 where 3: "tr2 = (Hooked (C_dup2 fd 1000), k2) # tr3"
      "runs L (file_main I) (File_Second (file_changes I fd fd2 fd3)) k3 tr3 0 k'" by auto
  from file_second_calls [OF 3(2)] show ?case by (auto simp: 1(1) 2(1) 3(1))
next
  case (Cons a as)
  from iffD1 [OF runs_iff Cons.prems] obtain k1 tr1 where "tr = (a, k) # tr1" "runs L (file_main I) (File_First as) k1 tr1 0 k'"
    by (cases a) auto
  with Cons.IH show ?case by fastforce
qed

lemma file_calls:
  assumes "runs L (file_main I) File_Start k tr 0 k'"
  shows "\<exists>fd1 fd fd2 fd3. map fst tr = [Hooked (C_creat FILENAME1 0x1a4), Hooked (C_chdir ''./././'')] @ file_writes I fd1 @
    [Hooked (C_open FILENAME1 0 None), Hooked (C_dup fd), Hooked (C_dup2 fd 1000)] @ file_changes I fd fd2 fd3"
proof -
  from iffD1 [OF runs_iff assms] obtain tr1 fd1 k1 where 1: "tr = (Hooked (C_creat FILENAME1 0x1a4), k) # tr1"
      "runs L (file_main I) (File_Chdir fd1) k1 tr1 0 k'" by auto
  from iffD1 [OF runs_iff 1(2)] obtain tr2 k2 where 2: "tr1 = (Hooked (C_chdir ''./././''), k1) # tr2"
      "runs L (file_main I) (if negative fd1 then File_Fail ''creat'' else File_First (file_writes I fd1)) k2 tr2 0 k'" by auto
  with file_fails [of L I "''creat''" k2 tr2 k'] have "runs L (file_main I) (File_First (file_writes I fd1)) k2 tr2 0 k'"
    by (auto split: if_splits)
  from file_first_calls [OF this] show ?thesis by (auto simp: 1(1) 2(1))
qed

lemma file_main_heeds: "heeds view streams (file_main I)"
proof -
  have "file_main I p k1 = file_main I p k2" for p k1 k2
    by (cases "(I, p, k1)" rule: file_main.cases) simp_all
  then show ?thesis by (simp add: heeds_def)
qed

text \<open>
  C27: the log of \<^verbatim>\<open>testcases/file.c\<close>.  When the program runs to its end, with every call
  served, the log under the monitor names exactly its calls with a hook, in their order:
  \<open>lseek\<close> and \<open>pread\<close> do not appear, and \<open>symlink\<close> appears as \<open>syslink\<close>; in a program that was
  compiled against an old C library, as the one in the repository, \<open>stat\<close> and \<open>lstat\<close> appear as
  \<open>__xstat\<close> and \<open>__lxstat\<close>.
\<close>

theorem file_test_log:
  assumes "separate_log L view streams apart"
    and "runs L (file_main I) File_Start (world m) as 0 k'" "\<forall>(a, k)\<in>set as. serves L apart dest a k"
  shows "\<exists>m' es. run_program L (file_main I) File_Start m = Some (Inr (0, m')) \<and> alike view streams (world m') k' \<and>
    logged m' = logged m @ es \<and>
    map (\<lambda>(d, t). (d, name_of_line t)) es = map (\<lambda>n. (dest, n))
      ([''creat'', ''chdir'', ''write'', ''write'', ''pwrite'', ''close'', ''open'', ''dup'', ''dup2'', ''read'', ''close'',
        if old_stat I then ''__xstat'' else ''stat'', ''chown'', ''chmod'', if old_stat I then ''__lxstat'' else ''lstat'',
        ''rename'', ''link'', ''unlink'', ''syslink'', ''readlink'', ''mkdir'',
        if old_stat I then ''__lxstat'' else ''lstat'', ''rmdir'', ''unlink'', ''remove''])"
proof -
  have "alike view streams (world m) (world m)" by (simp add: alike_def)
  then obtain m' es where m': "run_program L (file_main I) File_Start m = Some (Inr (0, m'))" "alike view streams (world m') k'"
      "logged m' = logged m @ es" "map (\<lambda>(d, t). (d, name_of_line t)) es = log_of dest L as"
    using separate_log.monitored_runs [OF assms(1,2,3) file_main_heeds] by blast
  obtain fd1 fd fd2 fd3 where calls: "map fst as = [Hooked (C_creat FILENAME1 0x1a4), Hooked (C_chdir ''./././'')] @ file_writes I fd1 @
      [Hooked (C_open FILENAME1 0 None), Hooked (C_dup fd), Hooked (C_dup2 fd 1000)] @ file_changes I fd fd2 fd3"
    using file_calls [OF assms(2)] by blast
  have "\<forall>a\<in>set (map fst as). \<forall>c. a = Hooked c \<longrightarrow> fname c \<noteq> ''readdir''"
    unfolding calls by (simp add: file_writes_def file_changes_def stat_call_def lstat_call_def)
  then have "map (\<lambda>(d, t). (d, name_of_line t)) es = map (\<lambda>n. (dest, n)) (names (map fst as))"
    using log_of_unsilent m'(4) by metis
  moreover have "names (map fst as) = [''creat'', ''chdir'', ''write'', ''write'', ''pwrite'', ''close'', ''open'', ''dup'', ''dup2'', ''read'', ''close'',
        if old_stat I then ''__xstat'' else ''stat'', ''chown'', ''chmod'', if old_stat I then ''__lxstat'' else ''lstat'',
        ''rename'', ''link'', ''unlink'', ''syslink'', ''readlink'', ''mkdir'',
        if old_stat I then ''__lxstat'' else ''lstat'', ''rmdir'', ''unlink'', ''remove'']"
    unfolding calls by (simp add: names_def file_writes_def file_changes_def shown_name_def stat_call_def lstat_call_def)
  ultimately show ?thesis using m'(1-3) by (intro exI [of _ m'] exI [of _ es]) (simp only: simp_thms)
qed

subsection \<open>A directory that is closed\<close>

context separate_log
begin

lemma run_program_faults:
  assumes "runs L P p k (as @ (Hooked c, k1) # rest) code k'" "\<forall>(a, k)\<in>set as. serves L apart dest a k"
    and "heeds view streams P" "alike view streams (world m) k"
    and "\<And>m1. alike view streams (world m1) k1 \<Longrightarrow> with_monitor L c m1 = Inl e"
  shows "run_program L P p m = Some (Inl e)"
  using assms(1,2,4)
proof (induction p k "as @ (Hooked c, k1) # rest" code k' arbitrary: m as rule: runs.induct)
  case (Calls p k c1 q r k2 as1 code k')
  have P: "P p (world m) = Inr (Hooked c1, q)" using Calls.hyps(1) Calls.prems(2) assms(3) by (metis heeds_def)
  show ?case
  proof (cases as)
    case Nil
    then have "c1 = c" "k = k1" using Calls.hyps(5) by simp_all
    with assms(5) P Calls.prems(2) show ?thesis by (subst run_program.simps) simp
  next
    case (Cons x xs)
    then have x: "x = (Hooked c1, k)" "as1 = xs @ (Hooked c, k1) # rest" using Calls.hyps(5) by simp_all
    obtain m1 where m1: "with_monitor L c1 m = Inr (r, m1)" "alike view streams (world m1) k2"
      using monitored_call [OF _ Calls.prems(2), of dest c1] Calls.prems(1) Calls.hyps(2) Cons x(1) by auto
    have "run_program L P (q r) m1 = Some (Inl e)"
      using Calls.hyps(4) [OF x(2) _ m1(2)] Calls.prems(1) Cons by simp
    with P m1(1) show ?thesis by (subst run_program.simps) simp
  qed
next
  case (Other p k f args q r k2 as1 code k')
  have P: "P p (world m) = Inr (Direct f args, q)" using Other.hyps(1) Other.prems(2) assms(3) by (metis heeds_def)
  from Other.hyps(5) obtain xs where x: "as = (Direct f args, k) # xs" "as1 = xs @ (Hooked c, k1) # rest"
    by (cases as) auto
  have "apart f args" using Other.prems(1) x(1) by (simp add: serves_def)
  from call_apart [OF this Other.prems(2)] have
    k2: "fst (real_call L f args (world m)) = r" "alike view streams (snd (real_call L f args (world m))) k2"
    using Other.hyps(2) by simp_all
  have "run_program L P (q r) (m\<lparr>world := snd (real_call L f args (world m))\<rparr>) = Some (Inl e)"
    using Other.hyps(4) [OF x(2)] Other.prems(1) k2(2) x(1) by simp
  with P k2(1) show ?case by (subst run_program.simps) (simp add: split_beta)
qed simp

lemma dir_main_heeds: "heeds view streams (dir_main L)"
proof -
  have "dir_main L p k1 = dir_main L p k2" if "alike view streams k1 k2" for p k1 k2
    using same_texts [OF that] by (cases "(L, p, k1)" rule: dir_main.cases) simp_all
  then show ?thesis by (simp add: heeds_def)
qed

end

lemma dir_closes:
  "runs L (dir_main L) p k as 0 k' \<Longrightarrow> p = Dir_Next d \<or> p = Dir_Close d \<or> (\<exists>e. p = Dir_Show d e) \<Longrightarrow>
     \<exists>as' k1. as = as' @ [(Hooked (C_closedir d), k1)]"
proof (induction p k as "0 :: u32" k' rule: runs.induct)
  case (Calls p k c q r k1 as k')
  consider "p = Dir_Next d" | "p = Dir_Close d" using Calls.prems Calls.hyps(1) by auto
  then show ?case
  proof cases
    case 1
    then have "q r = Dir_Next d \<or> q r = Dir_Close d \<or> (\<exists>e. q r = Dir_Show d e)"
      using Calls.hyps(1) by (auto split: if_splits)
    from Calls.hyps(4) [OF this] show ?thesis by (metis append_Cons)
  next
    case 2
    then have c: "c = C_closedir d" "q r = Dir_End 0" using Calls.hyps(1) by auto
    have "as = []" using iffD1 [OF runs_iff Calls.hyps(3)] by (simp add: c(2))
    then show ?thesis using c(1) by simp
  qed
next
  case (Other p k f args q r k1 as k')
  then have "q r = Dir_Next d" by auto
  from Other.hyps(4) this show ?case by (metis append_Cons)
qed auto

text \<open>
  C28: \<^verbatim>\<open>testcases/dir.c\<close> under the monitor.  The program lists a directory and ends with
  exit code 0 when it runs by itself.  Under the monitor, wherever its calls up to the last can
  be served, it never gets there: it runs as before up to the call of \<open>closedir\<close>, whose hook
  asks for the descriptor of a directory stream that has been closed (after \<open>closedir\<close> a
  stream is no longer available).
\<close>

theorem dir_test_faults:
  assumes "separate_log L view streams apart"
    and "runs L (dir_main L) Dir_Start (world m) as 0 k'" "\<forall>(a, k)\<in>set (butlast as). serves L apart dest a k"
    and "has_function L ''closedir''" "\<forall>d k. dirfd L d (snd (real_call L ''closedir'' [Word d] k)) = None"
  shows "run_program L (dir_main L) Dir_Start m = Some (Inl Use_After_Free)"
proof -
  from iffD1 [OF runs_iff assms(2)] obtain as1 d k1 where 1: "as = (Hooked (C_opendir ''.''), world m) # as1"
      "runs L (dir_main L) (if d = 0 then Dir_End (- 1) else Dir_Next d) k1 as1 0 k'" by auto
  have "\<not> runs L (dir_main L) (Dir_End (- 1)) k1 as1 0 k'" by (simp add: runs_iff)
  with 1(2) have "runs L (dir_main L) (Dir_Next d) k1 as1 0 k'" by (auto split: if_splits)
  from dir_closes [OF this] obtain as' k2 where 2: "as1 = as' @ [(Hooked (C_closedir d), k2)]" by blast
  have closes: "with_monitor L (C_closedir d) m1 = Inl Use_After_Free" for m1 :: "'a mon"
    using assms(4,5) by (simp add: closedir_mon_def BEGIN_MON_def load_function_def call_real_def split_beta get_dir_name_def)
  have all: "as = ((Hooked (C_opendir ''.''), world m) # as') @ [(Hooked (C_closedir d), k2)]" by (simp add: 1(1) 2)
  have "\<forall>(a, k)\<in>set ((Hooked (C_opendir ''.''), world m) # as'). serves L apart dest a k"
    using assms(3) unfolding all by (simp only: butlast_snoc)
  moreover have "alike view streams (world m) (world m)" by (simp add: alike_def)
  ultimately show ?thesis
    using separate_log.run_program_faults [OF assms(1) assms(2) [unfolded all] _ separate_log.dir_main_heeds [OF assms(1)]] closes
    by blast
qed

end
