(* ===== verification/Program_Sessions.thy ===== *)
theory Program_Sessions
  imports Fs_Programs
begin

text \<open>
  Closed examples for programs under the monitor, on two C libraries that keep to the contract
  \<open>separate_log\<close>.
\<close>

subsection \<open>A library in which everything succeeds, with a log file\<close>

text \<open>
  The state: the open streams, and the text of the log \<^verbatim>\<open>/tmp/log\<close>, whose stream is \<open>9\<close>.
\<close>

type_synonym log_state = "u64 set \<times> string"

definition opens_log :: "string \<Rightarrow> carg list \<Rightarrow> bool" where
  "opens_log f args \<longleftrightarrow> f = ''fopen'' \<and> args = [Text ''/tmp/log'', Text ''a'']"

definition closes_log :: "string \<Rightarrow> carg list \<Rightarrow> bool" where
  "closes_log f args \<longleftrightarrow> f = ''fclose'' \<and> args = [Word 9]"

definition easy_libc :: "log_state libc" where
  "easy_libc = \<lparr>has_function = \<lambda>_. True,
     real_call = (\<lambda>f args k.
       if opens_log f args then (if 9 \<in> fst k then (0, k) else (9, (insert 9 (fst k), snd k)))
       else if closes_log f args then (0, (fst k - {9}, snd k)) else (5, k)),
     real_readlink = \<lambda>p k. Some ''/tmp/a'', fileno = \<lambda>p k. 5, dirfd = \<lambda>p k. Some 5,
     monitor_output = \<lambda>k. Some ''/tmp/log'',
     put_text = \<lambda>fp t k. if fp = 9 then (fst k, snd k @ t) else k, std_err = 2, third_arg = \<lambda>k. 77,
     text_at = \<lambda>a k. [], d_name_at = \<lambda>a k. [], stat_at = \<lambda>a k. (0x81a4, 0)\<rparr>"

definition easy_apart :: "string \<Rightarrow> carg list \<Rightarrow> bool" where
  "easy_apart f args \<longleftrightarrow> \<not> opens_log f args \<and> \<not> closes_log f args"

abbreviation no_view :: "log_state \<Rightarrow> unit" where
  "no_view k \<equiv> ()"

interpretation easy: separate_log easy_libc no_view fst easy_apart
  by unfold_locales
    (auto simp: easy_libc_def easy_apart_def alike_def opens_log_def closes_log_def log_opens_def split: if_splits)

definition easy_exe :: "log_state exe" where
  "easy_exe = \<lparr>literal = \<lambda>s. 0x2000, variable = \<lambda>s. 0x3000, value_at = \<lambda>a k. 0, std_in = 0x4000, std_out = 0x4008,
     old_stat = True\<rparr>"

definition fresh_mon :: "'k \<Rightarrow> 'k mon" where
  "fresh_mon k = \<lparr>world = k, filename = [], buff1 = replicate 128 NUL, logged = []\<rparr>"

lemma world_fresh [simp]: "world (fresh_mon k) = k" "logged (fresh_mon k) = []"
  by (simp_all add: fresh_mon_def)

theorem monitor_is_transparent_witness:
  "\<exists>m' k'. run_monitored easy_libc [C_mkdir ''d'' 493, C_close 6] (fresh_mon ({}, [])) = Inr ([5, 5], m') \<and>
     run_bare easy_libc [C_mkdir ''d'' 493, C_close 6] ({}, []) = ([5, 5], k') \<and>
     fst (world m') = fst k' \<and> snd (world m') \<noteq> snd k'"
proof -
  let ?cs = "[C_mkdir ''d'' 493, C_close 6]"
  have log: "opens_log ''fopen'' [Text ''/tmp/log'', Text ''a'']" "\<not> opens_log ''fclose'' x" "closes_log ''fclose'' [Word 9]"
    "\<not> opens_log ''mkdir'' x" "\<not> closes_log ''mkdir'' x" "\<not> opens_log ''close'' x" "\<not> closes_log ''close'' x" for x
    by (simp_all add: opens_log_def closes_log_def)
  obtain m' where m': "run_monitored easy_libc ?cs (fresh_mon ({}, [])) = Inr ([5, 5], m')" "snd (world m') \<noteq> []"
    by (simp add: mkdir_mon_def close_mon_def BEGIN_MON_def call_real_def load_function_def write_msg_def
        easy_libc_def log)
  have "\<forall>c\<in>set ?cs. set_apart easy_libc easy_apart c"
    by (simp add: set_apart_def easy_apart_def log)
  note result = monitor_is_transparent [OF easy.separate_log_axioms m'(1) this, unfolded world_fresh]
  then obtain cs' rs' k' where r: "(\<forall>c\<in>set ?cs. \<not> creates c) \<longrightarrow> cs' = ?cs" "run_bare easy_libc cs' ({}, []) = (rs', k')"
      "alike no_view fst (world m') k'" by blast
  have "cs' = ?cs" using r(1) by simp
  with r have b: "run_bare easy_libc ?cs ({}, []) = (rs', k')" "alike no_view fst (world m') k'" by simp_all
  moreover have "rs' = [5, 5]" "k' = ({}, [])" using b(1) by (auto simp: easy_libc_def log seen_def)
  ultimately show ?thesis using m' by (auto simp: alike_def)
qed

subsection \<open>\<^verbatim>\<open>file.c\<close> on it\<close>

lemma easy_call: "f \<notin> {''fopen'', ''fclose''} \<Longrightarrow> real_call easy_libc f args k = (5, k)"
  by (simp add: easy_libc_def opens_log_def closes_log_def)

lemma called_name: "passed_on c c' \<Longrightarrow> fst (called L k c') = fst (called L k0 c)"
  by (cases c) (auto split: fs_call.splits)

lemma easy_set_apart:
  assumes "fst (called easy_libc ({}, []) c) \<notin> {''fopen'', ''fclose''}"
  shows "set_apart easy_libc easy_apart c"
proof -
  have "fst (called easy_libc k c') \<notin> {''fopen'', ''fclose''}" if "passed_on c c'" for c' k
    using called_name [OF that, of easy_libc k "({}, [])"] assms by simp
  then show ?thesis by (auto simp: set_apart_def easy_apart_def opens_log_def closes_log_def)
qed

lemma seen_5: "seen 5 = 5"
  by (simp add: seen_def)

lemma easy_bare: "fst (called easy_libc k c) \<notin> {''fopen'', ''fclose''} \<Longrightarrow> bare easy_libc c k = (5, k)"
  by (simp add: bare_def split_beta easy_call seen_5)

lemma easy_step:
  assumes "fst (called easy_libc k c) \<notin> {''fopen'', ''fclose''}" "P p k = Inr (Hooked c, q)" "runs easy_libc P (q 5) k as code k'"
  shows "runs easy_libc P p k ((Hooked c, k) # as) code k'"
  using assms by (intro Calls [where r = 5 and ?k1.0 = k] easy_bare)

lemma easy_other:
  assumes "f \<notin> {''fopen'', ''fclose''}" "P p k = Inr (Direct f args, q)" "runs easy_libc P (q 5) k as code k'"
  shows "runs easy_libc P p k ((Direct f args, k) # as) code k'"
  using assms by (intro Other [where r = 5 and ?k1.0 = k] easy_call)

definition plain_call :: "action \<Rightarrow> bool" where
  "plain_call a = (case a of Hooked c \<Rightarrow> fst (called easy_libc ({}, []) c) \<notin> {''fopen'', ''fclose''}
     | Direct f args \<Rightarrow> f \<notin> {''fopen'', ''fclose''})"

abbreviation quiet_start :: log_state where
  "quiet_start \<equiv> ({}, [])"

lemma easy_second:
  "\<forall>a\<in>set as. plain_call a \<Longrightarrow>
     runs easy_libc (file_main easy_exe) (File_Second as) quiet_start (map (\<lambda>a. (a, quiet_start)) as) 0 quiet_start"
proof (induction as)
  case Nil
  show ?case by (rule iffD2 [OF runs_iff]) simp
next
  case (Cons a as)
  then show ?case by (cases a) (auto simp: plain_call_def intro!: easy_step easy_other)
qed

lemma file_plain: "\<forall>a\<in>set (file_writes easy_exe 5). plain_call a" "\<forall>a\<in>set (file_changes easy_exe 5 5 5). plain_call a"
  by (simp_all add: file_writes_def file_changes_def plain_call_def stat_call_def lstat_call_def easy_exe_def)

definition easy_actions :: "action list" where
  "easy_actions = [Hooked (C_creat FILENAME1 0x1a4), Hooked (C_chdir ''./././'')] @ file_writes easy_exe 5 @
     [Hooked (C_open FILENAME1 0 None), Hooked (C_dup 5), Hooked (C_dup2 5 1000)] @ file_changes easy_exe 5 5 5"

lemma not_negative_5: "\<not> negative 5"
  by (simp add: negative_def)

lemma easy_first:
  "\<forall>a\<in>set as. plain_call a \<Longrightarrow>
     runs easy_libc (file_main easy_exe) (File_First as) quiet_start (map (\<lambda>a. (a, quiet_start))
       (as @ [Hooked (C_open FILENAME1 0 None), Hooked (C_dup 5), Hooked (C_dup2 5 1000)] @ file_changes easy_exe 5 5 5)) 0 quiet_start"
proof (induction as)
  case Nil
  show ?case
    using easy_second [OF file_plain(2)] not_negative_5 by (auto intro!: easy_step)
next
  case (Cons a as)
  then show ?case by (cases a) (auto simp: plain_call_def intro!: easy_step easy_other)
qed

lemma easy_file:
  "runs easy_libc (file_main easy_exe) File_Start quiet_start (map (\<lambda>a. (a, quiet_start)) easy_actions) 0 quiet_start"
  using easy_first [OF file_plain(1)] not_negative_5 unfolding easy_actions_def by (auto intro!: easy_step)

lemma easy_serves: "\<forall>(a, k)\<in>set (map (\<lambda>a. (a, quiet_start)) easy_actions). serves easy_libc easy_apart (Some ''/tmp/log'') a k"
proof -
  have apart: "easy_apart f args" if "f \<notin> {''fopen'', ''fclose''}" for f args
    using that by (simp add: easy_apart_def opens_log_def closes_log_def)
  have log: "log_to easy_libc quiet_start (Some ''/tmp/log'')"
    by (simp add: log_to_def log_opens_def easy_libc_def opens_log_def)
  have has: "has_function easy_libc f" "resolves easy_libc 5 k" "stat_at easy_libc a k = (0x81a4, 0)" for f a k
    by (simp_all add: easy_libc_def resolves_def)
  have "serves easy_libc easy_apart (Some ''/tmp/log'') a quiet_start" if "a \<in> set easy_actions" for a
    using that unfolding easy_actions_def file_writes_def file_changes_def
    by (simp add: stat_call_def lstat_call_def easy_exe_def)
      (elim disjE; simp add: serves_def served_def looked_up_def easy_bare easy_call seen_5 log has easy_set_apart apart
        arrives_def needs_mode_def)
  then show ?thesis by auto
qed

theorem monitored_program_witness:
  "\<exists>m' es. run_program easy_libc (file_main easy_exe) File_Start (fresh_mon quiet_start) = Some (Inr (0, m')) \<and>
     fst (world m') = {} \<and> logged m' = es \<and> length es = 25"
proof -
  have r: "runs easy_libc (file_main easy_exe) File_Start (world (fresh_mon quiet_start))
      (map (\<lambda>a. (a, quiet_start)) easy_actions) 0 quiet_start" using easy_file by simp
  obtain m' es where m': "run_program easy_libc (file_main easy_exe) File_Start (fresh_mon quiet_start) = Some (Inr (0, m'))"
      "alike no_view fst (world m') quiet_start" "logged m' = es"
      "map (\<lambda>(d, t). (d, name_of_line t)) es = log_of (Some ''/tmp/log'') easy_libc (map (\<lambda>a. (a, quiet_start)) easy_actions)"
    using monitored_program [OF easy.separate_log_axioms file_main_heeds r easy_serves] by auto
  have "length es = length (log_of (Some ''/tmp/log'') easy_libc (map (\<lambda>a. (a, quiet_start)) easy_actions))"
    using m'(4) by (metis length_map)
  also have "\<dots> = 25"
    by (simp add: log_of_def silent_def easy_actions_def file_writes_def file_changes_def stat_call_def lstat_call_def easy_exe_def)
  finally show ?thesis using m'(1-3) by (auto simp: alike_def)
qed

theorem file_test_log_witness:
  "\<exists>m' es. run_program easy_libc (file_main easy_exe) File_Start (fresh_mon quiet_start) = Some (Inr (0, m')) \<and> logged m' = es \<and>
     map (\<lambda>(d, t). name_of_line t) (drop 9 es) =
       [''read'', ''close'', ''__xstat'', ''chown'', ''chmod'', ''__lxstat'', ''rename'', ''link'', ''unlink'', ''syslink'',
        ''readlink'', ''mkdir'', ''__lxstat'', ''rmdir'', ''unlink'', ''remove'']"
proof -
  have r: "runs easy_libc (file_main easy_exe) File_Start (world (fresh_mon quiet_start))
      (map (\<lambda>a. (a, quiet_start)) easy_actions) 0 quiet_start" using easy_file by simp
  have old: "old_stat easy_exe" by (simp add: easy_exe_def)
  obtain m' es where m': "run_program easy_libc (file_main easy_exe) File_Start (fresh_mon quiet_start) = Some (Inr (0, m'))"
      "logged m' = es" and es: "map (\<lambda>(d, t). (d, name_of_line t)) es = map (\<lambda>n. (Some ''/tmp/log'', n))
      [''creat'', ''chdir'', ''write'', ''write'', ''pwrite'', ''close'', ''open'', ''dup'', ''dup2'', ''read'', ''close'',
       ''__xstat'', ''chown'', ''chmod'', ''__lxstat'', ''rename'', ''link'', ''unlink'', ''syslink'', ''readlink'', ''mkdir'',
       ''__lxstat'', ''rmdir'', ''unlink'', ''remove'']"
    using file_test_log [OF easy.separate_log_axioms r easy_serves] unfolding if_P [OF old] by auto
  have "map (\<lambda>(d, t). name_of_line t) (drop 9 es) = map snd (drop 9 (map (\<lambda>(d, t). (d, name_of_line t)) es))"
    by (simp add: drop_map comp_def split_beta)
  with m' show ?thesis unfolding es by simp
qed

subsection \<open>A directory\<close>

text \<open>The state: whether the directory is open.\<close>

definition dir_libc :: "bool libc" where
  "dir_libc = \<lparr>has_function = \<lambda>_. True,
     real_call = (\<lambda>f args k. if f = ''opendir'' then (7, True) else if f = ''closedir'' then (0, False) else (0, k)),
     real_readlink = (\<lambda>p k. Some ''/tmp''), fileno = \<lambda>p k. 5, dirfd = \<lambda>p k. if k then Some 5 else None,
     monitor_output = \<lambda>k. None, put_text = \<lambda>fp t k. k, std_err = 2, third_arg = \<lambda>k. 77,
     text_at = \<lambda>a k. [], d_name_at = \<lambda>a k. [], stat_at = \<lambda>a k. (0x81a4, 0)\<rparr>"

abbreviation any_call :: "string \<Rightarrow> carg list \<Rightarrow> bool" where
  "any_call f args \<equiv> True"

interpretation dir: separate_log dir_libc id "\<lambda>_. {}" any_call
  by unfold_locales (simp_all add: dir_libc_def alike_def)

lemma dir_run:
  "runs dir_libc (dir_main dir_libc) Dir_Start False
     [(Hooked (C_opendir ''.''), False), (Hooked (C_readdir 7), True), (Hooked (C_closedir 7), True)] 0 False"
proof -
  have "runs dir_libc (dir_main dir_libc) (Dir_End 0) False [] 0 False" by (rule iffD2 [OF runs_iff]) simp
  then have "runs dir_libc (dir_main dir_libc) (Dir_Close 7) True [(Hooked (C_closedir 7), True)] 0 False"
    by (intro iffD2 [OF runs_iff]) (simp add: dir_libc_def)
  then have "runs dir_libc (dir_main dir_libc) (Dir_Next 7) True [(Hooked (C_readdir 7), True), (Hooked (C_closedir 7), True)] 0 False"
    by (intro iffD2 [OF runs_iff]) (simp add: dir_libc_def)
  then show ?thesis by (intro iffD2 [OF runs_iff]) (simp add: dir_libc_def)
qed

theorem dir_test_faults_witness:
  "run_program dir_libc (dir_main dir_libc) Dir_Start (fresh_mon False) = Some (Inl Use_After_Free)"
proof -
  have r: "runs dir_libc (dir_main dir_libc) Dir_Start (world (fresh_mon False))
      [(Hooked (C_opendir ''.''), False), (Hooked (C_readdir 7), True), (Hooked (C_closedir 7), True)] 0 False"
    using dir_run by simp
  have "\<forall>(a, k)\<in>set (butlast [(Hooked (C_opendir ''.''), False), (Hooked (C_readdir 7), True), (Hooked (C_closedir 7), True)]).
      serves dir_libc any_call None a k"
    by (simp add: serves_def served_def looked_up_def log_to_def log_opens_def set_apart_def arrives_def)
      (simp add: dir_libc_def resolves_def)
  from dir_test_faults [OF dir.separate_log_axioms r this] show ?thesis by (simp add: dir_libc_def)
qed

end
