(* ===== verification/Mini_Alarm.thy ===== *)
theory Mini_Alarm
  imports Mini_Memory Mini_Programs
begin

text \<open>
  Waiting for signals: the programs \<^verbatim>\<open>alarm1.c\<close>, \<^verbatim>\<open>alarm2.c\<close>, \<^verbatim>\<open>alarm3.c\<close> and \<^verbatim>\<open>test.c\<close> of
  \<^verbatim>\<open>hw3\<close> over the library, and the return stub \<open>restore_rt\<close>.  The kernel is a parameter; how
  Linux treats signals is the contract \<open>unix_signals\<close>.
\<close>

subsection \<open>Programs that may be stopped\<close>

text \<open>
  A call may end the process, by a signal, or may wait for ever; the kernel says so in its
  state.  \<open>u_write\<close> gets the file descriptor and the bytes; \<open>u_load\<close> and \<open>u_store\<close> are the
  program's own accesses to its memory.
\<close>

datatype stop = Killed u32 | Asleep

record 'k unix =
  u_call :: "'k kernel"
  u_act :: "'k act_kernel"
  u_nap :: "'k nap"
  u_write :: "u32 \<Rightarrow> string \<Rightarrow> 'k \<Rightarrow> u64 \<times> 'k"
  u_load :: "u64 \<Rightarrow> 'k \<Rightarrow> u64"
  u_store :: "u64 \<Rightarrow> u64 \<Rightarrow> 'k \<Rightarrow> 'k"
  u_stopped :: "'k \<Rightarrow> stop option"

datatype 'k outcome = Exited u32 "'k proc" | Stopped stop "'k proc"

definition proceed :: "'k unix \<Rightarrow> 'r \<times> 'k proc \<Rightarrow> ('r \<Rightarrow> 'k proc \<Rightarrow> 'k outcome res) \<Rightarrow> 'k outcome res" where
  "proceed U rp go =
     (case u_stopped U (kern (snd rp)) of
        Some e \<Rightarrow> Inr (Stopped e (snd rp))
      | None \<Rightarrow> go (fst rp) (snd rp))"

definition store_at :: "'k unix \<Rightarrow> u64 \<Rightarrow> u64 \<Rightarrow> 'k proc \<Rightarrow> 'k proc" where
  "store_at U a w p = p\<lparr>kern := u_store U a w (kern p)\<rparr>"

definition write_1 :: "'k unix \<Rightarrow> string \<Rightarrow> 'k proc \<Rightarrow> unit \<times> 'k proc" where
  "write_1 U s p = ((), write_err (u_write U 1) s p)"

text \<open>\<open>mov $15, %rax; syscall\<close>.\<close>

definition restore_rt :: "'k unix \<Rightarrow> 'k \<Rightarrow> 'k" where
  "restore_rt U k = snd (u_call U 15 [] k)"

subsection \<open>The programs\<close>

definition SIGINT :: u32 where "SIGINT = 2"
definition SIG_IGN :: u64 where "SIG_IGN = 1"

definition alarm1_main :: "'k unix \<Rightarrow> 'k proc \<Rightarrow> 'k outcome res" where
  "alarm1_main U p =
     proceed U (alarm (u_call U) 3 p) (\<lambda>_ p.
     proceed U (pause (u_call U) p) (\<lambda>_ p.
       Inr (Exited 0 p)))"

text \<open>What \<^verbatim>\<open>alarm2.c\<close> and \<^verbatim>\<open>alarm3.c\<close> share; \<open>s\<close> is the address of their local variable.\<close>

definition block_alarm :: "'k unix \<Rightarrow> u64 \<Rightarrow> 'k proc \<Rightarrow> ('k proc \<Rightarrow> 'k outcome res) \<Rightarrow> 'k outcome res" where
  "block_alarm U s p go =
     (let p = store_at U s (sigemptyset (u_load U s (kern p))) p in
      thenR (sigaddset (u_load U s (kern p)) SIGALRM) (\<lambda>w.
      proceed U (sigprocmask (u_call U) SIG_BLOCK s 0 (store_at U s w p)) (\<lambda>_ p. go p)))"

text \<open>\<open>sizeof(m)\<close> counts the terminating zero.\<close>

definition pending_line :: "bool \<Rightarrow> string" where
  "pending_line on =
     (if on then ''sigalrm is pending.'' @ newline else ''sigalrm is not pending.'' @ newline) @ [CHR 0x00]"

definition report_pending :: "'k unix \<Rightarrow> u64 \<Rightarrow> 'k proc \<Rightarrow> 'k outcome res" where
  "report_pending U s p =
     proceed U (sigpending (u_call U) s p) (\<lambda>r p.
     thenR (if sint r < 0 then perror (u_write U 2) (Some ''sigpending'') p else Inr p) (\<lambda>p.
     thenR (sigismember (u_load U s (kern p)) SIGALRM) (\<lambda>is.
     proceed U (write_1 U (pending_line (is \<noteq> 0)) p) (\<lambda>_ p.
       Inr (Exited 0 p)))))"

definition alarm2_main :: "'k unix \<Rightarrow> u64 \<Rightarrow> u64 \<Rightarrow> 'k proc \<Rightarrow> 'k outcome res" where
  "alarm2_main U s rem0 p =
     block_alarm U s p (\<lambda>p.
     proceed U (alarm (u_call U) 3 p) (\<lambda>_ p.
     proceed U (sleep_asm (u_nap U) rem0 5 p) (\<lambda>_ p.
       report_pending U s p)))"

text \<open>What the stack holds where \<open>signal\<close> has its three structures.\<close>

record stack0 =
  kact0 :: kernel_sigaction
  act0 :: sigaction_t
  oact0 :: sigaction_t

definition call_signal :: "'k unix \<Rightarrow> u64 \<Rightarrow> stack0 \<Rightarrow> u32 \<Rightarrow> u64 \<Rightarrow> 'k proc \<Rightarrow> (u64 \<times> 'k proc) res" where
  "call_signal U restorer j sig h p = signal restorer (u_act U) (kact0 j) (act0 j) (oact0 j) sig h p"

definition alarm3_main :: "'k unix \<Rightarrow> u64 \<Rightarrow> u64 \<Rightarrow> stack0 \<Rightarrow> u64 \<Rightarrow> 'k proc \<Rightarrow> 'k outcome res" where
  "alarm3_main U restorer handler j s p =
     block_alarm U s p (\<lambda>p.
     thenR (call_signal U restorer j SIGALRM SIG_IGN p) (\<lambda>r. proceed U r (\<lambda>_ p.
     thenR (call_signal U restorer j SIGINT handler p) (\<lambda>r. proceed U r (\<lambda>_ p.
     proceed U (alarm (u_call U) 1 p) (\<lambda>_ p.
     proceed U (pause (u_call U) p) (\<lambda>_ p.
     proceed U (write_1 U (''after pause'' @ newline) p) (\<lambda>_ p.
       report_pending U s p))))))))"

definition test_handler :: "'k unix \<Rightarrow> 'k proc \<Rightarrow> 'k proc" where
  "test_handler U p = snd (write_1 U (''inside handler'' @ newline) p)"

definition test_c_main :: "'k unix \<Rightarrow> u64 \<Rightarrow> u64 \<Rightarrow> stack0 \<Rightarrow> 'k proc \<Rightarrow> 'k outcome res" where
  "test_c_main U restorer handler j p =
     thenR (call_signal U restorer j SIGALRM handler p) (\<lambda>r. proceed U r (\<lambda>_ p.
     thenR (perror (u_write U 2) (Some []) p) (\<lambda>p.
     proceed U (alarm (u_call U) 2 p) (\<lambda>_ p.
     proceed U (pause (u_call U) p) (\<lambda>_ p.
     proceed U (write_1 U (''after pause'' @ newline) p) (\<lambda>_ p.
       Inr (Exited 0 p)))))))"

subsection \<open>Signals in the kernel\<close>

lemma unat_u32_u64: "unat (ucast n :: u64) = unat n" for n :: u32
proof -
  have "unat n < 2 ^ 32" using unsigned_less [of n, where 'a = nat] by simp
  then show ?thesis by (simp add: unsigned_ucast_eq take_bit_nat_eq_self)
qed

text \<open>
  What the kernel keeps of a process: the blocked signals, the ones that wait to be
  delivered, the actions, the signals that will be sent to it (with the seconds since the one
  before), the masks to come back to when handlers return, whether it was stopped, and what
  was written to its files.
\<close>

record signals =
  blocked :: u64
  held :: u64
  actions :: "u32 \<Rightarrow> kernel_sigaction"
  coming :: "(nat \<times> u32) list"
  frames :: "u64 list"
  stopped :: "stop option"
  shown :: "u32 \<Rightarrow> string"

definition append_to :: "u32 \<Rightarrow> string \<Rightarrow> (u32 \<Rightarrow> string) \<Rightarrow> (u32 \<Rightarrow> string)" where
  "append_to fd s w = w(fd := w fd @ s)"

lemma append_to_twice: "append_to fd s (append_to fd t w) = append_to fd (t @ s) w"
  by (simp add: append_to_def)

lemma append_to_nil: "append_to fd [] w = w"
  by (simp add: append_to_def)

definition sig_word :: "u32 \<Rightarrow> u64" where
  "sig_word sig = push_bit (nat (sint sig - 1)) 1"

definition is_blocked :: "signals \<Rightarrow> u32 \<Rightarrow> bool" where
  "is_blocked v sig \<longleftrightarrow> blocked v AND sig_word sig \<noteq> 0"

fun send_in :: "nat \<Rightarrow> u32 \<Rightarrow> (nat \<times> u32) list \<Rightarrow> (nat \<times> u32) list" where
  "send_in n sig [] = [(n, sig)]"
| "send_in n sig ((d, x) # q) = (if n < d then (n, sig) # (d - n, x) # q else (d, x) # send_in (n - d) sig q)"

definition in_handler :: "u32 \<Rightarrow> kernel_sigaction \<Rightarrow> signals \<Rightarrow> signals" where
  "in_handler sig a v =
     v\<lparr>blocked := (blocked v OR k_sa_mask a OR (if k_sa_flags a AND SA_NODEFER \<noteq> 0 then 0 else sig_word sig)) AND NOT unblockable,
       frames := blocked v # frames v,
       actions := (if k_sa_flags a AND SA_RESETHAND \<noteq> 0 then (actions v)(sig := a\<lparr>k_sa_handler := 0\<rparr>) else actions v)\<rparr>"

text \<open>
  The contract, for \<open>SIGINT\<close> and \<open>SIGALRM\<close>, whose default is to end the process.  Time passes
  only while the process waits.  A signal that comes to a waiting process is kept when it is
  blocked, dropped when it is ignored, and otherwise
  ends the process or runs its handler, which returns through the restorer; then \<open>pause\<close> is
  over.

  A signal that is blocked and ignored is kept.  That is what the Linux kernel does; POSIX
  leaves it open, and the manual page of \<open>sigpending\<close> has it dropped.
\<close>

locale unix_signals =
  fixes U :: "'k unix" and view :: "'k \<Rightarrow> signals" and code :: "u64 \<Rightarrow> 'k \<Rightarrow> 'k"
  assumes stopped_view: "u_stopped U k = stopped (view k)"
    and load_store: "u_load U a (u_store U a w k) = w"
    and store_view: "view (u_store U a w k) = view k"
    and write_law: "stopped (view k) = None \<Longrightarrow> fd = 1 \<or> fd = 2 \<Longrightarrow> length s < 2 ^ 31 \<Longrightarrow>
      \<exists>k'. u_write U fd s k = (of_nat (length s), k') \<and>
        view k' = (view k)\<lparr>shown := append_to fd s (shown (view k))\<rparr>"
    and act_law: "stopped (view k) = None \<Longrightarrow> sig = SIGINT \<or> sig = SIGALRM \<Longrightarrow>
      \<exists>k'. u_act U sig act k = ((0, actions (view k) sig), k') \<and>
        view k' = (view k)\<lparr>actions := (actions (view k))(sig := act),
          held := (if k_sa_handler act = SIG_IGN then held (view k) AND NOT (sig_word sig) else held (view k))\<rparr>"
    and block_law: "stopped (view k) = None \<Longrightarrow> a \<noteq> 0 \<Longrightarrow>
      \<exists>k'. u_call U 14 [scast SIG_BLOCK, a, 0, 8] k = (0, k') \<and>
        view k' = (view k)\<lparr>blocked := new_mask SIG_BLOCK (Some (u_load U a k)) (blocked (view k))\<rparr>"
    and pending_law: "stopped (view k) = None \<Longrightarrow> a \<noteq> 0 \<Longrightarrow>
      \<exists>k'. u_call U 127 [a, 8] k = (0, k') \<and> view k' = view k \<and> u_load U a k' = held (view k) AND blocked (view k)"
    and alarm_law: "stopped (view k) = None \<Longrightarrow> SIGALRM \<notin> snd ` set (coming (view k)) \<Longrightarrow> 0 < unat n \<Longrightarrow>
      \<exists>k'. u_call U 37 [n] k = (0, k') \<and> view k' = (view k)\<lparr>coming := send_in (unat n) SIGALRM (coming (view k))\<rparr>"
    and return_law: "stopped (view k) = None \<Longrightarrow> frames (view k) = m # ms \<Longrightarrow>
      \<exists>r k'. u_call U 15 [] k = (r, k') \<and> view k' = (view k)\<lparr>blocked := m, frames := ms\<rparr>"
    and pause_alone: "stopped (view k) = None \<Longrightarrow> coming (view k) = [] \<Longrightarrow>
      \<exists>r k'. u_call U 34 [] k = (r, k') \<and> view k' = (view k)\<lparr>stopped := Some Asleep\<rparr>"
    and pause_blocked: "stopped (view k) = None \<Longrightarrow> coming (view k) = (d, sig) # q \<Longrightarrow> is_blocked (view k) sig \<Longrightarrow>
      \<exists>k'. u_call U 34 [] k = u_call U 34 [] k' \<and>
        view k' = (view k)\<lparr>coming := q, held := held (view k) OR sig_word sig\<rparr>"
    and pause_ignored: "stopped (view k) = None \<Longrightarrow> coming (view k) = (d, sig) # q \<Longrightarrow> \<not> is_blocked (view k) sig \<Longrightarrow>
      k_sa_handler (actions (view k) sig) = SIG_IGN \<Longrightarrow>
      \<exists>k'. u_call U 34 [] k = u_call U 34 [] k' \<and> view k' = (view k)\<lparr>coming := q\<rparr>"
    and pause_default: "stopped (view k) = None \<Longrightarrow> coming (view k) = (d, sig) # q \<Longrightarrow> \<not> is_blocked (view k) sig \<Longrightarrow>
      sig = SIGINT \<or> sig = SIGALRM \<Longrightarrow> k_sa_handler (actions (view k) sig) = 0 \<Longrightarrow>
      \<exists>r k'. u_call U 34 [] k = (r, k') \<and> view k' = (view k)\<lparr>coming := q, stopped := Some (Killed sig)\<rparr>"
    and pause_handler: "stopped (view k) = None \<Longrightarrow> coming (view k) = (d, sig) # q \<Longrightarrow> \<not> is_blocked (view k) sig \<Longrightarrow>
      act = actions (view k) sig \<Longrightarrow> k_sa_handler act \<noteq> 0 \<Longrightarrow> k_sa_handler act \<noteq> SIG_IGN \<Longrightarrow> k_sa_flags act AND SA_RESTORER \<noteq> 0 \<Longrightarrow>
      \<exists>k1. u_call U 34 [] k = (- EINTR, code (k_sa_restorer act) (code (k_sa_handler act) k1)) \<and>
        view k1 = in_handler sig act ((view k)\<lparr>coming := q\<rparr>)"
    and nap_alone: "stopped (view k) = None \<Longrightarrow> coming (view k) = [] \<Longrightarrow>
      \<exists>r k'. u_nap U sec 0 r0 k = ((0, r), k') \<and> view k' = view k"
    and nap_blocked: "stopped (view k) = None \<Longrightarrow> coming (view k) = (d, sig) # q \<Longrightarrow> is_blocked (view k) sig \<Longrightarrow> d \<le> unat sec \<Longrightarrow>
      \<exists>k'. u_nap U sec 0 r0 k = u_nap U (sec - of_nat d) 0 r0 k' \<and>
        view k' = (view k)\<lparr>coming := q, held := held (view k) OR sig_word sig\<rparr>"

begin

text \<open>What the wrappers make of the contract.\<close>

lemma wrap_0: "WRAPPER_RETval (gensys K nr args p) = (0, p\<lparr>errno := 0, kern := k'\<rparr>)"
  if "K nr args (kern p) = (0, k')"
  using that by (simp add: gensys_def WRAPPER_RETval_def)

lemma alarm_ok:
  assumes "stopped (view (kern p)) = None" "coming (view (kern p)) = q" "SIGALRM \<notin> snd ` set q" "0 < unat n"
  shows "\<exists>k. alarm (u_call U) n p = (0, p\<lparr>errno := 0, kern := k\<rparr>) \<and>
    view k = (view (kern p))\<lparr>coming := send_in (unat n) SIGALRM q\<rparr>"
proof -
  have "unat (ucast n :: u64) = unat n" by (rule unat_u32_u64)
  with assms obtain k where "u_call U 37 [ucast n] (kern p) = (0, k)"
      "view k = (view (kern p))\<lparr>coming := send_in (unat n) SIGALRM q\<rparr>"
    using alarm_law [of "kern p" "ucast n"] by fastforce
  with wrap_0 [where K = "u_call U", OF this(1)] show ?thesis by (auto simp: alarm_def)
qed

lemma write_1_ok:
  assumes "stopped (view (kern p)) = None" "fd = 1 \<or> fd = 2" "length s < 2 ^ 31"
  shows "\<exists>k. write_err (u_write U fd) s p = p\<lparr>errno := 0, kern := k\<rparr> \<and>
    view k = (view (kern p))\<lparr>shown := append_to fd s (shown (view (kern p)))\<rparr>"
proof -
  obtain k where k: "u_write U fd s (kern p) = (of_nat (length s), k)"
      "view k = (view (kern p))\<lparr>shown := append_to fd s (shown (view (kern p)))\<rparr>"
    using write_law [OF assms] by blast
  have "sint (of_nat (length s) :: u64) = int (length s)" using assms(3) by (subst int_of_nat_word) simp_all
  with k show ?thesis by (intro exI [of _ k]) (simp add: write_err_def WRAPPER_RETval_def)
qed

lemma sigprocmask_ok:
  assumes "stopped (view (kern p)) = None" "a \<noteq> 0" "u_load U a (kern p) = w"
  shows "\<exists>k. sigprocmask (u_call U) SIG_BLOCK a 0 p = (0, p\<lparr>errno := 0, kern := k\<rparr>) \<and>
    view k = (view (kern p))\<lparr>blocked := new_mask SIG_BLOCK (Some w) (blocked (view (kern p)))\<rparr>"
proof -
  obtain k where k: "u_call U 14 [scast SIG_BLOCK, a, 0, 8] (kern p) = (0, k)"
      "view k = (view (kern p))\<lparr>blocked := new_mask SIG_BLOCK (Some w) (blocked (view (kern p)))\<rparr>"
    using block_law [OF assms(1,2)] assms(3) by blast
  then show ?thesis using wrap_0 [where K = "u_call U", OF k(1)] by (auto simp: sigprocmask_def)
qed

lemma sigpending_ok:
  assumes "stopped (view (kern p)) = None" "a \<noteq> 0"
  shows "\<exists>k. sigpending (u_call U) a p = (0, p\<lparr>errno := 0, kern := k\<rparr>) \<and>
    view k = view (kern p) \<and> u_load U a k = held (view (kern p)) AND blocked (view (kern p))"
proof -
  obtain k where k: "u_call U 127 [a, 8] (kern p) = (0, k)" "view k = view (kern p)"
      "u_load U a k = held (view (kern p)) AND blocked (view (kern p))"
    using pending_law [OF assms] by blast
  then show ?thesis using wrap_0 [where K = "u_call U", OF k(1)] by (auto simp: sigpending_def)
qed

lemma sigaction_ok:
  assumes "stopped (view (kern p)) = None" "sig = SIGINT \<or> sig = SIGALRM"
  shows "\<exists>k. sigaction R (u_act U) ka sig (Some a) oact p =
      Inr (0, map_option (\<lambda>_. seen_by_user (actions (view (kern p)) sig)) oact, p\<lparr>kern := k, errno := 0\<rparr>) \<and>
    view k = (view (kern p))\<lparr>actions := (actions (view (kern p)))(sig := wanted R a),
      held := (if sa_handler a = SIG_IGN then held (view (kern p)) AND NOT (sig_word sig) else held (view (kern p)))\<rparr>"
proof -
  from act_law [OF assms, of "wanted R a"] obtain k where
    "u_act U sig (wanted R a) (kern p) = ((0, actions (view (kern p)) sig), k)"
    "view k = (view (kern p))\<lparr>actions := (actions (view (kern p)))(sig := wanted R a),
      held := (if sa_handler a = SIG_IGN then held (view (kern p)) AND NOT (sig_word sig) else held (view (kern p)))\<rparr>"
    by (auto simp: wanted_def)
  then show ?thesis
    by (intro exI [of _ k]) (cases oact; simp add: sigaction_def kact_wanted koact_seen WRAPPER_RETval_def)
qed

lemma signal_ok:
  assumes "stopped (view (kern p)) = None" "sig = SIGINT \<or> sig = SIGALRM"
  shows "\<exists>r e k. call_signal U R j sig h p = Inr (r, p\<lparr>kern := k, errno := e\<rparr>) \<and>
    view k = (view (kern p))\<lparr>actions := (actions (view (kern p)))(sig := signal_action R h),
      held := (if h = SIG_IGN then held (view (kern p)) AND NOT (sig_word sig) else held (view (kern p)))\<rparr> \<and>
    (0 \<le> sint (k_sa_handler (actions (view (kern p)) sig)) \<longrightarrow> e = 0)"
proof -
  from sigaction_ok [OF assms, of R "kact0 j" "(act0 j)\<lparr>sa_handler := h, sa_mask := 0, sa_flags := SA_ONESHOT OR SA_NOMASK\<rparr>" "Some (oact0 j)"]
  obtain k where "sigaction R (u_act U) (kact0 j) sig (Some ((act0 j)\<lparr>sa_handler := h, sa_mask := 0, sa_flags := SA_ONESHOT OR SA_NOMASK\<rparr>))
      (Some (oact0 j)) p = Inr (0, Some (seen_by_user (actions (view (kern p)) sig)), p\<lparr>kern := k, errno := 0\<rparr>)"
    "view k = (view (kern p))\<lparr>actions := (actions (view (kern p)))(sig := signal_action R h),
      held := (if h = SIG_IGN then held (view (kern p)) AND NOT (sig_word sig) else held (view (kern p)))\<rparr>"
    by (auto simp: wanted_signal)
  then show ?thesis
    by (intro exI [of _ "if sint (k_sa_handler (actions (view (kern p)) sig)) < 0 then 0 else k_sa_handler (actions (view (kern p)) sig)"]
        exI [of _ "if sint (k_sa_handler (actions (view (kern p)) sig)) < 0 then - k_sa_handler (actions (view (kern p)) sig) else 0"] exI [of _ k])
      (simp add: call_signal_def signal_def sigemptyset_def WRAPPER_RETptr_def seen_by_user_def)
qed

lemma proceed_on: "stopped (view (kern p)) = None \<Longrightarrow> proceed U (r, p) go = go r p"
  by (simp add: proceed_def stopped_view)

lemma proceed_stop: "stopped (view (kern p)) = Some e \<Longrightarrow> proceed U (r, p) go = Inr (Stopped e p)"
  by (simp add: proceed_def stopped_view)

lemma block_alarm_ok:
  assumes "stopped (view (kern p)) = None" "s \<noteq> 0"
  shows "\<exists>k. (\<forall>go. block_alarm U s p go = go (p\<lparr>errno := 0, kern := k\<rparr>)) \<and>
    view k = (view (kern p))\<lparr>blocked := (blocked (view (kern p)) OR sig_word SIGALRM) AND NOT unblockable\<rparr>"
proof -
  have w: "sig_word SIGALRM = push_bit 13 1" by (simp add: sig_word_def SIGALRM_def)
  let ?p = "store_at U s (sig_word SIGALRM) (store_at U s (sigemptyset (u_load U s (kern p))) p)"
  have p: "view (kern ?p) = view (kern p)" "u_load U s (kern ?p) = sig_word SIGALRM"
    by (simp_all add: store_at_def store_view load_store)
  from sigprocmask_ok [of ?p s, OF _ assms(2) p(2)] assms(1) obtain k where
    k: "sigprocmask (u_call U) SIG_BLOCK s 0 ?p = (0, ?p\<lparr>errno := 0, kern := k\<rparr>)"
      "view k = (view (kern p))\<lparr>blocked := new_mask SIG_BLOCK (Some (sig_word SIGALRM)) (blocked (view (kern p)))\<rparr>"
    by (auto simp: p)
  have add: "sigaddset (u_load U s (kern (store_at U s (sigemptyset (u_load U s (kern p))) p))) SIGALRM = Inr (sig_word SIGALRM)"
    by (simp add: store_at_def load_store sigemptyset_def sigaddset_def alarm_bit w)
  have "stopped (view k) = None" using k(2) assms(1) by simp
  then have "block_alarm U s p go = go (p\<lparr>errno := 0, kern := k\<rparr>)" for go
    using k(1) add by (simp add: block_alarm_def Let_def proceed_on) (simp add: store_at_def)
  with k(2) show ?thesis by (auto simp: new_mask_def)
qed

lemma report_pending_ok:
  assumes "stopped (view (kern p)) = None" "s \<noteq> 0"
  shows "\<exists>k. report_pending U s p = Inr (Exited 0 (p\<lparr>errno := 0, kern := k\<rparr>)) \<and>
    view k = (view (kern p))\<lparr>shown := append_to 1
      (pending_line (held (view (kern p)) AND blocked (view (kern p)) AND sig_word SIGALRM \<noteq> 0)) (shown (view (kern p)))\<rparr>"
proof -
  let ?on = "held (view (kern p)) AND blocked (view (kern p)) AND sig_word SIGALRM \<noteq> 0"
  let ?m = "pending_line ?on"
  obtain k1 where k1: "sigpending (u_call U) s p = (0, p\<lparr>errno := 0, kern := k1\<rparr>)" "view k1 = view (kern p)"
      "u_load U s k1 = held (view (kern p)) AND blocked (view (kern p))"
    using sigpending_ok [OF assms] by blast
  have w: "sig_word SIGALRM = push_bit 13 1" by (simp add: sig_word_def SIGALRM_def)
  have mem: "sigismember (u_load U s k1) SIGALRM = Inr (if ?on then 1 else 0)"
    by (simp add: sigismember_def alarm_bit k1(3) w and.assoc)
  have st: "stopped (view (kern (p\<lparr>errno := 0, kern := k1\<rparr>))) = None" using assms(1) k1(2) by simp
  have "length ?m < 2 ^ 31" by (simp add: pending_line_def)
  from write_1_ok [OF st _ this, of 1] obtain k where
    k: "write_err (u_write U 1) ?m (p\<lparr>errno := 0, kern := k1\<rparr>) = p\<lparr>errno := 0, kern := k\<rparr>"
      "view k = (view (kern p))\<lparr>shown := append_to 1 ?m (shown (view (kern p)))\<rparr>"
    by (auto simp: k1(2))
  have "stopped (view k) = None" using k(2) assms(1) by simp
  moreover have "((if ?on then 1 else 0 :: u32) \<noteq> 0) = ?on" by simp
  ultimately have "report_pending U s p = Inr (Exited 0 (p\<lparr>errno := 0, kern := k\<rparr>))"
    unfolding report_pending_def k1(1) proceed_on [OF st]
    by (simp add: mem k(1) write_1_def proceed_on)
  with k(2) show ?thesis by blast
qed

lemma perror_success:
  assumes "stopped (view (kern p)) = None" "errno p = 0"
  shows "\<exists>k. perror (u_write U 2) (Some []) p = Inr (p\<lparr>errno := 0, kern := k\<rparr>) \<and>
    view k = (view (kern p))\<lparr>shown := append_to 2 ('': Success'' @ newline) (shown (view (kern p)))\<rparr>"
proof -
  let ?W = "\<lambda>s. write_err (u_write U 2) s"
  have ok: "\<exists>k. ?W s q = q\<lparr>errno := 0, kern := k\<rparr> \<and>
      view k = (view (kern q))\<lparr>shown := append_to 2 s (shown (view (kern q)))\<rparr>"
    if "stopped (view (kern q)) = None" "length s < 2 ^ 31" for s q using write_1_ok [OF that(1) _ that(2)] by simp
  obtain k1 where k1: "?W [] p = p\<lparr>errno := 0, kern := k1\<rparr>" "view k1 = view (kern p)"
    using ok [OF assms(1), of "[]"] by (auto simp: append_to_nil)
  obtain k2 where k2: "?W '': '' (p\<lparr>errno := 0, kern := k1\<rparr>) = p\<lparr>errno := 0, kern := k2\<rparr>"
      "view k2 = (view (kern p))\<lparr>shown := append_to 2 ('': '') (shown (view (kern p)))\<rparr>"
    using ok [of "p\<lparr>errno := 0, kern := k1\<rparr>" "'': ''"] assms(1) by (auto simp: k1(2))
  obtain k3 where k3: "?W ''Success'' (p\<lparr>errno := 0, kern := k2\<rparr>) = p\<lparr>errno := 0, kern := k3\<rparr>"
      "view k3 = (view (kern p))\<lparr>shown := append_to 2 ('': '' @ ''Success'') (shown (view (kern p)))\<rparr>"
    using ok [of "p\<lparr>errno := 0, kern := k2\<rparr>" "''Success''"] assms(1) by (auto simp: k2(2) append_to_twice)
  obtain k4 where k4: "?W newline (p\<lparr>errno := 0, kern := k3\<rparr>) = p\<lparr>errno := 0, kern := k4\<rparr>"
      "view k4 = (view (kern p))\<lparr>shown := append_to 2 ('': '' @ ''Success'' @ newline) (shown (view (kern p)))\<rparr>"
    using ok [of "p\<lparr>errno := 0, kern := k3\<rparr>" newline] assms(1) by (auto simp: k3(2) append_to_twice)
  have "perror (u_write U 2) (Some []) p = Inr (?W newline (?W ''Success'' (?W '': '' (?W [] p))))"
    using k1 k2 by (simp add: perror_def Let_def assms(2) PERRMSG_MIN_def PERRMSG_MAX_def index_at_def errmsg_def)
  then show ?thesis using k4(2) unfolding k1(1) k2(1) k3(1) k4(1) by auto
qed

lemma pause_stops:
  assumes "u_call U 34 [] (kern p) = (r, k)" "stopped (view k) = Some e"
  shows "\<exists>q. proceed U (pause (u_call U) p) go = Inr (Stopped e q) \<and> kern q = k"
proof -
  have "kern (snd (pause (u_call U) p)) = k" using w_pause.kernel_effect [of "u_call U" p] assms(1) by simp
  then show ?thesis using assms(2) by (auto simp: proceed_def stopped_view)
qed

lemma pause_interrupted:
  assumes "u_call U 34 [] (kern p) = (- EINTR, k)" "stopped (view k) = None"
  shows "proceed U (pause (u_call U) p) go = go (- 1) (p\<lparr>errno := EINTR, kern := k\<rparr>)"
proof -
  have "pause (u_call U) p = (- 1, p\<lparr>errno := EINTR, kern := k\<rparr>)"
    using assms(1) by (cases p) (simp add: pause_def gensys_def WRAPPER_RETval_def EINTR_def)
  then show ?thesis using assms(2) by (simp add: proceed_on)
qed

text \<open>A handler that \<open>signal\<close> installed, as the code \<open>h\<close> and the stub \<open>restore_rt\<close>.\<close>

lemma pause_signal:
  assumes "stopped (view k) = None" "coming (view k) = (d, sig) # q" "\<not> is_blocked (view k) sig"
    and "actions (view k) sig = signal_action R h" "h \<noteq> 0" "h \<noteq> SIG_IGN"
    and stub: "\<And>k. code R k = restore_rt U k"
    and handler: "\<And>k1. stopped (view k1) = None \<Longrightarrow> view (code h k1) = (view k1)\<lparr>shown := f (shown (view k1))\<rparr>"
  shows "\<exists>k'. u_call U 34 [] k = (- EINTR, k') \<and> view k' = (view k)\<lparr>coming := q, shown := f (shown (view k))\<rparr>"
proof -
  have flags: "k_sa_flags (signal_action R h) AND SA_RESTORER \<noteq> 0" "k_sa_flags (signal_action R h) AND SA_RESETHAND = 0"
    by (simp_all add: signal_action_def SA_ONESHOT_def SA_NOMASK_def SA_RESTORER_def SA_RESETHAND_def)
  from pause_handler [OF assms(1-3) refl, unfolded assms(4)] flags(1) assms(5,6) obtain k1 where
    k1: "u_call U 34 [] k = (- EINTR, code R (code h k1))" "view k1 = in_handler sig (signal_action R h) ((view k)\<lparr>coming := q\<rparr>)"
    by (auto simp: signal_action_def)
  have in1: "stopped (view k1) = None" "frames (view k1) = blocked (view k) # frames (view k)"
    using assms(1) by (simp_all add: k1(2) in_handler_def)
  have h: "view (code h k1) = (view k1)\<lparr>shown := f (shown (view k1))\<rparr>" by (rule handler [OF in1(1)])
  then have "stopped (view (code h k1)) = None" "frames (view (code h k1)) = blocked (view k) # frames (view k)"
    using in1 by simp_all
  from return_law [OF this] obtain r k' where
    k': "u_call U 15 [] (code h k1) = (r, k')" "view k' = (view (code h k1))\<lparr>blocked := blocked (view k), frames := frames (view k)\<rparr>"
    by blast
  have "code R (code h k1) = k'" using k'(1) by (simp add: stub restore_rt_def)
  moreover have "view k' = (view k)\<lparr>coming := q, shown := f (shown (view k))\<rparr>"
    unfolding k'(2) h k1(2) by (simp add: in_handler_def flags(2) assms(4))
  ultimately show ?thesis using k1(1) by auto
qed

end

lemma is_blocked_bit: "is_blocked v SIGALRM \<longleftrightarrow> bit (blocked v) 13" "is_blocked v SIGINT \<longleftrightarrow> bit (blocked v) 1"
  using and_exp_nonzero [of "blocked v" 13] and_exp_nonzero [of "blocked v" 1]
  by (simp_all add: is_blocked_def sig_word_def SIGALRM_def SIGINT_def)

lemma alarm_blocked_mask:
  "is_blocked (v\<lparr>blocked := (blocked v OR sig_word SIGALRM) AND NOT unblockable\<rparr>) SIGALRM"
  "is_blocked (v\<lparr>blocked := (blocked v OR sig_word SIGALRM) AND NOT unblockable\<rparr>) SIGINT \<longleftrightarrow> is_blocked v SIGINT"
  unfolding is_blocked_bit by (simp_all add: sig_word_def SIGALRM_def unblockable_def bit_simps)

subsection \<open>What the programs do\<close>

context unix_signals
begin

lemma pause_alarm:
  assumes "stopped (view k) = None" "coming (view k) = [(d, SIGALRM)]"
    and "k_sa_handler (actions (view k) SIGALRM) = 0 \<or> k_sa_handler (actions (view k) SIGALRM) = SIG_IGN"
  shows "\<exists>r k'. u_call U 34 [] k = (r, k') \<and> shown (view k') = shown (view k) \<and>
    stopped (view k') = Some (if is_blocked (view k) SIGALRM \<or> k_sa_handler (actions (view k) SIGALRM) = SIG_IGN then Asleep else Killed SIGALRM)"
proof (cases "is_blocked (view k) SIGALRM \<or> k_sa_handler (actions (view k) SIGALRM) = SIG_IGN")
  case True
  obtain k1 where k1: "u_call U 34 [] k = u_call U 34 [] k1" "coming (view k1) = []" "stopped (view k1) = None"
      "shown (view k1) = shown (view k)"
  proof (cases "is_blocked (view k) SIGALRM")
    case True
    from pause_blocked [OF assms(1,2) this] that assms(1) show ?thesis by auto
  next
    case False
    then have ign: "k_sa_handler (actions (view k) SIGALRM) = SIG_IGN" using True by simp
    from pause_ignored [OF assms(1,2) False ign] that assms(1) show ?thesis by auto
  qed
  from pause_alone [OF k1(3,2)] obtain r k' where "u_call U 34 [] k1 = (r, k')"
      "view k' = (view k1)\<lparr>stopped := Some Asleep\<rparr>" by blast
  with k1(1,4) True show ?thesis by auto
next
  case False
  then have "k_sa_handler (actions (view k) SIGALRM) = 0" using assms(3) by simp
  with pause_default [OF assms(1,2)] False show ?thesis by auto
qed

lemma alarm1_run:
  assumes "v = view (kern p)" "stopped v = None" "coming v = []"
    and "k_sa_handler (actions v SIGALRM) = 0 \<or> k_sa_handler (actions v SIGALRM) = SIG_IGN"
  shows "\<exists>q. alarm1_main U p =
      Inr (Stopped (if is_blocked v SIGALRM \<or> k_sa_handler (actions v SIGALRM) = SIG_IGN then Asleep else Killed SIGALRM) q) \<and>
    shown (view (kern q)) = shown v"
proof -
  obtain k where k: "alarm (u_call U) 3 p = (0, p\<lparr>errno := 0, kern := k\<rparr>)" "view k = v\<lparr>coming := [(3, SIGALRM)]\<rparr>"
    using alarm_ok [of p "[]" 3] assms(1-3) by auto
  have st: "stopped (view k) = None" "coming (view k) = [(3, SIGALRM)]" "shown (view k) = shown v"
    "actions (view k) = actions v" "is_blocked (view k) SIGALRM = is_blocked v SIGALRM"
    using assms(2) by (simp_all add: k(2) is_blocked_def)
  obtain r k' where k': "u_call U 34 [] k = (r, k')" "shown (view k') = shown v"
      "stopped (view k') = Some (if is_blocked v SIGALRM \<or> k_sa_handler (actions v SIGALRM) = SIG_IGN then Asleep else Killed SIGALRM)"
    using pause_alarm [OF st(1,2)] assms(4) unfolding st(3-5) by blast
  have "u_call U 34 [] (kern (p\<lparr>errno := 0, kern := k\<rparr>)) = (r, k')" using k'(1) by simp
  from pause_stops [OF this k'(3), of "\<lambda>_ p. Inr (Exited 0 p)"] obtain q where
    q: "proceed U (pause (u_call U) (p\<lparr>errno := 0, kern := k\<rparr>)) (\<lambda>_ p. Inr (Exited 0 p)) =
        Inr (Stopped (if is_blocked v SIGALRM \<or> k_sa_handler (actions v SIGALRM) = SIG_IGN then Asleep else Killed SIGALRM) q)"
      "kern q = k'" by blast
  have "stopped (view (kern (p\<lparr>errno := 0, kern := k\<rparr>))) = None" using st(1) by simp
  then have "alarm1_main U p = proceed U (pause (u_call U) (p\<lparr>errno := 0, kern := k\<rparr>)) (\<lambda>_ p. Inr (Exited 0 p))"
    unfolding alarm1_main_def k(1) by (rule proceed_on)
  with q k'(2) show ?thesis by auto
qed

lemma alarm2_run:
  assumes "v = view (kern p)" "stopped v = None" "coming v = []" "s \<noteq> 0"
  shows "\<exists>q. alarm2_main U s rem0 p = Inr (Exited 0 q) \<and> shown (view (kern q)) = append_to 1 (pending_line True) (shown v) \<and>
    held (view (kern q)) = held v OR sig_word SIGALRM \<and> is_blocked (view (kern q)) SIGALRM"
proof -
  let ?b = "(blocked v OR sig_word SIGALRM) AND NOT unblockable"
  obtain k1 where k1: "\<And>go. block_alarm U s p go = go (p\<lparr>errno := 0, kern := k1\<rparr>)" "view k1 = v\<lparr>blocked := ?b\<rparr>"
    using block_alarm_ok [of p s] assms by auto
  let ?p1 = "p\<lparr>errno := 0, kern := k1\<rparr>"
  obtain k2 where k2: "alarm (u_call U) 3 ?p1 = (0, ?p1\<lparr>errno := 0, kern := k2\<rparr>)" "view k2 = v\<lparr>blocked := ?b, coming := [(3, SIGALRM)]\<rparr>"
    using alarm_ok [of ?p1 "[]" 3] assms(2,3) by (auto simp: k1(2))
  have st2: "stopped (view k2) = None" "coming (view k2) = [(3, SIGALRM)]" "is_blocked (view k2) SIGALRM"
    using assms(2) alarm_blocked_mask(1) [of v] by (simp_all add: k2(2) is_blocked_def)
  obtain k3 where k3: "u_nap U 5 0 rem0 k2 = u_nap U (5 - of_nat 3) 0 rem0 k3"
      "view k3 = v\<lparr>blocked := ?b, coming := [], held := held v OR sig_word SIGALRM\<rparr>"
    using nap_blocked [OF st2, of 5 rem0] by (auto simp: k2(2))
  have st3: "stopped (view k3) = None" "coming (view k3) = []" using assms(2) by (simp_all add: k3(2))
  obtain r k4 where k4: "u_nap U 5 0 rem0 k2 = ((0, r), k4)" "view k4 = view k3"
    using nap_alone [OF st3] k3(1) by metis
  let ?p2 = "?p1\<lparr>errno := 0, kern := k2\<rparr>" and ?p4 = "?p1\<lparr>errno := 0, kern := k4\<rparr>"
  have slept: "sleep_asm (u_nap U) rem0 5 ?p2 = (0, ?p4)" using k4(1) by (simp add: sleep_asm_def)
  have st4: "stopped (view (kern ?p2)) = None" "stopped (view (kern ?p4)) = None" using st2(1) st3(1) k4(2) by simp_all
  have run: "alarm2_main U s rem0 p = report_pending U s ?p4"
    unfolding alarm2_main_def k1(1) k2(1) proceed_on [OF st4(1)] slept proceed_on [OF st4(2)] ..
  have on: "(held v OR sig_word SIGALRM) AND ?b AND sig_word SIGALRM \<noteq> 0"
    using and_exp_nonzero [of "(held v OR sig_word SIGALRM) AND ?b" 13]
    by (simp add: sig_word_def SIGALRM_def unblockable_def bit_simps and.assoc)
  obtain k where "report_pending U s ?p4 = Inr (Exited 0 (?p4\<lparr>errno := 0, kern := k\<rparr>))"
      "view k = (view k3)\<lparr>shown := append_to 1 (pending_line True) (shown (view k3))\<rparr>"
    using report_pending_ok [OF st4(2) assms(4)] on by (auto simp: k4(2) k3(2))
  with run alarm_blocked_mask(1) [of v] show ?thesis by (auto simp: k3(2) is_blocked_def)
qed

lemma test_handler_shows:
  assumes "\<forall>k e. code h k = kern (test_handler U \<lparr>errno = e, kern = k\<rparr>)" "stopped (view k) = None"
  shows "view (code h k) = (view k)\<lparr>shown := append_to 1 (''inside handler'' @ newline) (shown (view k))\<rparr>"
proof -
  have "code h k = kern (test_handler U \<lparr>errno = 0, kern = k\<rparr>)" using assms(1) by blast
  then show ?thesis
    using write_1_ok [of "\<lparr>errno = 0, kern = k\<rparr>" 1 "''inside handler'' @ newline"] assms(2)
    by (auto simp: test_handler_def write_1_def)
qed

lemma test_c_run:
  assumes "v = view (kern p)" "stopped v = None" "coming v = []" "\<not> is_blocked v SIGALRM"
    and "0 \<le> sint (k_sa_handler (actions v SIGALRM))" "h \<noteq> 0" "h \<noteq> SIG_IGN"
    and "\<forall>k. code R k = restore_rt U k" "\<forall>k e. code h k = kern (test_handler U \<lparr>errno = e, kern = k\<rparr>)"
  shows "\<exists>q. test_c_main U R h j p = Inr (Exited 0 q) \<and>
    view (kern q) = v\<lparr>actions := (actions v)(SIGALRM := signal_action R h),
      shown := append_to 1 (''inside handler'' @ newline @ ''after pause'' @ newline) (append_to 2 ('': Success'' @ newline) (shown v))\<rparr>"
proof -
  let ?A = "(actions v)(SIGALRM := signal_action R h)" and ?S = "append_to 2 ('': Success'' @ newline) (shown v)"
  obtain r e k1 where k1: "call_signal U R j SIGALRM h p = Inr (r, p\<lparr>kern := k1, errno := e\<rparr>)" "view k1 = v\<lparr>actions := ?A\<rparr>" "e = 0"
    using signal_ok [of p SIGALRM R j h] assms(1,2,5,7) by auto
  let ?p1 = "p\<lparr>kern := k1, errno := e\<rparr>"
  have st1: "stopped (view (kern ?p1)) = None" "errno ?p1 = 0" using assms(2) by (simp_all add: k1(2,3))
  obtain k2 where k2: "perror (u_write U 2) (Some []) ?p1 = Inr (?p1\<lparr>errno := 0, kern := k2\<rparr>)"
      "view k2 = v\<lparr>actions := ?A, shown := ?S\<rparr>"
    using perror_success [OF st1] by (auto simp: k1(2))
  let ?p2 = "?p1\<lparr>errno := 0, kern := k2\<rparr>"
  obtain k3 where k3: "alarm (u_call U) 2 ?p2 = (0, ?p2\<lparr>errno := 0, kern := k3\<rparr>)"
      "view k3 = v\<lparr>actions := ?A, shown := ?S, coming := [(2, SIGALRM)]\<rparr>"
    using alarm_ok [of ?p2 "[]" 2] assms(2,3) by (auto simp: k2(2))
  let ?p3 = "?p2\<lparr>errno := 0, kern := k3\<rparr>"
  have st3: "stopped (view k3) = None" "coming (view k3) = [(2, SIGALRM)]" "\<not> is_blocked (view k3) SIGALRM"
      "actions (view k3) SIGALRM = signal_action R h"
    using assms(2,4) by (simp_all add: k3(2) is_blocked_def)
  have stub: "code R k = restore_rt U k" for k using assms(8) by blast
  from pause_signal [OF st3 assms(6,7) stub test_handler_shows [OF assms(9)]] obtain k4 where
    k4: "u_call U 34 [] k3 = (- EINTR, k4)"
      "view k4 = v\<lparr>actions := ?A, coming := [], shown := append_to 1 (''inside handler'' @ newline) ?S\<rparr>"
    by (auto simp: k3(2))
  let ?p4 = "?p3\<lparr>errno := EINTR, kern := k4\<rparr>"
  have st4: "stopped (view k4) = None" "u_call U 34 [] (kern ?p3) = (- EINTR, k4)" "stopped (view (kern ?p4)) = None"
    using assms(2) k4(1) by (simp_all add: k4(2))
  obtain k5 where k5: "write_err (u_write U 1) (''after pause'' @ newline) ?p4 = ?p4\<lparr>errno := 0, kern := k5\<rparr>"
      "view k5 = (view k4)\<lparr>shown := append_to 1 (''after pause'' @ newline) (shown (view k4))\<rparr>"
    using write_1_ok [OF st4(3), of 1 "''after pause'' @ newline"] by auto
  have st: "stopped (view (kern ?p2)) = None" "stopped (view (kern ?p3)) = None" "stopped (view (kern (?p4\<lparr>errno := 0, kern := k5\<rparr>))) = None"
    using assms(2) by (simp_all add: k2(2) k3(2) k4(2) k5(2))
  have "test_c_main U R h j p = Inr (Exited 0 (?p4\<lparr>errno := 0, kern := k5\<rparr>))"
    unfolding test_c_main_def k1(1) thenR_simps proceed_on [OF st1(1)] k2(1) k3(1) proceed_on [OF st(2)]
      pause_interrupted [OF st4(2,1)] write_1_def k5(1) proceed_on [OF st(3)] ..
  moreover have "view k5 = v\<lparr>actions := ?A,
      shown := append_to 1 (''inside handler'' @ newline @ ''after pause'' @ newline) (append_to 2 ('': Success'' @ newline) (shown v))\<rparr>"
    using assms(3) by (cases v) (simp add: k5(2) k4(2) append_to_twice)
  ultimately show ?thesis by auto
qed

text \<open>\<^verbatim>\<open>alarm3.c\<close> up to \<open>pause\<close>.\<close>

lemma alarm3_waits:
  assumes "v = view (kern p)" "stopped v = None" "SIGALRM \<notin> snd ` set (coming v)" "s \<noteq> 0"
  shows "\<exists>q. alarm3_main U R h j s p =
      proceed U (pause (u_call U) q) (\<lambda>_ p.
      proceed U (write_1 U (''after pause'' @ newline) p) (\<lambda>_ p. report_pending U s p)) \<and>
    view (kern q) = v\<lparr>blocked := (blocked v OR sig_word SIGALRM) AND NOT unblockable,
      actions := (actions v)(SIGALRM := signal_action R SIG_IGN, SIGINT := signal_action R h),
      held := (if h = SIG_IGN then (held v AND NOT (sig_word SIGALRM)) AND NOT (sig_word SIGINT) else held v AND NOT (sig_word SIGALRM)),
      coming := send_in 1 SIGALRM (coming v)\<rparr>"
proof -
  let ?b = "(blocked v OR sig_word SIGALRM) AND NOT unblockable" and ?h = "held v AND NOT (sig_word SIGALRM)"
  obtain k1 where k1: "\<And>go. block_alarm U s p go = go (p\<lparr>errno := 0, kern := k1\<rparr>)" "view k1 = v\<lparr>blocked := ?b\<rparr>"
    using block_alarm_ok [of p s] assms(1,2,4) by auto
  let ?p1 = "p\<lparr>errno := 0, kern := k1\<rparr>"
  have st1: "stopped (view (kern ?p1)) = None" using assms(2) by (simp add: k1(2))
  obtain r2 e2 k2 where k2: "call_signal U R j SIGALRM SIG_IGN ?p1 = Inr (r2, ?p1\<lparr>kern := k2, errno := e2\<rparr>)"
      "view k2 = v\<lparr>blocked := ?b, actions := (actions v)(SIGALRM := signal_action R SIG_IGN), held := ?h\<rparr>"
    using signal_ok [OF st1, of SIGALRM R j SIG_IGN] by (auto simp: k1(2))
  let ?p2 = "?p1\<lparr>kern := k2, errno := e2\<rparr>"
  have st2: "stopped (view (kern ?p2)) = None" using assms(2) by (simp add: k2(2))
  obtain r3 e3 k3 where k3: "call_signal U R j SIGINT h ?p2 = Inr (r3, ?p2\<lparr>kern := k3, errno := e3\<rparr>)"
      "view k3 = v\<lparr>blocked := ?b, actions := (actions v)(SIGALRM := signal_action R SIG_IGN, SIGINT := signal_action R h),
        held := (if h = SIG_IGN then ?h AND NOT (sig_word SIGINT) else ?h)\<rparr>"
    using signal_ok [OF st2, of SIGINT R j h] by (auto simp: k2(2))
  let ?p3 = "?p2\<lparr>kern := k3, errno := e3\<rparr>"
  have st3: "stopped (view (kern ?p3)) = None" "coming (view (kern ?p3)) = coming v" using assms(2) by (simp_all add: k3(2))
  obtain k4 where k4: "alarm (u_call U) 1 ?p3 = (0, ?p3\<lparr>errno := 0, kern := k4\<rparr>)"
      "view k4 = (view k3)\<lparr>coming := send_in 1 SIGALRM (coming v)\<rparr>"
    using alarm_ok [OF st3 assms(3), of 1] by auto
  let ?p4 = "?p3\<lparr>errno := 0, kern := k4\<rparr>"
  have st4: "stopped (view (kern ?p4)) = None" using st3(1) by (simp add: k4(2))
  have "alarm3_main U R h j s p = proceed U (pause (u_call U) ?p4) (\<lambda>_ p.
      proceed U (write_1 U (''after pause'' @ newline) p) (\<lambda>_ p. report_pending U s p))"
    unfolding alarm3_main_def k1(1) k2(1) thenR_simps proceed_on [OF st2] k3(1) proceed_on [OF st3(1)] k4(1) proceed_on [OF st4] ..
  moreover have "view (kern ?p4) = v\<lparr>blocked := ?b,
      actions := (actions v)(SIGALRM := signal_action R SIG_IGN, SIGINT := signal_action R h),
      held := (if h = SIG_IGN then ?h AND NOT (sig_word SIGINT) else ?h), coming := send_in 1 SIGALRM (coming v)\<rparr>"
    by (simp add: k4(2) k3(2))
  ultimately show ?thesis by (intro exI [of _ ?p4] conjI)
qed

text \<open>From \<open>pause\<close> on, when a signal with a handler that does nothing is the next one.\<close>

lemma alarm3_reports:
  assumes "stopped (view (kern p)) = None" "s \<noteq> 0"
    and "u_call U 34 [] (kern p) = (- EINTR, k)" "view k = (view k0)\<lparr>coming := q, shown := id (shown (view k0))\<rparr>" "stopped (view k0) = None"
  shows "\<exists>p'. proceed U (pause (u_call U) p) (\<lambda>_ p.
      proceed U (write_1 U (''after pause'' @ newline) p) (\<lambda>_ p. report_pending U s p)) = Inr (Exited 0 p') \<and>
    shown (view (kern p')) = append_to 1 (''after pause'' @ newline @
      pending_line (held (view k0) AND blocked (view k0) AND sig_word SIGALRM \<noteq> 0)) (shown (view k0))"
proof -
  have st: "stopped (view k) = None" using assms(4,5) by simp
  let ?p = "p\<lparr>errno := EINTR, kern := k\<rparr>"
  have st': "stopped (view (kern ?p)) = None" using st by simp
  obtain k5 where k5: "write_err (u_write U 1) (''after pause'' @ newline) ?p = ?p\<lparr>errno := 0, kern := k5\<rparr>"
      "view k5 = (view k)\<lparr>shown := append_to 1 (''after pause'' @ newline) (shown (view k))\<rparr>"
    using write_1_ok [OF st', of 1 "''after pause'' @ newline"] by auto
  let ?p5 = "?p\<lparr>errno := 0, kern := k5\<rparr>"
  have st5: "stopped (view (kern ?p5)) = None" using st by (simp add: k5(2))
  obtain k6 where k6: "report_pending U s ?p5 = Inr (Exited 0 (?p5\<lparr>errno := 0, kern := k6\<rparr>))"
      "view k6 = (view k5)\<lparr>shown := append_to 1 (pending_line (held (view k5) AND blocked (view k5) AND sig_word SIGALRM \<noteq> 0)) (shown (view k5))\<rparr>"
    using report_pending_ok [OF st5 assms(2)] by auto
  have "proceed U (pause (u_call U) p) (\<lambda>_ p. proceed U (write_1 U (''after pause'' @ newline) p) (\<lambda>_ p. report_pending U s p)) =
      Inr (Exited 0 (?p5\<lparr>errno := 0, kern := k6\<rparr>))"
    unfolding pause_interrupted [OF assms(3) st] write_1_def k5(1) proceed_on [OF st5] by (rule k6(1))
  moreover have "shown (view k6) = append_to 1 (''after pause'' @ newline @
      pending_line (held (view k0) AND blocked (view k0) AND sig_word SIGALRM \<noteq> 0)) (shown (view k0))"
    by (simp add: k6(2) k5(2) assms(4) append_to_twice)
  ultimately show ?thesis by fastforce
qed

lemma alarm3_run:
  assumes "v = view (kern p)" "stopped v = None" "\<not> is_blocked v SIGINT" "s \<noteq> 0" "h \<noteq> 0" "h \<noteq> SIG_IGN"
    and "\<forall>k. code R k = restore_rt U k" "\<forall>k. code h k = k"
  shows "(coming v = [] \<longrightarrow> (\<exists>q. alarm3_main U R h j s p = Inr (Stopped Asleep q))) \<and>
    (\<forall>t. coming v = [(t, SIGINT)] \<longrightarrow> t \<noteq> 1 \<longrightarrow> (\<exists>q. alarm3_main U R h j s p = Inr (Exited 0 q) \<and>
      shown (view (kern q)) = append_to 1 (''after pause'' @ newline @ pending_line (1 < t)) (shown v)))"
proof (intro conjI allI impI)
  let ?b = "(blocked v OR sig_word SIGALRM) AND NOT unblockable" and ?h = "held v AND NOT (sig_word SIGALRM)"
  let ?w = "v\<lparr>blocked := ?b, actions := (actions v)(SIGALRM := signal_action R SIG_IGN, SIGINT := signal_action R h), held := ?h\<rparr>"
  let ?go = "\<lambda>_ p. proceed U (write_1 U (''after pause'' @ newline) p) (\<lambda>_ p. report_pending U s p)"
  have names: "SIGALRM \<noteq> SIGINT" by (simp add: SIGALRM_def SIGINT_def)
  have alarm: "is_blocked (?w\<lparr>coming := c\<rparr>) SIGALRM" for c
    using alarm_blocked_mask(1) [of v] by (simp add: is_blocked_def)
  have int: "\<not> is_blocked (?w\<lparr>coming := c, held := x\<rparr>) SIGINT" for c x
    using alarm_blocked_mask(2) [of v] assms(3) by (simp add: is_blocked_def)
  have wait: "\<exists>q. alarm3_main U R h j s p = proceed U (pause (u_call U) q) ?go \<and> view (kern q) = ?w\<lparr>coming := send_in 1 SIGALRM c\<rparr>"
    if "coming v = c" "SIGALRM \<notin> snd ` set c" for c
    using alarm3_waits [OF assms(1,2) _ assms(4), of R h j] that assms(6) by simp
  have stub: "code R k = restore_rt U k" for k using assms(7) by blast
  have idle: "view (code h k) = (view k)\<lparr>shown := id (shown (view k))\<rparr>" if "stopped (view k) = None" for k
    using assms(8) by simp
  {
    assume "coming v = []"
    with wait [of "[]"] obtain q where q: "alarm3_main U R h j s p = proceed U (pause (u_call U) q) ?go"
        "view (kern q) = ?w\<lparr>coming := [(1, SIGALRM)]\<rparr>" by auto
    have st: "stopped (view (kern q)) = None" "coming (view (kern q)) = [(1, SIGALRM)]" "is_blocked (view (kern q)) SIGALRM"
      using assms(2) alarm by (simp_all only: q(2)) simp_all
    from pause_blocked [OF st] obtain k1 where k1: "u_call U 34 [] (kern q) = u_call U 34 [] k1" "coming (view k1) = []" "stopped (view k1) = None"
      using st(1) by auto
    from pause_alone [OF k1(3,2)] obtain r k' where k': "u_call U 34 [] k1 = (r, k')" "view k' = (view k1)\<lparr>stopped := Some Asleep\<rparr>" by blast
    have "u_call U 34 [] (kern q) = (r, k')" "stopped (view k') = Some Asleep" using k1(1) k' by simp_all
    from pause_stops [OF this] q(1) show "\<exists>q. alarm3_main U R h j s p = Inr (Stopped Asleep q)" by metis
  }
  fix t assume c: "coming v = [(t, SIGINT)]" "t \<noteq> 1"
  obtain q where q: "alarm3_main U R h j s p = proceed U (pause (u_call U) q) ?go"
      "view (kern q) = ?w\<lparr>coming := send_in 1 SIGALRM [(t, SIGINT)]\<rparr>"
    using wait [OF c(1)] names by auto
  have st: "stopped (view (kern q)) = None" using assms(2) by (simp add: q(2))
  have "\<exists>k0 d c x. u_call U 34 [] (kern q) = u_call U 34 [] k0 \<and> view k0 = ?w\<lparr>coming := (d, SIGINT) # c, held := x\<rparr> \<and>
      (x AND ?b AND sig_word SIGALRM \<noteq> 0 \<longleftrightarrow> 1 < t)"
  proof (cases "1 < t")
    case True
    then have now: "view (kern q) = ?w\<lparr>coming := [(1, SIGALRM), (t - 1, SIGINT)]\<rparr>" by (simp add: q(2))
    have "coming (view (kern q)) = (1, SIGALRM) # [(t - 1, SIGINT)]" "is_blocked (view (kern q)) SIGALRM"
      using alarm by (simp_all only: now) simp
    from pause_blocked [OF st this] obtain k0 where k0: "u_call U 34 [] (kern q) = u_call U 34 [] k0"
        "view k0 = ?w\<lparr>coming := [(t - 1, SIGINT)], held := ?h OR sig_word SIGALRM\<rparr>"
      by (auto simp: now)
    have "(?h OR sig_word SIGALRM) AND ?b AND sig_word SIGALRM \<noteq> 0"
      using and_exp_nonzero [of "(?h OR sig_word SIGALRM) AND ?b" 13]
      by (simp add: sig_word_def SIGALRM_def unblockable_def bit_simps and.assoc)
    with k0 True show ?thesis by blast
  next
    case False
    with c(2) have now: "view (kern q) = ?w\<lparr>coming := [(0, SIGINT), (1, SIGALRM)], held := ?h\<rparr>" by (simp add: q(2))
    have "?h AND ?b AND sig_word SIGALRM = 0"
      using and_exp_nonzero [of "?h AND ?b" 13]
      by (simp add: sig_word_def SIGALRM_def unblockable_def bit_simps and.assoc)
    with now False show ?thesis by blast
  qed
  then obtain k0 d c x where k0: "u_call U 34 [] (kern q) = u_call U 34 [] k0"
      "view k0 = ?w\<lparr>coming := (d, SIGINT) # c, held := x\<rparr>" "x AND ?b AND sig_word SIGALRM \<noteq> 0 \<longleftrightarrow> 1 < t" by blast
  have st0: "stopped (view k0) = None" "coming (view k0) = (d, SIGINT) # c" "\<not> is_blocked (view k0) SIGINT"
      "actions (view k0) SIGINT = signal_action R h"
    using assms(2) int by (simp_all only: k0(2)) simp_all
  obtain k where k: "u_call U 34 [] k0 = (- EINTR, k)" "view k = (view k0)\<lparr>coming := c, shown := id (shown (view k0))\<rparr>"
    using pause_signal [where f = id, OF st0 assms(5,6) stub idle] by blast
  have "u_call U 34 [] (kern q) = (- EINTR, k)" using k0(1) k(1) by simp
  from alarm3_reports [OF st assms(4) this k(2) st0(1)] q(1) show "\<exists>q. alarm3_main U R h j s p = Inr (Exited 0 q) \<and>
      shown (view (kern q)) = append_to 1 (''after pause'' @ newline @ pending_line (1 < t)) (shown v)"
    by (simp add: k0(2,3))
qed

end

text \<open>
  \<^verbatim>\<open>alarm1.c\<close>.  Three seconds after \<open>alarm(3)\<close> the signal ends the process that waits in
  \<open>pause\<close>; where the process began with \<open>SIGALRM\<close> ignored or blocked, it waits for ever instead.
  It never exits by itself and writes nothing.
\<close>

theorem alarm1_ends:
  assumes "unix_signals U view code" "v = view (kern p)" "stopped v = None" "coming v = []"
    and "k_sa_handler (actions v SIGALRM) = 0 \<or> k_sa_handler (actions v SIGALRM) = SIG_IGN"
  shows "\<exists>q. alarm1_main U p =
      Inr (Stopped (if is_blocked v SIGALRM \<or> k_sa_handler (actions v SIGALRM) = SIG_IGN then Asleep else Killed SIGALRM) q) \<and>
    shown (view (kern q)) = shown v"
  by (rule unix_signals.alarm1_run [OF assms])

text \<open>
  C25: \<^verbatim>\<open>alarm2.c\<close>.  Whatever the mask, the actions and the pending signals were before, the
  alarm that goes off during \<open>sleep(5)\<close> is held back, the program sleeps to the end, reports
  the signal as pending (with a zero byte behind the line), and exits with 0; the signal stays
  blocked and pending.
\<close>

theorem alarm2_pending:
  assumes "unix_signals U view code" "v = view (kern p)" "stopped v = None" "coming v = []" "s \<noteq> 0"
  shows "\<exists>q. alarm2_main U s rem0 p = Inr (Exited 0 q) \<and>
    shown (view (kern q)) = append_to 1 (''sigalrm is pending.'' @ newline @ [CHR 0x00]) (shown v) \<and>
    held (view (kern q)) = held v OR sig_word SIGALRM \<and> is_blocked (view (kern q)) SIGALRM"
  using unix_signals.alarm2_run [OF assms] by (simp add: pending_line_def)

text \<open>
  C24: \<^verbatim>\<open>alarm3.c\<close>.  With \<open>SIGALRM\<close> blocked and ignored only \<open>SIGINT\<close> ends \<open>pause\<close>: without one
  the program waits for ever.  If \<open>SIGINT\<close> comes after \<open>t\<close> seconds, its handler runs and the
  program goes on and exits with 0; the alarm of one second is then reported as pending,
  though it is ignored (on a kernel that keeps it, as Linux does), exactly if it was earlier than \<open>SIGINT\<close>; what was pending before the program
  started was discarded when it set \<open>SIG_IGN\<close>.
\<close>

theorem alarm3_outcomes:
  assumes "unix_signals U view code" "v = view (kern p)" "stopped v = None" "\<not> is_blocked v SIGINT" "s \<noteq> 0"
    and "h \<noteq> 0" "h \<noteq> SIG_IGN" "\<forall>k. code R k = restore_rt U k" "\<forall>k. code h k = k"
  shows "(coming v = [] \<longrightarrow> (\<exists>q. alarm3_main U R h j s p = Inr (Stopped Asleep q))) \<and>
    (\<forall>t. coming v = [(t, SIGINT)] \<longrightarrow> t \<noteq> 1 \<longrightarrow> (\<exists>q. alarm3_main U R h j s p = Inr (Exited 0 q) \<and>
      shown (view (kern q)) = append_to 1 (''after pause'' @ newline @ pending_line (1 < t)) (shown v)))"
  by (rule unix_signals.alarm3_run [OF assms])

text \<open>
  C23: \<^verbatim>\<open>test.c\<close>.  The alarm runs the handler that \<open>signal\<close> installed, on the way back through
  the stub \<open>restore_rt\<close>, and \<open>pause\<close> returns: \<open>perror\<close> has printed \<open>Success\<close>, the two lines
  appear in order, the program exits with 0.  Afterwards the mask and the masks to come back to are those of
  before, so that the stub made the right system call, and the handler is still installed:
  \<open>SA_ONESHOT\<close> had no effect.
\<close>

theorem test_c_shows:
  assumes "unix_signals U view code" "v = view (kern p)" "stopped v = None" "coming v = []" "\<not> is_blocked v SIGALRM"
    and "0 \<le> sint (k_sa_handler (actions v SIGALRM))" "h \<noteq> 0" "h \<noteq> SIG_IGN"
    and "\<forall>k. code R k = restore_rt U k" "\<forall>k e. code h k = kern (test_handler U \<lparr>errno = e, kern = k\<rparr>)"
  shows "\<exists>q. test_c_main U R h j p = Inr (Exited 0 q) \<and>
    view (kern q) = v\<lparr>actions := (actions v)(SIGALRM := signal_action R h),
      shown := append_to 1 (''inside handler'' @ newline @ ''after pause'' @ newline) (append_to 2 ('': Success'' @ newline) (shown v))\<rparr>"
  by (rule unix_signals.test_c_run [OF assms])

end
