(* ===== verification/Alarm_Sessions.thy ===== *)
theory Alarm_Sessions
  imports Mini_Alarm
begin

text \<open>
  A kernel that keeps to the contract \<open>unix_signals\<close>, with the signal state as it is and a
  memory of words, and runs of the programs of \<open>Mini_Alarm\<close> on it.
\<close>

record small_os =
  os_signals :: signals
  os_mem :: "u64 \<Rightarrow> u64"

definition on_signals :: "(signals \<Rightarrow> signals) \<Rightarrow> small_os \<Rightarrow> small_os" where
  "on_signals f k = k\<lparr>os_signals := f (os_signals k)\<rparr>"

lemma on_signals_simps [simp]:
  "os_signals (on_signals f k) = f (os_signals k)" "os_mem (on_signals f k) = os_mem k"
  by (simp_all add: on_signals_def)

definition os_write :: "u32 \<Rightarrow> string \<Rightarrow> small_os \<Rightarrow> u64 \<times> small_os" where
  "os_write fd s k = (of_nat (length s), on_signals (\<lambda>v. v\<lparr>shown := append_to fd s (shown v)\<rparr>) k)"

definition os_return :: "small_os \<Rightarrow> small_os" where
  "os_return k =
     (case frames (os_signals k) of
        [] \<Rightarrow> k
      | m # ms \<Rightarrow> on_signals (\<lambda>v. v\<lparr>blocked := m, frames := ms\<rparr>) k)"

text \<open>The code of the process: a handler at \<open>0x500\<close>, the stub at \<open>0x600\<close>, functions that do nothing.\<close>

definition os_code :: "u64 \<Rightarrow> small_os \<Rightarrow> small_os" where
  "os_code a k =
     (if a = 0x500 then snd (os_write 1 (''inside handler'' @ newline) k)
      else if a = 0x600 then os_return k else k)"

fun os_pause :: "(nat \<times> u32) list \<Rightarrow> small_os \<Rightarrow> u64 \<times> small_os" where
  "os_pause [] k = (0, on_signals (\<lambda>v. v\<lparr>stopped := Some Asleep\<rparr>) k)"
| "os_pause ((d, sig) # q) k =
     (let act = actions (os_signals k) sig in
      if is_blocked (os_signals k) sig
      then os_pause q (on_signals (\<lambda>v. v\<lparr>coming := q, held := held v OR sig_word sig\<rparr>) k)
      else if k_sa_handler act = SIG_IGN then os_pause q (on_signals (\<lambda>v. v\<lparr>coming := q\<rparr>) k)
      else if k_sa_handler act = 0 then (0, on_signals (\<lambda>v. v\<lparr>coming := q, stopped := Some (Killed sig)\<rparr>) k)
      else (- EINTR, os_code (k_sa_restorer act) (os_code (k_sa_handler act)
             (on_signals (\<lambda>v. in_handler sig act (v\<lparr>coming := q\<rparr>)) k))))"

fun os_sleep :: "(nat \<times> u32) list \<Rightarrow> nat \<Rightarrow> u64 \<Rightarrow> small_os \<Rightarrow> (u64 \<times> u64) \<times> small_os" where
  "os_sleep [] n r0 k = ((0, r0), k)"
| "os_sleep ((d, sig) # q) n r0 k =
     (if d \<le> n \<and> is_blocked (os_signals k) sig
      then os_sleep q (n - d) r0 (on_signals (\<lambda>v. v\<lparr>coming := q, held := held v OR sig_word sig\<rparr>) k)
      else ((0, r0), k))"

definition os_call :: "small_os kernel" where
  "os_call nr args k =
     (if nr = 14 then (0, on_signals (\<lambda>v. v\<lparr>blocked := new_mask SIG_BLOCK (Some (os_mem k (args ! 1))) (blocked v)\<rparr>) k)
      else if nr = 15 then (0, os_return k)
      else if nr = 34 then os_pause (coming (os_signals k)) k
      else if nr = 37 then (0, on_signals (\<lambda>v. v\<lparr>coming := send_in (unat (args ! 0)) SIGALRM (coming v)\<rparr>) k)
      else if nr = 127 then (0, k\<lparr>os_mem := (os_mem k)(args ! 0 := held (os_signals k) AND blocked (os_signals k))\<rparr>)
      else (- 38, k))"

definition os_act :: "small_os act_kernel" where
  "os_act sig act k = ((0, actions (os_signals k) sig), on_signals (\<lambda>v. v\<lparr>actions := (actions v)(sig := act),
     held := (if k_sa_handler act = SIG_IGN then held v AND NOT (sig_word sig) else held v)\<rparr>) k)"

definition small_unix :: "small_os unix" where
  "small_unix = \<lparr>u_call = os_call, u_act = os_act, u_nap = \<lambda>sec nsec r0 k. os_sleep (coming (os_signals k)) (unat sec) r0 k,
     u_write = os_write, u_load = \<lambda>a k. os_mem k a, u_store = \<lambda>a w k. k\<lparr>os_mem := (os_mem k)(a := w)\<rparr>,
     u_stopped = \<lambda>k. stopped (os_signals k)\<rparr>"

lemma unat_minus_of_nat:
  fixes w :: u64
  assumes "d \<le> unat w"
  shows "unat (w - of_nat d) = unat w - d"
proof -
  have "unat (of_nat d :: u64) = d"
    using assms unsigned_less [of w, where 'a = nat] by (simp add: unat_of_nat take_bit_nat_eq_self)
  moreover from this assms have "of_nat d \<le> w" by (simp add: word_le_nat_alt)
  ultimately show ?thesis by (simp add: unat_sub)
qed

interpretation small: unix_signals small_unix os_signals os_code
proof (unfold_locales, goal_cases)
  case (4 k fd s)
  then show ?case by (simp add: small_unix_def os_write_def append_to_def)
next
  case (11 k d sig q)
  then show ?case
    by (intro exI [of _ "on_signals (\<lambda>v. v\<lparr>coming := q, held := held v OR sig_word sig\<rparr>) k"])
      (simp add: small_unix_def os_call_def Let_def)
next
  case (12 k d sig q)
  then show ?case
    by (intro exI [of _ "on_signals (\<lambda>v. v\<lparr>coming := q\<rparr>) k"]) (simp add: small_unix_def os_call_def Let_def)
next
  case (14 k d sig q act)
  then show ?case
    by (intro exI [of _ "on_signals (\<lambda>v. in_handler sig act (v\<lparr>coming := q\<rparr>)) k"])
      (simp add: small_unix_def os_call_def Let_def)
next
  case (16 k d sig q sec r0)
  then show ?case
    by (intro exI [of _ "on_signals (\<lambda>v. v\<lparr>coming := q, held := held v OR sig_word sig\<rparr>) k"])
      (simp add: small_unix_def unat_minus_of_nat)
qed (auto simp: small_unix_def os_act_def os_call_def os_return_def Let_def SIG_IGN_def)

subsection \<open>Runs\<close>

definition quiet_process :: "(nat \<times> u32) list \<Rightarrow> small_os proc" where
  "quiet_process c = \<lparr>errno = 0, kern = \<lparr>os_signals = \<lparr>blocked = 0, held = 0x2000,
     actions = \<lambda>_. \<lparr>k_sa_handler = 0, k_sa_flags = 0, k_sa_restorer = 0, k_sa_mask = 0\<rparr>,
     coming = c, frames = [], stopped = None, shown = \<lambda>_. []\<rparr>, os_mem = \<lambda>_. 77\<rparr>\<rparr>"

lemma quiet_state [simp]:
  "stopped (os_signals (kern (quiet_process c))) = None" "coming (os_signals (kern (quiet_process c))) = c"
  "\<not> is_blocked (os_signals (kern (quiet_process c))) sig" "shown (os_signals (kern (quiet_process c))) fd = []"
  "k_sa_handler (actions (os_signals (kern (quiet_process c))) sig) = 0" "held (os_signals (kern (quiet_process c))) = 0x2000"
  by (simp_all add: quiet_process_def is_blocked_def)

definition any_stack :: stack0 where
  "any_stack = \<lparr>kact0 = \<lparr>k_sa_handler = 1, k_sa_flags = 2, k_sa_restorer = 3, k_sa_mask = 4\<rparr>,
     act0 = \<lparr>sa_handler = 5, sa_mask = 6, sa_flags = 7, sa_restorer = 8\<rparr>,
     oact0 = \<lparr>sa_handler = 9, sa_mask = 10, sa_flags = 11, sa_restorer = 12\<rparr>\<rparr>"

lemma os_stub: "os_code 0x600 k = restore_rt small_unix k"
  by (simp add: os_code_def restore_rt_def small_unix_def os_call_def)

lemma os_handler: "os_code 0x500 k = kern (test_handler small_unix \<lparr>errno = e, kern = k\<rparr>)"
  by (simp add: os_code_def test_handler_def write_1_def write_err_def small_unix_def WRAPPER_RETval_def os_write_def Let_def split_beta)

theorem alarm1_ends_witness: "\<exists>q. alarm1_main small_unix (quiet_process []) = Inr (Stopped (Killed SIGALRM) q)"
  using alarm1_ends [OF small.unix_signals_axioms refl, of "quiet_process []"] by (auto simp: SIG_IGN_def)

theorem alarm2_pending_witness:
  "\<exists>q. alarm2_main small_unix 0x7000 9 (quiet_process []) = Inr (Exited 0 q) \<and>
     shown (os_signals (kern q)) 1 = ''sigalrm is pending.'' @ newline @ [CHR 0x00]"
  using alarm2_pending [OF small.unix_signals_axioms refl, of "quiet_process []" "0x7000" 9] by (auto simp: append_to_def)

theorem alarm3_outcomes_witness:
  "(\<exists>q. alarm3_main small_unix 0x600 0x700 any_stack 0x7000 (quiet_process []) = Inr (Stopped Asleep q)) \<and>
   (\<exists>q. alarm3_main small_unix 0x600 0x700 any_stack 0x7000 (quiet_process [(5, SIGINT)]) = Inr (Exited 0 q) \<and>
     shown (os_signals (kern q)) 1 = ''after pause'' @ newline @ pending_line True) \<and>
   (\<exists>q. alarm3_main small_unix 0x600 0x700 any_stack 0x7000 (quiet_process [(0, SIGINT)]) = Inr (Exited 0 q) \<and>
     shown (os_signals (kern q)) 1 = ''after pause'' @ newline @ pending_line False)"
proof -
  have code: "\<forall>k. os_code 0x600 k = restore_rt small_unix k" "\<forall>k. os_code 0x700 k = k"
    using os_stub by (simp_all add: os_code_def)
  have h: "(0x700 :: u64) \<noteq> 0" "(0x700 :: u64) \<noteq> SIG_IGN" "(0x7000 :: u64) \<noteq> 0" by (simp_all add: SIG_IGN_def)
  note run = alarm3_outcomes [OF small.unix_signals_axioms refl quiet_state(1,3) h(3,1,2) code, of _ any_stack]
  have "\<exists>q. alarm3_main small_unix 0x600 0x700 any_stack 0x7000 (quiet_process []) = Inr (Stopped Asleep q)"
    using run [of "[]"] by simp
  moreover have "\<exists>q. alarm3_main small_unix 0x600 0x700 any_stack 0x7000 (quiet_process [(t, SIGINT)]) = Inr (Exited 0 q) \<and>
     shown (os_signals (kern q)) 1 = ''after pause'' @ newline @ pending_line (1 < t)" if "t \<noteq> 1" for t
    using run [of "[(t, SIGINT)]"] that by (fastforce simp: append_to_def)
  from this [of 5] this [of 0] have
    "\<exists>q. alarm3_main small_unix 0x600 0x700 any_stack 0x7000 (quiet_process [(5, SIGINT)]) = Inr (Exited 0 q) \<and>
     shown (os_signals (kern q)) 1 = ''after pause'' @ newline @ pending_line True"
    "\<exists>q. alarm3_main small_unix 0x600 0x700 any_stack 0x7000 (quiet_process [(0, SIGINT)]) = Inr (Exited 0 q) \<and>
     shown (os_signals (kern q)) 1 = ''after pause'' @ newline @ pending_line False" by simp_all
  ultimately show ?thesis by blast
qed

theorem test_c_shows_witness:
  "\<exists>q. test_c_main small_unix 0x600 0x500 any_stack (quiet_process []) = Inr (Exited 0 q) \<and>
     shown (os_signals (kern q)) 1 = ''inside handler'' @ newline @ ''after pause'' @ newline \<and>
     shown (os_signals (kern q)) 2 = '': Success'' @ newline \<and> blocked (os_signals (kern q)) = 0"
proof -
  have code: "\<forall>k. os_code 0x600 k = restore_rt small_unix k"
    "\<forall>k e. os_code 0x500 k = kern (test_handler small_unix \<lparr>errno = e, kern = k\<rparr>)"
    using os_stub os_handler by blast+
  have h: "0 \<le> sint (k_sa_handler (actions (os_signals (kern (quiet_process []))) SIGALRM))" "(0x500 :: u64) \<noteq> 0" "(0x500 :: u64) \<noteq> SIG_IGN"
    by (simp_all add: SIG_IGN_def)
  have "blocked (os_signals (kern (quiet_process []))) = 0" by (simp add: quiet_process_def)
  with test_c_shows [OF small.unix_signals_axioms refl quiet_state(1,2,3) h code, of any_stack] show ?thesis
    by (auto simp: append_to_def)
qed

end
