(* ===== verification/Spec2Isabelle.thy ===== *)
theory Spec2Isabelle
  imports Command_Sessions Careful_Sessions Walk_Sessions Jump_Sessions Tool_Sessions Program_Sessions Alarm_Sessions
begin

text \<open>
  \<^bold>\<open>What this is.\<close>  A model of the four homework programs of the repository and the theorems
  that make them correct, or show where they are not.  \<^verbatim>\<open>src/hw4\<close> is \<^verbatim>\<open>sdb\<close>, a debugger for
  ELF programs on x86-64 (\<^verbatim>\<open>elftool.c\<close> reads the file, \<^verbatim>\<open>sdb.h\<close> has the commands, \<^verbatim>\<open>main.c\<close>
  the command loop); \<^verbatim>\<open>src/hw3\<close> is \<^verbatim>\<open>libmini\<close>, a small C library over the Linux system calls;
  \<^verbatim>\<open>src/hw2\<close> is \<^verbatim>\<open>fsmon\<close>, a preloaded library that logs the file functions a program calls;
  \<^verbatim>\<open>src/hw1\<close> lists network connections with the processes that own them.

  \<^bold>\<open>Conventions.\<close>  A function of the code is a function of its state and arguments with a
  result \<open>fault + 'a\<close> (\<open>Prelude\<close>): \<open>Inl\<close> is an execution that C leaves undefined or that blocks
  for ever (reading an unassigned object, a null pointer, an index outside an array, an
  overflowing buffer, a bad shift), \<open>Inr\<close> everything else, the error messages of the code
  included.  A loop that need not end is a \<^theory_text>\<open>partial_function\<close> whose value \<open>None\<close> is not
  returning; no fuel is used.  Integers have the width of the code, strings are lists of
  characters before the terminating zero.  What an unassigned object on the stack holds is
  either a fault to read or an argument of the model over which the theorems quantify.
  The kernel, \<^verbatim>\<open>/proc\<close>, libelf, the Capstone disassembler, the wrapped C library and the text
  form of IPv6 addresses are parameters.  What is assumed of them is a hypothesis of the
  theorems, stated as the locales \<open>ptrace_host\<close>, \<open>finite_waits\<close>,
  \<open>traced_program\<close>, \<open>breakable\<close> and \<open>cpu_host\<close> (a processor that executes one instruction at a
  time and traps at \<open>int3\<close>) and \<open>unix_signals\<close> (how signals come to a process that waits,
  as on Linux; time passes only in waiting) and \<open>separate_log\<close> (what a program can observe
  does not depend on the log of the monitor) or the predicates
  \<open>action_kernel\<close>, \<open>accepts\<close>, \<open>item_shown\<close>, and shown to hold for a concrete instance.

  \<^bold>\<open>Theories.\<close>
  \<^item> \<open>Prelude\<close>, \<open>C_Text\<close>: results, counting loops, words and bytes; the \<open>scanf\<close>, \<open>printf\<close> and
    \<open>strtok\<close> behaviour that all programs share, with the round trips between them.
  \<^item> \<open>Elf_Tool\<close> (\<^verbatim>\<open>elftool.c\<close>, \<^verbatim>\<open>elftool.h\<close>): handles, section and program headers, string and
    symbol tables, loading and releasing.
  \<^item> \<open>Ptrace\<close>: the debugger's view of the system, words in byte memories, memory with \<open>int3\<close> bytes.
  \<^item> \<open>Sdb_State\<close>, \<open>Sdb_Maps\<close>, \<open>Sdb_Break\<close>, \<open>Sdb_Regs\<close>, \<open>Sdb_Exec\<close>, \<open>Sdb_Memory\<close> (\<^verbatim>\<open>sdb.h\<close>): the
    \<open>SDB\<close> record and loading; relocation and \<open>vmmap\<close>; the breakpoint table and planting;
    registers; \<open>start\<close>, \<open>run\<close>, \<open>cont\<close>, \<open>si\<close>; \<open>disasm\<close> and \<open>dump\<close>.  \<open>Sdb_Running\<close>: \<open>break\<close>
    and \<open>delete\<close> on a running process.  \<open>Sdb_Commands\<close> states what every command
    keeps, as a locale with an interpretation for each.
  \<^item> \<open>Sdb_Main\<close> (\<^verbatim>\<open>main.c\<close>): words of a line, the dispatch, the loop on the lines of the input.
    \<open>Sdb_Registers\<close>: the lines \<open>set\<close> and \<open>get\<close> against a register file.  \<open>Sdb_Careful\<close>: careful
    sessions as an inductive relation, and the invariant of the code of the process that every
    command keeps in them.  \<open>Sdb_Trace\<close>, \<open>Sdb_Walk\<close>: sessions of \<open>cont\<close>, and of
    \<open>cont\<close> and \<open>si\<close>, against the program run without a debugger.  \<open>Sdb_Test\<close>: the test
    program \<^verbatim>\<open>hw4/test.c\<close>.
  \<^item> \<open>Mini_Syscall\<close>, \<open>Mini_Memory\<close>, \<open>Mini_Signal\<close>, \<open>Mini_Jump\<close> (\<^verbatim>\<open>libmini.c\<close>, \<^verbatim>\<open>libmini.h\<close>,
    \<^verbatim>\<open>libmini64.asm\<close>): the system call wrappers, with one contract for all of them;
    memory functions and \<open>perror\<close> (\<open>Mini_Errors\<close>: its messages against the header); signal
    sets as an implementation of sets, \<open>sigaction\<close>, \<open>signal\<close>; \<open>setjmp\<close> and \<open>longjmp\<close> as
    instruction lists on a register machine.
    \<open>Mini_Programs\<close>: the entry point \<^verbatim>\<open>start.asm\<close> and the tests \<^verbatim>\<open>jmp1.c\<close> and \<^verbatim>\<open>jmp2.c\<close> on that machine.
    \<open>Mini_Alarm\<close>: the tests \<^verbatim>\<open>alarm1.c\<close>, \<^verbatim>\<open>alarm2.c\<close>, \<^verbatim>\<open>alarm3.c\<close> and \<^verbatim>\<open>test.c\<close>, which wait for a signal,
    and the stub \<open>restore_rt\<close> through which handlers return.
  \<^item> \<open>Fs_Monitor\<close> (\<^verbatim>\<open>fsmon.c\<close>): the hooks, one definition each, and the contract that they are
    the original call followed by at most one line, interpreted for all 37; the writing of
    the log acts on the same system, and the contract \<open>separate_log\<close> says when the program
    does not notice.  \<open>Fs_Log\<close>: which calls are served, and their lines in the log.
    \<open>Fs_Programs\<close> (\<^verbatim>\<open>testcases/*.c\<close>): programs that call the C library, run bare or under the
    monitor, and the five test programs.
  \<^item> \<open>Net_Entries\<close>, \<open>Net_Main\<close> (\<^verbatim>\<open>hw1_utils.h\<close>, \<^verbatim>\<open>main.cpp\<close>): a line becomes an entry, the search of
    \<^verbatim>\<open>/proc\<close>, selection, output.
  \<^item> \<open>Tiny_Machine\<close>, \<open>Sessions\<close>, \<open>Table_Sessions\<close>, \<open>Command_Sessions\<close>, \<open>Running_Sessions\<close>,
    \<open>Careful_Sessions\<close>, \<open>Trace_Sessions\<close>, \<open>Walk_Sessions\<close>, \<open>Mini_Sessions\<close>, \<open>Jump_Sessions\<close>,
    \<open>Tool_Sessions\<close>, \<open>Program_Sessions\<close>, \<open>Alarm_Sessions\<close>: concrete systems and closed examples; every theorem
    with hypotheses is applied to one of them.

  \<^bold>\<open>How the parts interact.\<close>  The commands of the debugger are functions on \<open>'k sys\<close>: the \<open>SDB\<close>
  record, the traced system, the output and what was released.  \<open>main_step\<close> scans a line and
  runs one command; \<open>sdb_set_break\<close>, \<open>sdb_cont\<close>, \<open>sdb_run\<close> and \<open>sdb_disasm\<close> all plant through
  \<open>sdb_patch_all_bp\<close>.  The invariant \<open>debugged\<close> says that the process memory is the program
  with \<open>int3\<close> at exactly the live breakpoints and that every saved word is the program's.
  In \<open>libmini\<close>, \<open>signal\<close> calls \<open>sigaction\<close>, the jumps call \<open>sigprocmask\<close>, \<open>perror\<close> calls \<open>write\<close>.
  The hooks of the monitor share \<open>BEGIN_MON\<close> and \<open>write_msg\<close>; \<open>run_program\<close> runs a program whose
  calls go through them.

  \<^bold>\<open>What the theorems show.\<close>  Debugger: a session of \<open>cont\<close> lines shows exactly the states in
  which the undebugged program comes to the breakpoints, and its end, and with \<open>si\<close> lines in
  between it still follows the program (but not from a breakpoint straight to another, where
  it executes its own breakpoint instruction); continuing from a breakpoint executes the
  original instruction and stops at the next breakpoint with the invariant intact; planting
  changes exactly the breakpoint bytes; in careful sessions no sequence of commands damages the
  code of the process, and deleting all breakpoints gives it back exactly; \<open>break\<close> and
  \<open>delete\<close> on a running process add and remove exactly their byte (but for a relocated program,
  where \<open>delete\<close> misses it, and for breakpoints that share a word, which damage each other);
  the table commands refine a finite map, and \<open>set\<close> and \<open>get\<close> a register file, from the typed
  characters to the printed ones; disassembly shows the program and not the planted bytes;
  \<open>run\<close> and \<open>cont\<close> come back, with a state or a fault, when the waits are finitely many, and \<open>cont\<close> blocks where the code waits for a process
  that it did not resume.  Library: an error of the kernel arrives in \<open>errno\<close> and is printed
  with the text of the header; signal sets are sets; \<open>signal\<close> swaps handlers; \<open>longjmp\<close> returns
  to \<open>setjmp\<close>; the two jump tests always end, with the lines they are to print; of the tests that wait for a
  signal it is shown which ends, which waits for ever, and what is printed: a handler installed
  by \<open>signal\<close> runs and returns through \<open>restore_rt\<close> with the old mask, a blocked alarm is
  reported as pending.  Monitor: the
  monitored program gets the results and effects of the bare one (but for the mode of an
  \<open>open\<close> that creates a file and the upper half of what \<open>read\<close> and \<open>write\<close> return), the streams
  of the log being closed again; where the monitor can do
  its work a whole program ends as it does without it, each call with its line in the log, in
  order and under its name (\<open>fread\<close> as \<open>pwrite\<close>, \<open>symlink\<close> as \<open>syslink\<close>); the log of
  \<^verbatim>\<open>file.c\<close> by name and the fault that closing a directory causes in \<^verbatim>\<open>dir.c\<close>.  ELF reader: string
  tables, and symbol tables against the layout of the specification.  Lister: the
  fields of an entry, its owner, and which entries are listed.  Several theorems state a
  behaviour that the code surely does not want (a full breakpoint table, the raw exit status,
  signal masks that only grow, IPv6 addresses that collapse, ...); their text says so.

  \<^bold>\<open>Not modelled.\<close>  The flag values and prototypes of \<^verbatim>\<open>libmini.h\<close> that
  no function uses; the delivery of signals inside the kernel, of which the contract
  \<open>unix_signals\<close> says what the programs see (\<open>SIGINT\<close> and \<open>SIGALRM\<close> only, no signal between two
  calls; \<open>alarm\<close> with another alarm running, and a signal that ends \<open>sleep\<close>, are left open); the
  order of \<open>elf_init\<close> and the other uses of libelf, whose reports on a file are an argument of
  the loader; the end of the input of the debugger, where \<open>getline\<close> fails and \<^verbatim>\<open>main.c\<close> runs the
  last line again and again (\<open>main_loop\<close> ends with the lines it is given); what the kernel makes
  of a change of the flags or the segment registers; freeing of memory other
  than by \<open>elf_close\<close>; \<open>errno\<close> in the monitor (which may change it between the calls of a program) and the lister; the instructions that the compiler
  puts around the inline assembly of the jumps, which are described by \<open>entered\<close>,
  \<open>call_sigprocmask\<close> and \<open>return_value\<close> instead; that a monitored \<open>fprintf\<close> is used to report a
  missing function, since the null function that follows is called at once.
\<close>

end
